(* ===== verification/Prelude.thy ===== *)
theory Prelude
  imports "HOL-Library.Word" "HOL-Library.AList" "HOL-Library.Multiset"
begin

text \<open>
  Shared vocabulary of the development: machine integers, byte and text strings, the
  C++ standard containers the sources use, and the facts about them that every component
  theory needs.  A \<^verbatim>\<open>std::string\<close> is a \<open>string\<close> (a list of bytes seen as characters), a
  \<^verbatim>\<open>std::vector<uint8_t>\<close> or \<^verbatim>\<open>std::vector<char>\<close> that carries wire data is a \<open>byte list\<close>, and
  an \<^verbatim>\<open>std::unordered_map\<close> is an association list with distinct keys whose iteration order
  is a parameter of the operations that depend on it.
\<close>

unbundle bit_operations_syntax

type_synonym byte = "8 word"
type_synonym u16 = "16 word"
type_synonym u32 = "32 word"
type_synonym u64 = "64 word"
type_synonym bytes = "byte list"
type_synonym ('k, 'v) umap = "('k \<times> 'v) list"

named_theorems wire_simps "decoding of freshly encoded wire data"
named_theorems umap_simps "lookup, keys and sizes of unordered maps"


section \<open>Bytes, characters and big-endian integers\<close>

definition chr_of_byte :: "byte \<Rightarrow> char" where
  "chr_of_byte b = char_of (unat b)"

definition byte_of_chr :: "char \<Rightarrow> byte" where
  "byte_of_chr c = word_of_nat (of_char c)"

definition string_of_bytes :: "bytes \<Rightarrow> string" where
  "string_of_bytes bs = map chr_of_byte bs"

definition bytes_of_string :: "string \<Rightarrow> bytes" where
  "bytes_of_string s = map byte_of_chr s"

definition hi8 :: "u16 \<Rightarrow> byte" where
  "hi8 w = ucast (drop_bit 8 w)"

definition lo8 :: "u16 \<Rightarrow> byte" where
  "lo8 w = ucast (w AND 0xFF)"

definition be16 :: "byte \<Rightarrow> byte \<Rightarrow> u16" where
  "be16 h l = push_bit 8 (ucast h) OR ucast l"

definition be32 :: "byte \<Rightarrow> byte \<Rightarrow> byte \<Rightarrow> byte \<Rightarrow> u32" where
  "be32 a b c d = push_bit 24 (ucast a) OR push_bit 16 (ucast b) OR push_bit 8 (ucast c) OR ucast d"

lemma unat_byte_less [simp]: "unat (b :: byte) < 256"
  using unsigned_less [of b] by simp

lemma unat_u16_less [simp]: "unat (w :: u16) < 65536"
  using unsigned_less [of w] by simp

lemma of_char_less_256 [simp]: "(of_char c :: nat) < 256"
  by (metis char_of_mod_256 of_char_of mod_less_divisor zero_less_numeral of_char_mod_256)

lemma byte_of_chr_of_byte [simp]: "byte_of_chr (chr_of_byte b) = b"
  by (simp add: byte_of_chr_def chr_of_byte_def of_char_of)

lemma chr_of_byte_of_chr [simp]: "chr_of_byte (byte_of_chr c) = c"
  by (simp add: byte_of_chr_def chr_of_byte_def unat_of_nat take_bit_nat_eq_self)

lemma bytes_of_string_of_bytes [simp]: "bytes_of_string (string_of_bytes bs) = bs"
  by (simp add: bytes_of_string_def string_of_bytes_def comp_def)

lemma string_of_bytes_of_string [simp]: "string_of_bytes (bytes_of_string s) = s"
  by (simp add: bytes_of_string_def string_of_bytes_def comp_def)

lemma length_string_of_bytes [simp]: "length (string_of_bytes bs) = length bs"
  by (simp add: string_of_bytes_def)

lemma length_bytes_of_string [simp]: "length (bytes_of_string s) = length s"
  by (simp add: bytes_of_string_def)

lemma string_of_bytes_empty_iff [simp]: "string_of_bytes bs = [] \<longleftrightarrow> bs = []"
  by (simp add: string_of_bytes_def)

lemma mask8_u16: "(0xFF :: u16) = mask 8"
  by (simp add: mask_eq_exp_minus_1)

lemma be16_hi8_lo8 [simp, wire_simps]: "be16 (hi8 w) (lo8 w) = w"
  by (rule bit_word_eqI) (auto simp: be16_def hi8_def lo8_def mask8_u16 bit_simps)

lemma hi8_be16 [simp, wire_simps]: "hi8 (be16 h l) = h"
  by (rule bit_word_eqI)
    (auto simp: be16_def hi8_def lo8_def mask8_u16 bit_simps dest: bit_imp_le_length)

lemma lo8_be16 [simp, wire_simps]: "lo8 (be16 h l) = l"
  by (rule bit_word_eqI)
    (auto simp: be16_def hi8_def lo8_def mask8_u16 bit_simps dest: bit_imp_le_length)


section \<open>Text: NUL termination, decimal rendering, ASCII lower case\<close>

text \<open>
  \<open>c_str\<close> is what a C API sees of a \<^verbatim>\<open>std::string\<close>; \<open>to_string\<close> is
  \<^verbatim>\<open>std::to_string\<close> on a non-negative integer; \<open>tolower_c\<close> is \<^verbatim>\<open>std::tolower\<close> in the
  \<^verbatim>\<open>"C"\<close> locale, the one the program runs in (it never calls \<^verbatim>\<open>setlocale\<close>).
\<close>

definition c_str :: "string \<Rightarrow> string" where
  "c_str s = takeWhile (\<lambda>c. c \<noteq> CHR 0x00) s"

definition digit_chr :: "nat \<Rightarrow> char" where
  "digit_chr d = char_of (48 + d)"

fun to_string :: "nat \<Rightarrow> string" where
  "to_string n = (if n < 10 then [digit_chr n] else to_string (n div 10) @ [digit_chr (n mod 10)])"

declare to_string.simps [simp del]

definition isdigit_c :: "char \<Rightarrow> bool" where
  "isdigit_c c \<longleftrightarrow> 48 \<le> (of_char c :: nat) \<and> (of_char c :: nat) \<le> 57"

definition isspace_c :: "char \<Rightarrow> bool" where
  "isspace_c c \<longleftrightarrow> c = CHR '' '' \<or> (9 \<le> (of_char c :: nat) \<and> (of_char c :: nat) \<le> 13)"

definition digits_val :: "string \<Rightarrow> nat" where
  "digits_val s = foldl (\<lambda>acc c. 10 * acc + (of_char c - 48)) 0 s"

definition tolower_c :: "char \<Rightarrow> char" where
  "tolower_c c = (if 65 \<le> (of_char c :: nat) \<and> (of_char c :: nat) \<le> 90
     then char_of ((of_char c :: nat) + 32) else c)"

lemma of_char_digit_chr [simp]: "d < 10 \<Longrightarrow> of_char (digit_chr d) = 48 + d"
  by (simp add: digit_chr_def of_char_of)

lemma isdigit_digit_chr [simp]: "d < 10 \<Longrightarrow> isdigit_c (digit_chr d)"
  by (simp add: isdigit_c_def)

lemma to_string_isdigit: "c \<in> set (to_string n) \<Longrightarrow> isdigit_c c"
  by (induction n arbitrary: c rule: to_string.induct)
    (subst (asm) (2) to_string.simps, auto split: if_splits)

lemma to_string_nonempty [simp]: "to_string n \<noteq> []"
  by (subst to_string.simps) simp

lemma digits_val_to_string [simp]: "digits_val (to_string n) = n"
proof (induction n rule: to_string.induct)
  case (1 n)
  then show ?case
    by (cases "n < 10") (simp_all add: to_string.simps [of n] digits_val_def)
qed

lemma to_string_inject [simp]: "to_string m = to_string n \<longleftrightarrow> m = n"
  by (metis digits_val_to_string)

lemma colon_not_digit [simp]: "\<not> isdigit_c CHR '':''"
  by (simp add: isdigit_c_def)

lemma tolower_c_idem [simp]: "tolower_c (tolower_c c) = tolower_c c"
  by (auto simp: tolower_c_def of_char_of)

lemma append_sep_inject:
  assumes "xs @ c # ds = ys @ c # es" and "c \<notin> set ds" and "c \<notin> set es"
  shows "xs = ys \<and> ds = es"
proof -
  have "rev ds @ c # rev xs = rev es @ c # rev ys"
    using assms(1) by (metis append.assoc append_Cons append_Nil rev.simps(2) rev_append)
  then have "takeWhile (\<lambda>x. x \<noteq> c) (rev ds @ c # rev xs) = takeWhile (\<lambda>x. x \<noteq> c) (rev es @ c # rev ys)"
    by simp
  moreover have "takeWhile (\<lambda>x. x \<noteq> c) (rev ds @ c # rev xs) = rev ds"
    using assms(2) by (subst takeWhile_append2) auto
  moreover have "takeWhile (\<lambda>x. x \<noteq> c) (rev es @ c # rev ys) = rev es"
    using assms(3) by (subst takeWhile_append2) auto
  ultimately have "ds = es" by simp
  with assms(1) show ?thesis by simp
qed


section \<open>Unordered maps\<close>

text \<open>
  The order in which an \<^verbatim>\<open>std::unordered_map\<close> is iterated is implementation-defined.  An
  operation that walks the map takes the order as a function \<open>ord\<close> of the key list;
  \<open>iter_ok\<close> is what the standard promises of it.
\<close>

abbreviation um_find :: "('k, 'v) umap \<Rightarrow> 'k \<Rightarrow> 'v option" where
  "um_find m k \<equiv> map_of m k"

abbreviation um_set :: "'k \<Rightarrow> 'v \<Rightarrow> ('k, 'v) umap \<Rightarrow> ('k, 'v) umap" where
  "um_set k v m \<equiv> AList.update k v m"

abbreviation um_erase :: "'k \<Rightarrow> ('k, 'v) umap \<Rightarrow> ('k, 'v) umap" where
  "um_erase k m \<equiv> AList.delete k m"

definition um_wf :: "('k, 'v) umap \<Rightarrow> bool" where
  "um_wf m \<longleftrightarrow> distinct (map fst m)"

definition iter_ok :: "('k list \<Rightarrow> 'k list) \<Rightarrow> bool" where
  "iter_ok ord \<longleftrightarrow> (\<forall>ks. distinct ks \<longrightarrow> distinct (ord ks) \<and> set (ord ks) = set ks)"

definition um_evict :: "('k list \<Rightarrow> 'k list) \<Rightarrow> nat \<Rightarrow> ('k, 'v) umap \<Rightarrow> ('k, 'v) umap" where
  "um_evict ord n m = filter (\<lambda>kv. fst kv \<notin> set (take n (ord (map fst m)))) m"

lemma um_wf_Nil [simp, umap_simps]: "um_wf []"
  by (simp add: um_wf_def)

lemma um_wf_set [simp, umap_simps]: "um_wf m \<Longrightarrow> um_wf (um_set k v m)"
  by (simp add: um_wf_def distinct_update)

lemma um_wf_erase [simp, umap_simps]: "um_wf m \<Longrightarrow> um_wf (um_erase k m)"
  by (simp add: um_wf_def distinct_delete)

lemma um_wf_filter [simp, umap_simps]: "um_wf m \<Longrightarrow> um_wf (filter P m)"
  by (simp add: um_wf_def distinct_map_filter)

lemma um_find_set [simp, umap_simps]: "um_find (um_set k v m) k' = (if k' = k then Some v else um_find m k')"
  by (simp add: update_conv)

lemma um_find_erase [simp, umap_simps]: "um_find (um_erase k m) k' = (if k' = k then None else um_find m k')"
  by (simp add: delete_conv)

lemma um_keys_set: "fst ` set (um_set k v m) = insert k (fst ` set m)"
  by (induction m) auto

lemma um_size_set [umap_simps]:
  "length (um_set k v m) = (if um_find m k = None then Suc (length m) else length m)"
  by (induction m) (auto simp: map_of_eq_None_iff)

lemma um_size_erase_le [simp]: "length (um_erase k m) \<le> length m"
  by (simp add: AList.delete_eq)

lemma um_evict_nil [simp]: "um_evict ord n [] = []"
  by (simp add: um_evict_def)

lemma um_wf_evict [simp, umap_simps]: "um_wf m \<Longrightarrow> um_wf (um_evict ord n m)"
  by (simp add: um_evict_def)

lemma um_find_filter_keys:
  "um_find (filter (\<lambda>kv. fst kv \<notin> S) m) k = (if k \<in> S then None else um_find m k)"
  by (induction m) auto

lemma um_find_evict:
  "um_find (um_evict ord n m) k =
     (if k \<in> set (take n (ord (map fst m))) then None else um_find m k)"
  by (simp add: um_evict_def um_find_filter_keys)

lemma um_size_evict:
  assumes "um_wf m" and "iter_ok ord" and "n \<le> length m"
  shows "length (um_evict ord n m) = length m - n"
proof -
  let ?ks = "map fst m" and ?vs = "take n (ord (map fst m))"
  have ord: "distinct (ord ?ks)" "set (ord ?ks) = set ?ks"
    using assms by (auto simp: iter_ok_def um_wf_def)
  have "length (ord ?ks) = length m"
    using ord assms(1) by (metis distinct_card length_map um_wf_def)
  with ord assms(3) have vs: "card (set ?vs) = n" "set ?vs \<subseteq> set ?ks"
    by (auto simp: distinct_card dest: in_set_takeD)
  have "length (um_evict ord n m) = length (map fst (um_evict ord n m))" by simp
  also have "\<dots> = card (fst ` set (um_evict ord n m))"
    using um_wf_evict [OF assms(1), of ord n] by (metis distinct_card list.set_map um_wf_def)
  also have "fst ` set (um_evict ord n m) = set ?ks - set ?vs"
    by (auto simp: um_evict_def)
  also have "card (set ?ks - set ?vs) = length m - n"
    using vs assms(1) by (metis card_Diff_subset distinct_card finite_set length_map um_wf_def)
  finally show ?thesis .
qed

lemma iter_ok_id [simp]: "iter_ok (\<lambda>ks. ks)"
  by (simp add: iter_ok_def)

text \<open>Updating and erasing as operations on the multiset of entries, and counting keys.\<close>

lemma um_mset_set_new: "um_find m k = None \<Longrightarrow> mset (um_set k v m) = add_mset (k, v) (mset m)"
  by (induction m) (auto split: if_splits)

lemma um_erase_absent: "um_find m k = None \<Longrightarrow> um_erase k m = m"
  by (induction m) (auto split: if_splits)

lemma um_mset_erase: "um_wf m \<Longrightarrow> um_find m k = Some v \<Longrightarrow> mset m = add_mset (k, v) (mset (um_erase k m))"
proof (induction m)
  case (Cons kv m)
  then show ?case
  proof (cases "fst kv = k")
    case True
    with Cons.prems have "um_find m k = None" by (auto simp: um_wf_def map_of_eq_None_iff)
    with True Cons.prems show ?thesis by (cases kv) (simp add: um_erase_absent)
  next
    case False
    with Cons show ?thesis by (cases kv) (auto simp: um_wf_def)
  qed
qed simp

lemma um_find_in_set: "um_wf m \<Longrightarrow> (k, v) \<in> set m \<longleftrightarrow> um_find m k = Some v"
  by (simp add: um_wf_def)

lemma um_size_le_card:
  assumes "um_wf m" and "inj_on f (fst ` set m)" and "f ` fst ` set m \<subseteq> S" and "finite S"
  shows "length m \<le> card S"
proof -
  have "length m = card (fst ` set m)"
    using assms(1) by (metis distinct_card length_map list.set_map um_wf_def)
  also have "\<dots> = card (f ` fst ` set m)" using assms(2) by (simp add: card_image)
  also have "\<dots> \<le> card S" using assms(3,4) by (rule card_mono [rotated])
  finally show ?thesis .
qed


section \<open>Counting in a list that is updated at one place\<close>

lemma filter_update_count:
  assumes "i < length xs"
  shows "length (filter P (xs[i := x])) = length (filter P xs) - of_bool (P (xs ! i)) + of_bool (P x)"
  using assms
proof (induction xs arbitrary: i)
  case (Cons y ys)
  then have "P (ys ! j) \<Longrightarrow> j < length ys \<Longrightarrow> filter P ys \<noteq> []" for j by (auto simp: filter_empty_conv)
  with Cons show ?case by (cases i) (auto simp: Suc_diff_le)
qed simp

lemma filter_member_pos: "i < length xs \<Longrightarrow> P (xs ! i) \<Longrightarrow> Suc (length (filter P xs) - Suc 0) = length (filter P xs)"
  by (cases "filter P xs") (auto simp: filter_empty_conv)

end
