(* ===== verification/NetworkUtils.thy ===== *)
theory NetworkUtils
  imports Prelude
begin

text \<open>
  Socket addresses and the address helpers of \<^verbatim>\<open>network/Network.cpp\<close>: parsing and printing of
  addresses, the hash-map key \<^verbatim>\<open>EndpointKey\<close>, availability probes, interface lookup.

  Winsock is not part of the repository.  Its conversions \<^verbatim>\<open>inet_pton\<close> and \<^verbatim>\<open>inet_ntop\<close>,
  the results of \<^verbatim>\<open>socket\<close> and \<^verbatim>\<open>bind\<close>, and the adapter list of \<^verbatim>\<open>GetAdaptersAddresses\<close>
  are the fields of the parameter record \<open>winsock\<close>; \<open>inet_ok\<close> states what the
  documentation promises of the conversions.  A \<^verbatim>\<open>sockaddr_storage\<close> is a datatype with one
  constructor per family the program uses; ports are kept in host order (the value
  \<^verbatim>\<open>ntohs\<close> returns) and \<open>sockaddr_bytes\<close> gives the memory image.
\<close>

datatype sockaddr_storage =
    AddrNone
  | AddrIn u16 bytes
  | AddrIn6 u16 u32 bytes u32

datatype sock_type = SOCK_STREAM | SOCK_DGRAM

record adapter =
  ad_up :: bool
  ad_loopback :: bool
  ad_friendly :: string
  ad_description :: string
  ad_name :: "string option"
  ad_unicast :: "sockaddr_storage option list"

record winsock =
  inet_pton4 :: "string \<Rightarrow> bytes option"
  inet_pton6 :: "string \<Rightarrow> bytes option"
  inet_ntop4 :: "bytes \<Rightarrow> string"
  inet_ntop6 :: "bytes \<Rightarrow> string"
  socket_ok :: "int \<Rightarrow> sock_type \<Rightarrow> bool"
  bind_ok :: "sock_type \<Rightarrow> sockaddr_storage \<Rightarrow> bool"
  os_adapters :: "adapter list option"

abbreviation AF_INET :: int where "AF_INET \<equiv> 2"
abbreviation AF_INET6 :: int where "AF_INET6 \<equiv> 23"

fun ss_family :: "sockaddr_storage \<Rightarrow> int" where
  "ss_family AddrNone = 0"
| "ss_family (AddrIn p a) = AF_INET"
| "ss_family (AddrIn6 p f a s) = AF_INET6"

fun set_port :: "u16 \<Rightarrow> sockaddr_storage \<Rightarrow> sockaddr_storage" where
  "set_port p AddrNone = AddrNone"
| "set_port p (AddrIn p' a) = AddrIn p a"
| "set_port p (AddrIn6 p' f a s) = AddrIn6 p f a s"

fun get_port :: "sockaddr_storage \<Rightarrow> u16" where
  "get_port AddrNone = 0"
| "get_port (AddrIn p a) = p"
| "get_port (AddrIn6 p f a s) = p"

fun addr_wf :: "sockaddr_storage \<Rightarrow> bool" where
  "addr_wf AddrNone \<longleftrightarrow> True"
| "addr_wf (AddrIn p a) \<longleftrightarrow> length a = 4"
| "addr_wf (AddrIn6 p f a s) \<longleftrightarrow> length a = 16"


section \<open>Parsing and printing\<close>

definition ParseIP :: "winsock \<Rightarrow> string \<Rightarrow> (sockaddr_storage \<times> int) option" where
  "ParseIP ws ip =
     (case inet_pton4 ws (c_str ip) of
        Some a \<Rightarrow> Some (AddrIn 0 a, AF_INET)
      | None \<Rightarrow>
          (case inet_pton6 ws (c_str ip) of
             Some a \<Rightarrow> Some (AddrIn6 0 0 a 0, AF_INET6)
           | None \<Rightarrow> None))"

fun IPToString :: "winsock \<Rightarrow> sockaddr_storage \<Rightarrow> string" where
  "IPToString ws (AddrIn p a) = inet_ntop4 ws a"
| "IPToString ws (AddrIn6 p f a s) = inet_ntop6 ws a"
| "IPToString ws AddrNone = ''''"

fun EndpointToString :: "winsock \<Rightarrow> sockaddr_storage option \<Rightarrow> string" where
  "EndpointToString ws None = ''Unknown''"
| "EndpointToString ws (Some (AddrIn p a)) =
     IPToString ws (AddrIn p a) @ '':'' @ to_string (unat p)"
| "EndpointToString ws (Some (AddrIn6 p f a s)) =
     ''['' @ IPToString ws (AddrIn6 p f a s) @ '']:'' @ to_string (unat p)"
| "EndpointToString ws (Some AddrNone) = ''Unknown''"

definition IsAnyAddress :: "string \<Rightarrow> bool" where
  "IsAnyAddress ip \<longleftrightarrow> ip = ''0.0.0.0'' \<or> ip = ''::'' \<or> ip = []"

text \<open>
  What the Winsock documentation says of the conversions: \<open>inet_pton\<close> yields 4 or 16 bytes,
  \<open>inet_ntop\<close> yields text without NUL that \<open>inet_pton\<close> reads back, and text of the one family
  is not text of the other.
\<close>

definition inet_ok :: "winsock \<Rightarrow> bool" where
  "inet_ok ws \<longleftrightarrow>
     (\<forall>s a. inet_pton4 ws s = Some a \<longrightarrow> length a = 4) \<and>
     (\<forall>s a. inet_pton6 ws s = Some a \<longrightarrow> length a = 16) \<and>
     (\<forall>a. length a = 4 \<longrightarrow> inet_pton4 ws (inet_ntop4 ws a) = Some a \<and> CHR 0x00 \<notin> set (inet_ntop4 ws a)) \<and>
     (\<forall>a. length a = 16 \<longrightarrow> inet_pton6 ws (inet_ntop6 ws a) = Some a \<and> CHR 0x00 \<notin> set (inet_ntop6 ws a)
        \<and> inet_pton4 ws (inet_ntop6 ws a) = None)"

lemma c_str_no_nul [simp]: "CHR 0x00 \<notin> set s \<Longrightarrow> c_str s = s"
  by (simp add: c_str_def takeWhile_eq_all_conv) metis

lemma ParseIP_wf: "inet_ok ws \<Longrightarrow> ParseIP ws ip = Some (sa, fam) \<Longrightarrow>
    addr_wf sa \<and> ss_family sa = fam \<and> get_port sa = 0 \<and> (fam = AF_INET \<or> fam = AF_INET6)"
  by (auto simp: ParseIP_def inet_ok_def split: option.splits)

lemma ParseIP_family: "ParseIP ws ip = Some (sa, fam) \<Longrightarrow>
    ss_family sa = fam \<and> get_port sa = 0 \<and> (fam = AF_INET \<or> fam = AF_INET6)"
  by (auto simp: ParseIP_def split: option.splits)

lemma ss_family_set_port [simp]: "ss_family (set_port p sa) = ss_family sa"
  by (cases sa) auto

lemma get_port_set_port [simp]: "sa \<noteq> AddrNone \<Longrightarrow> get_port (set_port p sa) = p"
  by (cases sa) auto

lemma addr_wf_set_port [simp]: "addr_wf (set_port p sa) = addr_wf sa"
  by (cases sa) auto

lemma set_port_eq_None [simp]: "set_port p sa = AddrNone \<longleftrightarrow> sa = AddrNone"
  by (cases sa) auto

lemma set_port_set_port [simp]: "set_port p (set_port q sa) = set_port p sa"
  by (cases sa) auto


section \<open>Endpoint keys\<close>

definition le32_bytes :: "u32 \<Rightarrow> bytes" where
  "le32_bytes w = [ucast w, ucast (drop_bit 8 w), ucast (drop_bit 16 w), ucast (drop_bit 24 w)]"

fun sockaddr_bytes :: "sockaddr_storage \<Rightarrow> bytes" where
  "sockaddr_bytes AddrNone = []"
| "sockaddr_bytes (AddrIn p a) = [2, 0] @ [hi8 p, lo8 p] @ a @ replicate 8 0"
| "sockaddr_bytes (AddrIn6 p f a s) = [23, 0] @ [hi8 p, lo8 p] @ le32_bytes f @ a @ le32_bytes s"

record EndpointKey =
  ek_addr :: sockaddr_storage
  ek_len :: nat

definition EndpointKey_From :: "sockaddr_storage \<Rightarrow> EndpointKey" where
  "EndpointKey_From ep =
     (if ss_family ep = AF_INET then \<lparr>ek_addr = ep, ek_len = 16\<rparr>
      else if ss_family ep = AF_INET6 then \<lparr>ek_addr = ep, ek_len = 28\<rparr>
      else \<lparr>ek_addr = AddrNone, ek_len = 0\<rparr>)"

definition EndpointKey_eq :: "EndpointKey \<Rightarrow> EndpointKey \<Rightarrow> bool" where
  "EndpointKey_eq k k' \<longleftrightarrow> ek_len k = ek_len k' \<and> ek_len k > 0 \<and>
     take (ek_len k) (sockaddr_bytes (ek_addr k)) = take (ek_len k) (sockaddr_bytes (ek_addr k'))"

definition EndpointKeyHash :: "EndpointKey \<Rightarrow> u64" where
  "EndpointKeyHash k =
     foldl (\<lambda>hash b. hash * 1315423911 + ucast b) (of_nat (ek_len k)) (take (ek_len k) (sockaddr_bytes (ek_addr k)))"

lemma be16_inject: "hi8 p = hi8 q \<Longrightarrow> lo8 p = lo8 q \<Longrightarrow> p = q"
  by (metis be16_hi8_lo8)

lemma length_le32_bytes [simp]: "length (le32_bytes w) = 4"
  by (simp add: le32_bytes_def)

lemma byte_of_u32_bit:
  fixes v w :: u32
  assumes "(ucast (drop_bit k v) :: byte) = ucast (drop_bit k w)" and "k \<le> n" and "n < k + 8"
  shows "bit v n = bit w n"
proof -
  have "bit (ucast (drop_bit k v) :: byte) (n - k) = bit (ucast (drop_bit k w) :: byte) (n - k)"
    by (simp only: assms(1))
  moreover have "n - k < 8" using assms(2,3) by arith
  ultimately show ?thesis using assms(2) by (simp add: bit_simps)
qed

lemma le32_bytes_inject: "le32_bytes v = le32_bytes w \<longleftrightarrow> v = w"
proof
  assume eq: "le32_bytes v = le32_bytes w"
  show "v = w"
  proof (rule bit_word_eqI)
    fix n assume "n < LENGTH(32)"
    then consider "n < 8" | "8 \<le> n" "n < 16" | "16 \<le> n" "n < 24" | "24 \<le> n" "n < 32"
      by force
    then show "bit v n = bit w n"
      using eq byte_of_u32_bit [of 0 v w n] byte_of_u32_bit [of 8 v w n]
        byte_of_u32_bit [of 16 v w n] byte_of_u32_bit [of 24 v w n]
      by cases (simp_all add: le32_bytes_def)
  qed
qed simp

lemma sockaddr_bytes_inject:
  assumes "addr_wf a" "addr_wf b" "sockaddr_bytes a = sockaddr_bytes b"
  shows "a = b"
  using assms
  by (cases a; cases b) (auto simp: le32_bytes_inject append_eq_append_conv dest: be16_inject)

lemma length_sockaddr_bytes [simp]:
  "addr_wf a \<Longrightarrow> length (sockaddr_bytes a) = ek_len (EndpointKey_From a)"
  by (cases a) (auto simp: EndpointKey_From_def)

lemma EndpointKey_eq_From:
  assumes "addr_wf a" "addr_wf b"
  shows "EndpointKey_eq (EndpointKey_From a) (EndpointKey_From b) \<longleftrightarrow> a = b \<and> a \<noteq> AddrNone"
proof -
  have key: "ek_addr (EndpointKey_From c) = c" for c
    by (cases c) (auto simp: EndpointKey_From_def)
  have "sockaddr_bytes a = sockaddr_bytes b \<longleftrightarrow> a = b"
    using sockaddr_bytes_inject [OF assms] by auto
  moreover have "ek_len (EndpointKey_From a) > 0 \<longleftrightarrow> a \<noteq> AddrNone"
    by (cases a) (auto simp: EndpointKey_From_def)
  ultimately show ?thesis
    using assms by (auto simp: EndpointKey_eq_def key)
qed

section \<open>Availability probes and interface lookup\<close>

definition EqualsIgnoreCase :: "string \<Rightarrow> string \<Rightarrow> bool" where
  "EqualsIgnoreCase a b \<longleftrightarrow>
     length a = length b \<and> list_all2 (\<lambda>x y. tolower_c x = tolower_c y) a b"

definition IN6_IS_ADDR_LINKLOCAL :: "bytes \<Rightarrow> bool" where
  "IN6_IS_ADDR_LINKLOCAL a \<longleftrightarrow> take 1 a = [0xfe] \<and> map (\<lambda>b. b AND 0xc0) (take 1 (drop 1 a)) = [0x80]"

definition IsIPAddressAvailable :: "winsock \<Rightarrow> string \<Rightarrow> bool" where
  "IsIPAddressAvailable ws ip =
     (if IsAnyAddress ip then True
      else case ParseIP ws ip of
        None \<Rightarrow> False
      | Some (storage, family) \<Rightarrow>
          if \<not> socket_ok ws family SOCK_DGRAM then False
          else (case storage of
              AddrIn6 p f a scope \<Rightarrow>
                if IN6_IS_ADDR_LINKLOCAL a \<and> scope = 0 then False
                else bind_ok ws SOCK_DGRAM (set_port 0 storage)
            | _ \<Rightarrow> bind_ok ws SOCK_DGRAM (set_port 0 storage)))"

definition IsIPv6Available :: "winsock \<Rightarrow> string \<Rightarrow> bool" where
  "IsIPv6Available ws ip =
     (case ParseIP ws ip of
        None \<Rightarrow> False
      | Some (storage, family) \<Rightarrow> if family \<noteq> AF_INET6 then False else IsIPAddressAvailable ws ip)"

definition probe_port :: "winsock \<Rightarrow> u16 \<Rightarrow> int \<Rightarrow> bool" where
  "probe_port ws port family =
     (if \<not> socket_ok ws family SOCK_STREAM then False
      else if family = AF_INET then bind_ok ws SOCK_STREAM (AddrIn port (replicate 4 0))
      else bind_ok ws SOCK_STREAM (AddrIn6 port 0 (replicate 16 0) 0))"

definition IsPortAvailable :: "winsock \<Rightarrow> u16 \<Rightarrow> bool" where
  "IsPortAvailable ws port =
     (if \<not> probe_port ws port AF_INET then False
      else if socket_ok ws AF_INET6 SOCK_STREAM then probe_port ws port AF_INET6
      else True)"

definition first_of_family :: "int \<Rightarrow> sockaddr_storage option list \<Rightarrow> sockaddr_storage option" where
  "first_of_family fam us = List.find (\<lambda>sa. ss_family sa = fam) (List.map_filter id us)"

definition adapter_matches :: "string \<Rightarrow> adapter \<Rightarrow> bool" where
  "adapter_matches interfaceName ad \<longleftrightarrow>
     EqualsIgnoreCase (ad_friendly ad) interfaceName \<or>
     EqualsIgnoreCase (ad_description ad) interfaceName \<or>
     EqualsIgnoreCase (case ad_name ad of Some n \<Rightarrow> n | None \<Rightarrow> '''') interfaceName"

fun find_by_name :: "winsock \<Rightarrow> string \<Rightarrow> adapter list \<Rightarrow> string option" where
  "find_by_name ws nm [] = None"
| "find_by_name ws nm (ad # ads) =
     (if \<not> ad_up ad then find_by_name ws nm ads
      else if \<not> adapter_matches nm ad then find_by_name ws nm ads
      else (case first_of_family AF_INET (ad_unicast ad) of
          Some sa \<Rightarrow> Some (IPToString ws sa)
        | None \<Rightarrow> map_option (IPToString ws) (first_of_family AF_INET6 (ad_unicast ad))))"

definition GetIPAddressFromName :: "winsock \<Rightarrow> string \<Rightarrow> string option" where
  "GetIPAddressFromName ws interfaceName =
     (case os_adapters ws of None \<Rightarrow> None | Some ads \<Rightarrow> find_by_name ws interfaceName ads)"

text \<open>\<^verbatim>\<open>ResolveInterfaceName\<close> returns the interface name and whether it is up.\<close>

fun find_by_address :: "winsock \<Rightarrow> bool \<Rightarrow> sockaddr_storage \<Rightarrow> int \<Rightarrow> adapter list \<Rightarrow> (string \<times> bool) option" where
  "find_by_address ws any target fam [] = None"
| "find_by_address ws any target fam (ad # ads) =
     (if \<not> ad_up ad then find_by_address ws any target fam ads
      else if ad_loopback ad then find_by_address ws any target fam ads
      else if any then Some (ad_friendly ad, True)
      else if list_ex (\<lambda>sa. ss_family sa = fam \<and> IPToString ws sa = IPToString ws target)
                (List.map_filter id (ad_unicast ad))
        then Some (ad_friendly ad, ad_up ad)
      else find_by_address ws any target fam ads)"

definition ResolveInterfaceName :: "winsock \<Rightarrow> string \<Rightarrow> (string \<times> bool) option" where
  "ResolveInterfaceName ws address =
     (case os_adapters ws of
        None \<Rightarrow> None
      | Some ads \<Rightarrow>
          if IsAnyAddress address then find_by_address ws True AddrNone 0 ads
          else (case ParseIP ws address of
              None \<Rightarrow> None
            | Some (target, fam) \<Rightarrow> find_by_address ws False target fam ads))"

lemma EqualsIgnoreCase_iff: "EqualsIgnoreCase a b \<longleftrightarrow> map tolower_c a = map tolower_c b"
  by (auto simp: EqualsIgnoreCase_def list_all2_conv_all_nth list_eq_iff_nth_eq)

lemma find_by_address_up: "find_by_address ws any target fam ads = Some (nm, up) \<Longrightarrow>
    up \<and> (\<exists>ad \<in> set ads. ad_up ad \<and> \<not> ad_loopback ad \<and> ad_friendly ad = nm)"
  by (induction ads) (auto split: if_splits)

lemma first_of_family_mem:
  "first_of_family fam us = Some sa \<Longrightarrow> Some sa \<in> set us \<and> ss_family sa = fam"
  by (force simp: first_of_family_def find_Some_iff map_filter_def dest: nth_mem)

lemma find_by_name_sound: "find_by_name ws nm ads = Some ip \<Longrightarrow>
    \<exists>ad \<in> set ads. \<exists>sa. ad_up ad \<and> adapter_matches nm ad \<and> Some sa \<in> set (ad_unicast ad) \<and> ip = IPToString ws sa"
  by (induction ads) (auto split: if_splits option.splits dest: first_of_family_mem)

section \<open>A concrete pair of conversions\<close>

text \<open>Hexadecimal text with a family letter: the hypothesis \<open>inet_ok\<close> can be met.\<close>

definition nibble_chr :: "nat \<Rightarrow> char" where
  "nibble_chr n = char_of (97 + n)"

fun hex_of_bytes :: "bytes \<Rightarrow> string" where
  "hex_of_bytes [] = []"
| "hex_of_bytes (b # bs) = nibble_chr (unat b div 16) # nibble_chr (unat b mod 16) # hex_of_bytes bs"

fun bytes_of_hex :: "string \<Rightarrow> bytes" where
  "bytes_of_hex (c # d # cs) = word_of_nat (16 * (of_char c - 97) + (of_char d - 97)) # bytes_of_hex cs"
| "bytes_of_hex _ = []"

fun hex_pton :: "char \<Rightarrow> nat \<Rightarrow> string \<Rightarrow> bytes option" where
  "hex_pton k n [] = None"
| "hex_pton k n (c # cs) = (if c = k \<and> length cs = 2 * n then Some (bytes_of_hex cs) else None)"

definition sample_ws :: winsock where
  "sample_ws = \<lparr>inet_pton4 = hex_pton CHR ''4'' 4, inet_pton6 = hex_pton CHR ''6'' 16,
     inet_ntop4 = (\<lambda>a. CHR ''4'' # hex_of_bytes a), inet_ntop6 = (\<lambda>a. CHR ''6'' # hex_of_bytes a),
     socket_ok = (\<lambda>f t. True), bind_ok = (\<lambda>t a. True), os_adapters = Some []\<rparr>"

lemma of_char_nibble [simp]: "n < 16 \<Longrightarrow> of_char (nibble_chr n) = 97 + n"
  by (simp add: nibble_chr_def of_char_of)

lemma bytes_of_hex_of_bytes [simp]: "bytes_of_hex (hex_of_bytes bs) = bs"
proof (induction bs)
  case (Cons b bs)
  have "unat b div 16 < 16" using unat_byte_less [of b] by linarith
  with Cons show ?case by (simp add: word_unat_eq_iff)
qed simp

lemma length_hex_of_bytes [simp]: "length (hex_of_bytes bs) = 2 * length bs"
  by (induction bs) auto

lemma length_bytes_of_hex: "length cs = 2 * n \<Longrightarrow> length (bytes_of_hex cs) = n"
  by (induction cs arbitrary: n rule: bytes_of_hex.induct) (simp_all, presburger+)

lemma nul_not_hex: "CHR 0x00 \<notin> set (hex_of_bytes bs)"
proof (induction bs)
  case (Cons b bs)
  have "of_char (nibble_chr n) \<noteq> (of_char CHR 0x00 :: nat)" if "n < 16" for n
    using that by simp
  then have "n < 16 \<Longrightarrow> nibble_chr n \<noteq> CHR 0x00" for n by metis
  moreover have "unat b div 16 < 16" "unat b mod 16 < 16" using unat_byte_less [of b] by linarith+
  ultimately show ?case using Cons by (metis hex_of_bytes.simps(2) set_ConsD)
qed simp

lemma sample_ws_ok: "inet_ok sample_ws"
proof -
  have len: "hex_pton k n s = Some a \<Longrightarrow> length a = n" for k n s a
    by (cases s) (auto simp: length_bytes_of_hex split: if_splits)
  have "hex_pton CHR ''4'' 4 s = Some a \<Longrightarrow> length a = 4" "hex_pton CHR ''6'' 16 s = Some a \<Longrightarrow> length a = 16" for s a
    by (erule len)+
  then show ?thesis unfolding inet_ok_def sample_ws_def by (simp add: nul_not_hex)
qed

end
