(* ===== verification/NetworkConfiguration.thy ===== *)
theory NetworkConfiguration
  imports NetworkUtils
begin

text \<open>
  The process-wide configuration of \<^verbatim>\<open>config/NetworkConfiguration.cpp\<close>: its static fields as
  the record \<open>netcfg\<close>, its setters as functions that return the success flag, the error
  text and the new configuration, and the address builders.  Also \<^verbatim>\<open>NetworkUtils::CheckDns\<close>,
  which temporarily changes the configuration.  The invariant \<open>netcfg_ok\<close> says that every
  option is in its documented range; the lemmas show that each setter keeps it, on the failing
  branches too.  C++ \<^verbatim>\<open>int\<close> values are \<open>int\<close>; no arithmetic is done on them here.
\<close>

record netcfg =
  ListenIPAddress :: string
  ListenPort :: u16
  OutputIPv6Available :: bool
  OutputInterfaceIP :: string
  OutputAddressFamily :: int
  DnsServer :: string
  MaxConnections :: int
  Username :: string
  Password :: string
  EnableGssapi :: bool
  GssapiMaxProtection :: int
  IdleTimeoutMs :: int
  ConnectTimeoutMs :: int
  SendTimeoutMs :: int
  ReceiveTimeoutMs :: int
  DnsSendTimeoutMs :: int
  DnsReceiveTimeoutMs :: int
  UdpAssociateIdleTimeoutMs :: int
  SendBufferSize :: int
  ReceiveBufferSize :: int
  NoDelay :: bool
  KeepAlive :: bool
  LingerEnabled :: bool
  LingerTimeoutSec :: int
  TcpKeepAliveTime :: int
  TcpKeepAliveInterval :: int
  TcpKeepAliveRetryCount :: int
  BufferSize :: int

definition default_netcfg :: netcfg where
  "default_netcfg =
    \<lparr>ListenIPAddress = ''127.0.0.1'', ListenPort = 1080, OutputIPv6Available = False,
     OutputInterfaceIP = ''0.0.0.0'', OutputAddressFamily = AF_INET, DnsServer = ''8.8.8.8'',
     MaxConnections = 1000, Username = '''', Password = '''', EnableGssapi = False,
     GssapiMaxProtection = 1, IdleTimeoutMs = 60000, ConnectTimeoutMs = 30000,
     SendTimeoutMs = 30000, ReceiveTimeoutMs = 30000, DnsSendTimeoutMs = 5000,
     DnsReceiveTimeoutMs = 5000, UdpAssociateIdleTimeoutMs = 120000,
     SendBufferSize = 256 * 1024, ReceiveBufferSize = 256 * 1024, NoDelay = True,
     KeepAlive = True, LingerEnabled = False, LingerTimeoutSec = 0, TcpKeepAliveTime = 60,
     TcpKeepAliveInterval = 10, TcpKeepAliveRetryCount = 5, BufferSize = 80 * 1024\<rparr>"

type_synonym setter_result = "bool \<times> string \<times> netcfg"


section \<open>Addresses and ports\<close>

definition SetServerInterfaceIP :: "winsock \<Rightarrow> string \<Rightarrow> int \<Rightarrow> netcfg \<Rightarrow> setter_result" where
  "SetServerInterfaceIP ws ip port c =
     (if ip = [] then (False, ''The IP address cannot be null or empty.'', c)
      else if ParseIP ws ip = None then (False, [CHR 0x27] @ ip @ [CHR 0x27] @ '' is not a valid IP address.'', c)
      else if \<not> IsIPAddressAvailable ws ip
        then (False, ''The IP address '' @ ip @ '' is not available for binding.'', c)
      else if port < 0 \<or> port > 65535 then (False, ''The port must be in the range 0-65535.'', c)
      else if \<not> IsPortAvailable ws (word_of_int port)
        then (False, ''The port '' @ to_string (nat port) @ '' is already in use.'', c)
      else (True, '''', c\<lparr>ListenIPAddress := ip, ListenPort := word_of_int port\<rparr>))"

definition SetOutputInterfaceIP :: "winsock \<Rightarrow> string \<Rightarrow> netcfg \<Rightarrow> setter_result" where
  "SetOutputInterfaceIP ws ip c =
     (if ip = [] then (False, ''The interface IP cannot be null or empty.'', c)
      else case ParseIP ws ip of
        None \<Rightarrow> (False, [CHR 0x27] @ ip @ [CHR 0x27] @ '' is not a valid IP address.'', c)
      | Some (storage, family) \<Rightarrow>
          if \<not> IsIPAddressAvailable ws ip
            then (False, ''The IP address '' @ ip @ '' is not available for binding.'', c)
          else (True, '''', c\<lparr>OutputInterfaceIP := ip, OutputAddressFamily := family,
                  OutputIPv6Available := (family = AF_INET6 \<and> IsIPv6Available ws ip)\<rparr>))"

definition SetOutputInterfaceName :: "winsock \<Rightarrow> string \<Rightarrow> netcfg \<Rightarrow> setter_result" where
  "SetOutputInterfaceName ws interfaceName c =
     (if interfaceName = [] then (False, ''The network interface name cannot be null or empty.'', c)
      else case GetIPAddressFromName ws interfaceName of
        None \<Rightarrow> (False, ''The interface '' @ [CHR 0x27] @ interfaceName @ [CHR 0x27] @
                  '' is not valid or not found.'', c)
      | Some address \<Rightarrow> SetOutputInterfaceIP ws address c)"

section \<open>The reachability probe of a DNS server\<close>

text \<open>
  \<^verbatim>\<open>CheckDns\<close> starts a private completion port and resolver, so its outcome is the
  environment's: whether they start, and what each attempt answers within the wait budget
  (\<open>None\<close>: no answer in time).  What the code itself decides is the number of attempts and the
  restoration of \<^verbatim>\<open>DnsReceiveTimeoutMs\<close>.
\<close>

record dns_probe =
  iocp_starts :: bool
  resolver_starts :: "netcfg \<Rightarrow> bool"
  attempt_answer :: "netcfg \<Rightarrow> nat \<Rightarrow> bool option"

fun check_attempts :: "dns_probe \<Rightarrow> netcfg \<Rightarrow> nat \<Rightarrow> nat \<Rightarrow> bool" where
  "check_attempts pr c attempt 0 = False"
| "check_attempts pr c attempt (Suc left) =
     (if attempt_answer pr c attempt = Some True then True
      else check_attempts pr c (Suc attempt) left)"

definition CheckDns :: "winsock \<Rightarrow> dns_probe \<Rightarrow> string \<Rightarrow> int \<Rightarrow> int \<Rightarrow> netcfg \<Rightarrow> bool \<times> netcfg" where
  "CheckDns ws pr dnsServer timeoutMs retries c =
     (if ParseIP ws dnsServer = None then (False, c)
      else
        let prevTimeout = DnsReceiveTimeoutMs c;
            c1 = (if timeoutMs > 0 then c\<lparr>DnsReceiveTimeoutMs := timeoutMs\<rparr> else c)
        in if \<not> iocp_starts pr then (False, c1\<lparr>DnsReceiveTimeoutMs := prevTimeout\<rparr>)
           else if \<not> resolver_starts pr c1 then (False, c1\<lparr>DnsReceiveTimeoutMs := prevTimeout\<rparr>)
           else (check_attempts pr c1 1 (nat retries), c1\<lparr>DnsReceiveTimeoutMs := prevTimeout\<rparr>))"

definition SetDnsIP :: "winsock \<Rightarrow> dns_probe \<Rightarrow> string \<Rightarrow> netcfg \<Rightarrow> setter_result" where
  "SetDnsIP ws pr ip c =
     (if ip = [] then (False, ''The DNS server address cannot be null or empty.'', c)
      else if ParseIP ws ip = None
        then (False, [CHR 0x27] @ ip @ [CHR 0x27] @ '' is not a valid IP address.'', c)
      else let (ok, c1) = CheckDns ws pr ip 5000 2 c
           in if \<not> ok then (False, ''The DNS server '' @ [CHR 0x27] @ ip @ [CHR 0x27] @
                        '' is unreachable or not responding.'', c1)
              else (True, '''', c1\<lparr>DnsServer := ip\<rparr>))"


section \<open>Limits, credentials and socket options\<close>

definition SetMaxConnections :: "int \<Rightarrow> netcfg \<Rightarrow> setter_result" where
  "SetMaxConnections connections c =
     (if connections < 0 \<or> connections > 1048576
      then (False, ''The number of connections must be in the range 0-1048576.'', c)
      else (True, '''', c\<lparr>MaxConnections := connections\<rparr>))"

definition SetUsernamePassword :: "string \<Rightarrow> string \<Rightarrow> netcfg \<Rightarrow> setter_result" where
  "SetUsernamePassword username password c =
     (if username = [] \<or> password = [] then (False, ''Username and password cannot be empty.'', c)
      else if length username > 255 \<or> length password > 255
        then (False, ''Username/password exceeds maximum allowed length of 255 bytes.'', c)
      else (True, '''', c\<lparr>Username := username, Password := password\<rparr>))"

definition HasCredentials :: "netcfg \<Rightarrow> bool" where
  "HasCredentials c \<longleftrightarrow> Username c \<noteq> [] \<and> Password c \<noteq> []"

record socket_options =
  so_idleTimeoutMs :: int
  so_connectTimeoutMs :: int
  so_sendTimeoutMs :: int
  so_receiveTimeoutMs :: int
  so_dnsSendTimeoutMs :: int
  so_dnsReceiveTimeoutMs :: int
  so_udpAssociateIdleTimeoutMs :: int
  so_sendBufferSize :: int
  so_receiveBufferSize :: int
  so_bufferSize :: int
  so_noDelay :: int
  so_keepAlive :: int
  so_lingerEnabled :: int
  so_lingerTimeoutSec :: int
  so_tcpKeepAliveTime :: int
  so_tcpKeepAliveInterval :: int
  so_tcpKeepAliveRetryCount :: int

definition requireNonNeg :: "int \<Rightarrow> string \<Rightarrow> string option" where
  "requireNonNeg v nm = (if v < 0 then Some (nm @ '' must be >= 0.'') else None)"

definition requirePos :: "int \<Rightarrow> string \<Rightarrow> string option" where
  "requirePos v nm = (if v \<le> 0 then Some (nm @ '' must be > 0.'') else None)"

definition requireMax :: "int \<Rightarrow> int \<Rightarrow> string \<Rightarrow> string option" where
  "requireMax v maximum nm = (if v > maximum then Some (nm @ '' exceeds the supported maximum.'') else None)"

text \<open>
  One \<^verbatim>\<open>if (v >= 0) \<dots>\<close> block: a negative value leaves the option alone, otherwise the lower
  bound check \<open>low\<close> and the upper bound are tried in order and the option is stored.
\<close>

definition option_step ::
  "(int \<Rightarrow> string \<Rightarrow> string option) \<Rightarrow> int \<Rightarrow> string \<Rightarrow> (int \<Rightarrow> netcfg \<Rightarrow> netcfg) \<Rightarrow> int \<Rightarrow> netcfg \<Rightarrow> string option \<times> netcfg" where
  "option_step low maximum nm store v c =
     (if v \<ge> 0 then
        (case low v nm of
           Some e \<Rightarrow> (Some e, c)
         | None \<Rightarrow> (case requireMax v maximum nm of Some e \<Rightarrow> (Some e, c) | None \<Rightarrow> (None, store v c)))
      else (None, c))"

definition flag_step :: "(bool \<Rightarrow> netcfg \<Rightarrow> netcfg) \<Rightarrow> int \<Rightarrow> netcfg \<Rightarrow> string option \<times> netcfg" where
  "flag_step store v c = (None, if v \<ge> 0 then store (v \<noteq> 0) c else c)"

fun run_steps :: "(netcfg \<Rightarrow> string option \<times> netcfg) list \<Rightarrow> netcfg \<Rightarrow> setter_result" where
  "run_steps [] c = (True, '''', c)"
| "run_steps (st # sts) c =
     (case st c of (Some e, c') \<Rightarrow> (False, e, c') | (None, c') \<Rightarrow> run_steps sts c')"

definition socket_option_steps :: "socket_options \<Rightarrow> (netcfg \<Rightarrow> string option \<times> netcfg) list" where
  "socket_option_steps so =
     [option_step requireNonNeg 86400000 ''IdleTimeoutMs'' (\<lambda>v c. c\<lparr>IdleTimeoutMs := v\<rparr>) (so_idleTimeoutMs so),
      option_step requirePos 86400000 ''ConnectTimeoutMs'' (\<lambda>v c. c\<lparr>ConnectTimeoutMs := v\<rparr>) (so_connectTimeoutMs so),
      option_step requireNonNeg 86400000 ''SendTimeoutMs'' (\<lambda>v c. c\<lparr>SendTimeoutMs := v\<rparr>) (so_sendTimeoutMs so),
      option_step requireNonNeg 86400000 ''ReceiveTimeoutMs'' (\<lambda>v c. c\<lparr>ReceiveTimeoutMs := v\<rparr>) (so_receiveTimeoutMs so),
      option_step requirePos 86400000 ''DnsSendTimeoutMs'' (\<lambda>v c. c\<lparr>DnsSendTimeoutMs := v\<rparr>) (so_dnsSendTimeoutMs so),
      option_step requirePos 86400000 ''DnsReceiveTimeoutMs'' (\<lambda>v c. c\<lparr>DnsReceiveTimeoutMs := v\<rparr>) (so_dnsReceiveTimeoutMs so),
      option_step requirePos 86400000 ''UdpAssociateIdleTimeoutMs'' (\<lambda>v c. c\<lparr>UdpAssociateIdleTimeoutMs := v\<rparr>) (so_udpAssociateIdleTimeoutMs so),
      option_step requirePos (16 * 1024 * 1024) ''SendBufferSize'' (\<lambda>v c. c\<lparr>SendBufferSize := v\<rparr>) (so_sendBufferSize so),
      option_step requirePos (16 * 1024 * 1024) ''ReceiveBufferSize'' (\<lambda>v c. c\<lparr>ReceiveBufferSize := v\<rparr>) (so_receiveBufferSize so),
      option_step requirePos (16 * 1024 * 1024) ''BufferSize'' (\<lambda>v c. c\<lparr>BufferSize := v\<rparr>) (so_bufferSize so),
      flag_step (\<lambda>b c. c\<lparr>NoDelay := b\<rparr>) (so_noDelay so),
      flag_step (\<lambda>b c. c\<lparr>KeepAlive := b\<rparr>) (so_keepAlive so),
      flag_step (\<lambda>b c. c\<lparr>LingerEnabled := b\<rparr>) (so_lingerEnabled so),
      option_step requireNonNeg 65535 ''LingerTimeoutSec'' (\<lambda>v c. c\<lparr>LingerTimeoutSec := v\<rparr>) (so_lingerTimeoutSec so),
      option_step requirePos 4294967 ''TcpKeepAliveTime'' (\<lambda>v c. c\<lparr>TcpKeepAliveTime := v\<rparr>) (so_tcpKeepAliveTime so),
      option_step requirePos 4294967 ''TcpKeepAliveInterval'' (\<lambda>v c. c\<lparr>TcpKeepAliveInterval := v\<rparr>) (so_tcpKeepAliveInterval so),
      option_step requirePos 255 ''TcpKeepAliveRetryCount'' (\<lambda>v c. c\<lparr>TcpKeepAliveRetryCount := v\<rparr>) (so_tcpKeepAliveRetryCount so)]"

definition SetSocketOptions :: "socket_options \<Rightarrow> netcfg \<Rightarrow> setter_result" where
  "SetSocketOptions so = run_steps (socket_option_steps so)"


section \<open>Address builders\<close>

definition FillListenAddress :: "winsock \<Rightarrow> netcfg \<Rightarrow> sockaddr_storage option" where
  "FillListenAddress ws c =
     (case ParseIP ws (ListenIPAddress c) of
        None \<Rightarrow> None
      | Some (storage, family) \<Rightarrow> Some (set_port (ListenPort c) storage))"

definition FillOutputBindAddress :: "winsock \<Rightarrow> u16 \<Rightarrow> netcfg \<Rightarrow> sockaddr_storage option" where
  "FillOutputBindAddress ws port c =
     (case ParseIP ws (OutputInterfaceIP c) of
        None \<Rightarrow> None
      | Some (storage, family) \<Rightarrow> Some (set_port port storage))"

definition FillDnsEndpoint :: "winsock \<Rightarrow> netcfg \<Rightarrow> sockaddr_storage option" where
  "FillDnsEndpoint ws c =
     (case ParseIP ws (DnsServer c) of
        None \<Rightarrow> None
      | Some (storage, family) \<Rightarrow> Some (set_port 53 storage))"


section \<open>Every option stays in its range\<close>

definition netcfg_ok :: "netcfg \<Rightarrow> bool" where
  "netcfg_ok c \<longleftrightarrow>
     0 \<le> MaxConnections c \<and> MaxConnections c \<le> 1048576 \<and>
     length (Username c) \<le> 255 \<and> length (Password c) \<le> 255 \<and>
     1 \<le> GssapiMaxProtection c \<and> GssapiMaxProtection c \<le> 3 \<and>
     0 \<le> IdleTimeoutMs c \<and> IdleTimeoutMs c \<le> 86400000 \<and>
     0 < ConnectTimeoutMs c \<and> ConnectTimeoutMs c \<le> 86400000 \<and>
     0 \<le> SendTimeoutMs c \<and> SendTimeoutMs c \<le> 86400000 \<and>
     0 \<le> ReceiveTimeoutMs c \<and> ReceiveTimeoutMs c \<le> 86400000 \<and>
     0 < DnsSendTimeoutMs c \<and> DnsSendTimeoutMs c \<le> 86400000 \<and>
     0 < DnsReceiveTimeoutMs c \<and> DnsReceiveTimeoutMs c \<le> 86400000 \<and>
     0 < UdpAssociateIdleTimeoutMs c \<and> UdpAssociateIdleTimeoutMs c \<le> 86400000 \<and>
     0 < SendBufferSize c \<and> SendBufferSize c \<le> 16777216 \<and>
     0 < ReceiveBufferSize c \<and> ReceiveBufferSize c \<le> 16777216 \<and>
     0 < BufferSize c \<and> BufferSize c \<le> 16777216 \<and>
     0 \<le> LingerTimeoutSec c \<and> LingerTimeoutSec c \<le> 65535 \<and>
     0 < TcpKeepAliveTime c \<and> TcpKeepAliveTime c \<le> 4294967 \<and>
     0 < TcpKeepAliveInterval c \<and> TcpKeepAliveInterval c \<le> 4294967 \<and>
     0 < TcpKeepAliveRetryCount c \<and> TcpKeepAliveRetryCount c \<le> 255"

named_theorems cfg_keeps "setters that keep the configuration invariant"

lemma default_netcfg_ok [simp]: "netcfg_ok default_netcfg"
  by (simp add: netcfg_ok_def default_netcfg_def)

text \<open>Fields the invariant does not constrain, and fields it constrains one by one.\<close>

lemma netcfg_ok_frame [simp]:
  "netcfg_ok (c\<lparr>ListenIPAddress := a\<rparr>) = netcfg_ok c"
  "netcfg_ok (c\<lparr>ListenPort := p\<rparr>) = netcfg_ok c"
  "netcfg_ok (c\<lparr>OutputIPv6Available := b\<rparr>) = netcfg_ok c"
  "netcfg_ok (c\<lparr>OutputInterfaceIP := a\<rparr>) = netcfg_ok c"
  "netcfg_ok (c\<lparr>OutputAddressFamily := f\<rparr>) = netcfg_ok c"
  "netcfg_ok (c\<lparr>DnsServer := a\<rparr>) = netcfg_ok c"
  "netcfg_ok (c\<lparr>EnableGssapi := b\<rparr>) = netcfg_ok c"
  "netcfg_ok (c\<lparr>NoDelay := b\<rparr>) = netcfg_ok c"
  "netcfg_ok (c\<lparr>KeepAlive := b\<rparr>) = netcfg_ok c"
  "netcfg_ok (c\<lparr>LingerEnabled := b\<rparr>) = netcfg_ok c"
  by (simp_all add: netcfg_ok_def)

lemma netcfg_ok_MaxConnections:
  "netcfg_ok c \<Longrightarrow> 0 \<le> n \<Longrightarrow> n \<le> 1048576 \<Longrightarrow> netcfg_ok (c\<lparr>MaxConnections := n\<rparr>)"
  by (simp add: netcfg_ok_def)

lemma netcfg_ok_credentials:
  "netcfg_ok c \<Longrightarrow> length u \<le> 255 \<Longrightarrow> length p \<le> 255 \<Longrightarrow> netcfg_ok (c\<lparr>Username := u, Password := p\<rparr>)"
  by (simp add: netcfg_ok_def)

lemma netcfg_ok_GssapiMaxProtection:
  "netcfg_ok c \<Longrightarrow> 1 \<le> n \<Longrightarrow> n \<le> 3 \<Longrightarrow> netcfg_ok (c\<lparr>GssapiMaxProtection := n\<rparr>)"
  by (simp add: netcfg_ok_def)

lemma SetServerInterfaceIP_ok [cfg_keeps]:
  "netcfg_ok c \<Longrightarrow> SetServerInterfaceIP ws ip port c = (r, e, c') \<Longrightarrow> netcfg_ok c'"
  by (auto simp: SetServerInterfaceIP_def split: if_splits)

lemma SetOutputInterfaceIP_ok [cfg_keeps]:
  "netcfg_ok c \<Longrightarrow> SetOutputInterfaceIP ws ip c = (r, e, c') \<Longrightarrow> netcfg_ok c'"
  by (auto simp: SetOutputInterfaceIP_def split: if_splits option.splits)

lemma SetOutputInterfaceName_ok [cfg_keeps]:
  "netcfg_ok c \<Longrightarrow> SetOutputInterfaceName ws nm c = (r, e, c') \<Longrightarrow> netcfg_ok c'"
  by (auto simp: SetOutputInterfaceName_def split: if_splits option.splits intro: SetOutputInterfaceIP_ok)

lemma CheckDns_restores: "snd (CheckDns ws pr ip timeoutMs retries c) = c"
  by (simp add: CheckDns_def Let_def)

lemma SetDnsIP_ok [cfg_keeps]:
  "netcfg_ok c \<Longrightarrow> SetDnsIP ws pr ip c = (r, e, c') \<Longrightarrow> netcfg_ok c'"
  using CheckDns_restores [of ws pr ip 5000 2 c]
  by (auto simp: SetDnsIP_def split: if_splits prod.splits)

lemma SetMaxConnections_ok [cfg_keeps]:
  "netcfg_ok c \<Longrightarrow> SetMaxConnections n c = (r, e, c') \<Longrightarrow> netcfg_ok c'"
  by (auto simp: SetMaxConnections_def netcfg_ok_MaxConnections split: if_splits)

lemma SetUsernamePassword_ok [cfg_keeps]:
  "netcfg_ok c \<Longrightarrow> SetUsernamePassword u p c = (r, e, c') \<Longrightarrow> netcfg_ok c'"
  by (auto simp: SetUsernamePassword_def netcfg_ok_credentials split: if_splits)

definition step_keeps :: "(netcfg \<Rightarrow> string option \<times> netcfg) \<Rightarrow> bool" where
  "step_keeps st \<longleftrightarrow> (\<forall>d. netcfg_ok d \<longrightarrow> netcfg_ok (snd (st d)))"

lemma step_keeps_option:
  assumes "\<And>v d. netcfg_ok d \<Longrightarrow> low v nm = None \<Longrightarrow> 0 \<le> v \<Longrightarrow> v \<le> maximum \<Longrightarrow> netcfg_ok (store v d)"
  shows "step_keeps (option_step low maximum nm store v)"
  using assms by (auto simp: step_keeps_def option_step_def requireMax_def split: option.splits)

lemma step_keeps_flag:
  assumes "\<And>b d. netcfg_ok d \<Longrightarrow> netcfg_ok (store b d)"
  shows "step_keeps (flag_step store v)"
  using assms by (auto simp: step_keeps_def flag_step_def)

lemma run_steps_keeps:
  assumes "list_all step_keeps sts" and "netcfg_ok c" and "run_steps sts c = (r, e, c')"
  shows "netcfg_ok c'"
  using assms
proof (induction sts arbitrary: c)
  case (Cons st sts)
  obtain o' d where st: "st c = (o', d)" by (cases "st c")
  with Cons.prems have "netcfg_ok d" by (auto simp: step_keeps_def dest!: spec [of _ c])
  with Cons st show ?case by (auto split: option.splits)
qed simp

lemma socket_option_steps_keep: "list_all step_keeps (socket_option_steps so)"
  unfolding socket_option_steps_def list.pred_inject
  by (intro conjI TrueI step_keeps_option step_keeps_flag)
    (simp_all only: netcfg_ok_def requireNonNeg_def requirePos_def netcfg_ok_frame, simp_all split: if_splits)

lemma SetSocketOptions_ok [cfg_keeps]:
  assumes "netcfg_ok c" and "SetSocketOptions so c = (r, e, c')"
  shows "netcfg_ok c'"
  using run_steps_keeps [OF socket_option_steps_keep] assms by (simp add: SetSocketOptions_def)

end
