(* ===== verification/DnsClient.thy ===== *)
theory DnsClient
  imports NetworkUtils
begin

text \<open>
  The DNS wire format and response cache of \<^verbatim>\<open>dns/DnsClient.cpp\<close>.

  A response buffer is a \<open>byte list\<close>; every read of it goes through \<open>rd8\<close>, \<open>ReadU16\<close>,
  \<open>ReadU32\<close> or \<open>rd_block\<close>, which return the error \<open>OutOfBounds\<close> where the C++ pointer
  would leave the buffer.  \<open>RuntimeError\<close> is a thrown \<^verbatim>\<open>std::runtime_error\<close>, caught by
  \<^verbatim>\<open>ParseResponse\<close>; \<open>OutOfBounds\<close> is caught by nobody, so memory safety is the theorem that
  it never comes out.  \<^verbatim>\<open>NowMs()\<close> is the argument \<open>now\<close> and the iteration order of the hash
  map that eviction follows is the argument \<open>ord\<close>.
\<close>

datatype dns_exn = RuntimeError string | OutOfBounds

abbreviation ebind :: "'e + 'a \<Rightarrow> ('a \<Rightarrow> 'e + 'b) \<Rightarrow> 'e + 'b" where
  "ebind m f \<equiv> (case m of Inl e \<Rightarrow> Inl e | Inr x \<Rightarrow> f x)"

record DnsResult =
  dr_address :: "string option"
  dr_ttl :: int
  dr_truncated :: bool
  dr_fromNetwork :: bool

definition DnsResult_Invalid :: DnsResult where
  "DnsResult_Invalid = \<lparr>dr_address = None, dr_ttl = 30, dr_truncated = False, dr_fromNetwork = False\<rparr>"

abbreviation INT_MAX :: int where "INT_MAX \<equiv> 2147483647"


section \<open>Reading and writing the wire format\<close>

definition rd8 :: "bytes \<Rightarrow> nat \<Rightarrow> dns_exn + byte" where
  "rd8 buf p = (if p < length buf then Inr (buf ! p) else Inl OutOfBounds)"

definition ReadU16 :: "bytes \<Rightarrow> nat \<Rightarrow> dns_exn + u16" where
  "ReadU16 buf p = (if p + 1 < length buf then Inr (be16 (buf ! p) (buf ! (p + 1))) else Inl OutOfBounds)"

definition ReadU32 :: "bytes \<Rightarrow> nat \<Rightarrow> dns_exn + u32" where
  "ReadU32 buf p =
     (if p + 3 < length buf
      then Inr (be32 (buf ! p) (buf ! (p + 1)) (buf ! (p + 2)) (buf ! (p + 3)))
      else Inl OutOfBounds)"

definition rd_block :: "bytes \<Rightarrow> nat \<Rightarrow> nat \<Rightarrow> dns_exn + bytes" where
  "rd_block buf p n = (if p + n \<le> length buf then Inr (take n (drop p buf)) else Inl OutOfBounds)"

definition WriteU16 :: "bytes \<Rightarrow> u16 \<Rightarrow> bytes" where
  "WriteU16 out value = out @ [hi8 value, lo8 value]"

definition ToLower :: "string \<Rightarrow> string" where
  "ToLower s = map tolower_c s"

text \<open>The segments \<^verbatim>\<open>std::getline(ss, label, '.')\<close> yields.\<close>

function getlines :: "string \<Rightarrow> string list" where
  "getlines s =
     (if s = [] then []
      else takeWhile (\<lambda>c. c \<noteq> CHR ''.'') s # getlines (tl (dropWhile (\<lambda>c. c \<noteq> CHR ''.'') s)))"

  by pat_completeness auto
termination
proof (relation "measure length", goal_cases)
  case (2 s)
  then have "length (dropWhile (\<lambda>c. c \<noteq> CHR ''.'') s) \<le> length s" "0 < length s"
    by (simp_all add: length_dropWhile_le)
  then have "length (dropWhile (\<lambda>c. c \<noteq> CHR ''.'') s) - 1 < length s" by linarith
  then show ?case by simp
qed simp

declare getlines.simps [simp del]

fun write_labels :: "string list \<Rightarrow> bytes \<Rightarrow> string + bytes" where
  "write_labels [] out = Inr out"
| "write_labels (label # ls) out =
     (if label = [] \<or> length label > 63 then Inl ''Invalid domain label''
      else write_labels ls (out @ [word_of_nat (length label)] @ bytes_of_string label))"

definition BuildQuery :: "string \<Rightarrow> u16 \<Rightarrow> u16 \<Rightarrow> string + bytes" where
  "BuildQuery domain txid type =
     (if domain = [] \<or> length domain > 253 then Inl ''Invalid domain length''
      else
        let out0 = WriteU16 (WriteU16 (WriteU16 (WriteU16 (WriteU16 (WriteU16 [] txid) 0x0100) 1) 0) 0) 1
        in (case write_labels (getlines domain) out0 of
            Inl e \<Rightarrow> Inl e
          | Inr out1 \<Rightarrow>
              let out2 = out1 @ [0]
              in if length out2 - 12 > 255 then Inl ''Encoded domain name is too long''
                 else
                   let out3 = WriteU16 (WriteU16 out2 type) 1;
                       out4 = WriteU16 (WriteU16 (out3 @ [0]) 41) 4096 @ [0] @ [0]
                   in Inr (WriteU16 (WriteU16 out4 0) 0)))"

function SkipName_loop :: "bytes \<Rightarrow> nat \<Rightarrow> nat \<Rightarrow> dns_exn + nat" where
  "SkipName_loop buf pos jumps =
     (if pos \<ge> length buf then Inl (RuntimeError ''Invalid DNS name'')
      else ebind (rd8 buf pos) (\<lambda>len.
        if len = 0 then Inr (pos + 1)
        else if len AND 0xC0 = 0xC0 then
          (if pos + 1 \<ge> length buf then Inl (RuntimeError ''Invalid DNS compression'')
           else ebind (rd8 buf (pos + 1)) (\<lambda>low.
             let pointer = push_bit 8 (unat (len AND 0x3F)) OR unat low
             in if pointer \<ge> length buf then Inl (RuntimeError ''Invalid DNS compression offset'')
                else if jumps + 1 > 20 then Inl (RuntimeError ''Compression loop'')
                else Inr (pos + 2)))
        else if pos + unat len + 1 > length buf then Inl (RuntimeError ''Invalid DNS name length'')
        else SkipName_loop buf (pos + unat len + 1) jumps))"
  by pat_completeness auto
termination
  by (relation "measure (\<lambda>(buf, pos, jumps). length buf - pos)") auto

declare SkipName_loop.simps [simp del]

definition SkipName :: "bytes \<Rightarrow> nat \<Rightarrow> dns_exn + nat" where
  "SkipName buf pos = SkipName_loop buf pos 0"


section \<open>Parsing a response\<close>

text \<open>The question loop: \<open>None\<close> is the early return where \<^verbatim>\<open>pos\<close> passes the end.\<close>

fun skip_questions :: "bytes \<Rightarrow> nat \<Rightarrow> nat \<Rightarrow> dns_exn + nat option" where
  "skip_questions buf 0 pos = Inr (Some pos)"
| "skip_questions buf (Suc n) pos =
     ebind (SkipName buf pos) (\<lambda>p.
       if p + 4 > length buf then Inr None else skip_questions buf n (p + 4))"

definition ttl_seconds :: "u32 \<Rightarrow> int" where
  "ttl_seconds ttl = (if uint ttl > INT_MAX then INT_MAX else uint ttl)"

definition ttl_or_default :: "int \<Rightarrow> int" where
  "ttl_or_default minTtl = (if minTtl = INT_MAX then 30 else minTtl)"

fun scan_answers :: "winsock \<Rightarrow> bytes \<Rightarrow> bool \<Rightarrow> u16 \<Rightarrow> nat \<Rightarrow> nat \<Rightarrow> int \<Rightarrow> dns_exn + DnsResult option" where
  "scan_answers ws buf truncated expectedType 0 pos minTtl =
     Inr (Some \<lparr>dr_address = None, dr_ttl = ttl_or_default minTtl, dr_truncated = truncated, dr_fromNetwork = True\<rparr>)"
| "scan_answers ws buf truncated expectedType (Suc n) pos0 minTtl0 =
     ebind (SkipName buf pos0) (\<lambda>pos.
       if pos + 10 > length buf then Inr None
       else ebind (ReadU16 buf pos) (\<lambda>type.
            ebind (ReadU16 buf (pos + 2)) (\<lambda>dnsClass.
            ebind (ReadU32 buf (pos + 4)) (\<lambda>ttl.
            ebind (ReadU16 buf (pos + 8)) (\<lambda>rdlen.
              let minTtl = (if ttl_seconds ttl < minTtl0 then ttl_seconds ttl else minTtl0);
                  p = pos + 10
              in if p + unat rdlen > length buf then Inr None
                 else if dnsClass = 1 \<and> type = expectedType \<and> type = 1 \<and> rdlen = 4 then
                   ebind (rd_block buf p 4) (\<lambda>a.
                     Inr (Some \<lparr>dr_address = Some (inet_ntop4 ws a), dr_ttl = ttl_or_default minTtl,
                                dr_truncated = truncated, dr_fromNetwork = True\<rparr>))
                 else if dnsClass = 1 \<and> type = expectedType \<and> type = 28 \<and> rdlen = 16 then
                   ebind (rd_block buf p 16) (\<lambda>a.
                     Inr (Some \<lparr>dr_address = Some (inet_ntop6 ws a), dr_ttl = ttl_or_default minTtl,
                                dr_truncated = truncated, dr_fromNetwork = True\<rparr>))
                 else scan_answers ws buf truncated expectedType n (p + unat rdlen) minTtl)))))"

definition truncated_or_invalid :: "bool \<Rightarrow> DnsResult" where
  "truncated_or_invalid truncated =
     (if truncated then \<lparr>dr_address = None, dr_ttl = 30, dr_truncated = True, dr_fromNetwork = True\<rparr>
      else DnsResult_Invalid)"

definition parse_records :: "winsock \<Rightarrow> bytes \<Rightarrow> bool \<Rightarrow> u16 \<Rightarrow> nat \<Rightarrow> nat \<Rightarrow> dns_exn + DnsResult" where
  "parse_records ws buf truncated expectedType qd an =
     (case ebind (skip_questions buf qd 12) (\<lambda>q.
             case q of None \<Rightarrow> Inr None
             | Some pos \<Rightarrow> scan_answers ws buf truncated expectedType an pos INT_MAX) of
        Inl OutOfBounds \<Rightarrow> Inl OutOfBounds
      | Inl (RuntimeError m) \<Rightarrow> Inr (truncated_or_invalid truncated)
      | Inr None \<Rightarrow> Inr (truncated_or_invalid truncated)
      | Inr (Some r) \<Rightarrow> Inr r)"

definition ParseResponse :: "winsock \<Rightarrow> bytes \<Rightarrow> u16 \<Rightarrow> u16 \<Rightarrow> dns_exn + DnsResult" where
  "ParseResponse ws buf expectedId expectedType =
     (if length buf < 12 then Inr DnsResult_Invalid
      else ebind (ReadU16 buf 0) (\<lambda>rid.
        if rid \<noteq> expectedId then Inr DnsResult_Invalid
        else ebind (ReadU16 buf 2) (\<lambda>flags.
          if flags AND 0x8000 = 0 \<or> flags AND 0x7800 \<noteq> 0 then Inr DnsResult_Invalid
          else
            let truncated = (flags AND 0x0200 \<noteq> 0);
                rcode = flags AND 0xF
            in if rcode \<noteq> 0 then
                 Inr \<lparr>dr_address = None, dr_ttl = 30, dr_truncated = truncated, dr_fromNetwork = (rcode = 3)\<rparr>
               else ebind (ReadU16 buf 4) (\<lambda>qd.
                    ebind (ReadU16 buf 6) (\<lambda>an.
                      if qd > 64 \<or> an > 64 then Inr DnsResult_Invalid
                      else parse_records ws buf truncated expectedType (unat qd) (unat an))))))"


section \<open>The response cache\<close>

record CacheEntry =
  ce_address :: "string option"
  ce_expiryMs :: int
  ce_negative :: bool

type_synonym dns_cache = "(string, CacheEntry) umap"

text \<open>\<open>None\<close>: no valid entry; \<open>Some None\<close>: a cached negative answer.\<close>

definition TryGetCached :: "int \<Rightarrow> string \<Rightarrow> dns_cache \<Rightarrow> string option option" where
  "TryGetCached now domainRaw cache =
     (if domainRaw = [] then None
      else case um_find cache (ToLower domainRaw) of
        None \<Rightarrow> None
      | Some e \<Rightarrow>
          if ce_expiryMs e \<le> now then None
          else if ce_negative e then Some None
          else Some (ce_address e))"

definition Cache :: "(string list \<Rightarrow> string list) \<Rightarrow> int \<Rightarrow> string \<Rightarrow> DnsResult \<Rightarrow> dns_cache \<Rightarrow> dns_cache" where
  "Cache ord now domainRaw result cache =
     (if \<not> dr_fromNetwork result then cache
      else if domainRaw = [] then cache
      else
        let cache1 = (if length cache \<ge> 10000 then um_evict ord 1000 cache else cache);
            ttl0 = (if dr_ttl result > 0 then dr_ttl result else 30);
            ttl = (if dr_address result = None then 5 else ttl0)
        in um_set (ToLower domainRaw)
             \<lparr>ce_address = dr_address result, ce_expiryMs = now + ttl * 1000,
              ce_negative = (dr_address result = None)\<rparr> cache1)"

section \<open>No read leaves the buffer\<close>

named_theorems dns_safe "reads that stay inside the buffer"

lemma rd8_in [dns_safe]: "p < length buf \<Longrightarrow> rd8 buf p = Inr (buf ! p)"
  by (simp add: rd8_def)

lemma ReadU16_in [dns_safe]: "p + 1 < length buf \<Longrightarrow> ReadU16 buf p = Inr (be16 (buf ! p) (buf ! (p + 1)))"
  by (simp add: ReadU16_def)

lemma ReadU32_in [dns_safe]: "p + 3 < length buf \<Longrightarrow>
    ReadU32 buf p = Inr (be32 (buf ! p) (buf ! (p + 1)) (buf ! (p + 2)) (buf ! (p + 3)))"
  by (simp add: ReadU32_def)

lemma rd_block_in [dns_safe]: "p + n \<le> length buf \<Longrightarrow> rd_block buf p n = Inr (take n (drop p buf))"
  by (simp add: rd_block_def)

lemma SkipName_loop_safe: "SkipName_loop buf pos jumps \<noteq> Inl OutOfBounds"
proof (induction buf pos jumps rule: SkipName_loop.induct)
  case (1 buf pos jumps)
  then show ?case by (subst SkipName_loop.simps) (auto simp: rd8_def Let_def)
qed

lemma SkipName_loop_bounds: "SkipName_loop buf pos jumps = Inr p \<Longrightarrow> pos < p \<and> p \<le> length buf"
proof (induction buf pos jumps rule: SkipName_loop.induct)
  case (1 buf pos jumps)
  show ?case
  proof (cases "pos < length buf")
    case False
    with "1.prems" show ?thesis by (subst (asm) SkipName_loop.simps) simp
  next
    case True
    with "1.prems" "1.IH" [of "buf ! pos"] show ?thesis
      by (subst (asm) SkipName_loop.simps) (auto simp: rd8_def Let_def split: if_splits)
  qed
qed

lemma SkipName_safe [dns_safe]: "SkipName buf pos \<noteq> Inl OutOfBounds"
  by (simp add: SkipName_def SkipName_loop_safe)

lemma SkipName_bounds: "SkipName buf pos = Inr p \<Longrightarrow> pos < p \<and> p \<le> length buf"
  by (simp add: SkipName_def SkipName_loop_bounds)

lemma skip_questions_safe [dns_safe]: "skip_questions buf n pos \<noteq> Inl OutOfBounds"
  by (induction buf n pos rule: skip_questions.induct)
    (auto split: sum.splits simp: SkipName_safe)

lemma scan_answers_safe [dns_safe]: "scan_answers ws buf tr ty n pos minTtl \<noteq> Inl OutOfBounds"
proof (induction n arbitrary: pos minTtl)
  case (Suc n)
  show ?case
  proof (cases "SkipName buf pos")
    case (Inl e)
    then show ?thesis using SkipName_safe [of buf pos] by simp
  next
    case (Inr p)
    then show ?thesis
      using Suc.IH by (cases "p + 10 > length buf") (auto simp: Let_def dns_safe)
  qed
qed simp

lemma parse_records_total: "\<exists>r. parse_records ws buf tr ty qd an = Inr r"
proof -
  let ?m = "ebind (skip_questions buf qd 12) (\<lambda>q. case q of None \<Rightarrow> Inr None
             | Some pos \<Rightarrow> scan_answers ws buf tr ty an pos INT_MAX)"
  have "?m \<noteq> Inl OutOfBounds"
    using skip_questions_safe [of buf qd 12] scan_answers_safe
    by (auto split: sum.splits option.splits)
  then show ?thesis
    by (auto simp: parse_records_def split: sum.splits option.splits dns_exn.splits)
qed

lemma ParseResponse_total: "\<exists>r. ParseResponse ws buf expectedId expectedType = Inr r"
proof (cases "length buf < 12")
  case False
  then have "ReadU16 buf 0 = Inr (be16 (buf ! 0) (buf ! 1))" "ReadU16 buf 2 = Inr (be16 (buf ! 2) (buf ! 3))"
    "ReadU16 buf 4 = Inr (be16 (buf ! 4) (buf ! 5))" "ReadU16 buf 6 = Inr (be16 (buf ! 6) (buf ! 7))"
    by (simp_all add: ReadU16_def)
  with False show ?thesis
    using parse_records_total by (auto simp: ParseResponse_def Let_def)
qed (simp add: ParseResponse_def)


section \<open>What an accepted answer says\<close>

definition result_ok :: "winsock \<Rightarrow> bytes \<Rightarrow> u16 \<Rightarrow> DnsResult \<Rightarrow> bool" where
  "result_ok ws buf ty r \<longleftrightarrow>
     0 \<le> dr_ttl r \<and> dr_ttl r \<le> INT_MAX \<and>
     (\<forall>s. dr_address r = Some s \<longrightarrow> dr_fromNetwork r \<and>
        (\<exists>p. (ty = 1 \<and> p + 4 \<le> length buf \<and> s = inet_ntop4 ws (take 4 (drop p buf))) \<or>
             (ty = 28 \<and> p + 16 \<le> length buf \<and> s = inet_ntop6 ws (take 16 (drop p buf)))))"

lemma ttl_seconds_range: "0 \<le> ttl_seconds t \<and> ttl_seconds t \<le> INT_MAX"
  by (simp add: ttl_seconds_def)

lemma ttl_or_default_range: "0 \<le> t \<Longrightarrow> t \<le> INT_MAX \<Longrightarrow> 0 \<le> ttl_or_default t \<and> ttl_or_default t \<le> INT_MAX"
  by (simp add: ttl_or_default_def)

lemma result_ok_empty [simp]:
  "result_ok ws buf ty DnsResult_Invalid" "result_ok ws buf ty (truncated_or_invalid tr)"
  by (simp_all add: result_ok_def DnsResult_Invalid_def truncated_or_invalid_def)

text \<open>The fixed part of a resource record whose type field is at \<open>p\<close>.\<close>

definition rr_type :: "bytes \<Rightarrow> nat \<Rightarrow> u16" where
  "rr_type buf p = be16 (buf ! p) (buf ! (p + 1))"

definition rr_class :: "bytes \<Rightarrow> nat \<Rightarrow> u16" where
  "rr_class buf p = be16 (buf ! (p + 2)) (buf ! (p + 3))"

definition rr_ttl :: "bytes \<Rightarrow> nat \<Rightarrow> u32" where
  "rr_ttl buf p = be32 (buf ! (p + 4)) (buf ! (p + 5)) (buf ! (p + 6)) (buf ! (p + 7))"

definition rr_rdlen :: "bytes \<Rightarrow> nat \<Rightarrow> u16" where
  "rr_rdlen buf p = be16 (buf ! (p + 8)) (buf ! (p + 9))"

lemma scan_answers_step:
  assumes "SkipName buf pos = Inr p" and "p + 10 \<le> length buf"
  shows "scan_answers ws buf tr ty (Suc n) pos m =
    (let m' = min (ttl_seconds (rr_ttl buf p)) m
     in if p + 10 + unat (rr_rdlen buf p) > length buf then Inr None
        else if rr_class buf p = 1 \<and> rr_type buf p = ty \<and> ty = 1 \<and> rr_rdlen buf p = 4 then
          Inr (Some \<lparr>dr_address = Some (inet_ntop4 ws (take 4 (drop (p + 10) buf))), dr_ttl = ttl_or_default m',
                     dr_truncated = tr, dr_fromNetwork = True\<rparr>)
        else if rr_class buf p = 1 \<and> rr_type buf p = ty \<and> ty = 28 \<and> rr_rdlen buf p = 16 then
          Inr (Some \<lparr>dr_address = Some (inet_ntop6 ws (take 16 (drop (p + 10) buf))), dr_ttl = ttl_or_default m',
                     dr_truncated = tr, dr_fromNetwork = True\<rparr>)
        else scan_answers ws buf tr ty n (p + 10 + unat (rr_rdlen buf p)) m')"
proof -
  have rd: "ReadU16 buf p = Inr (rr_type buf p)" "ReadU16 buf (p + 2) = Inr (rr_class buf p)"
    "ReadU32 buf (p + 4) = Inr (rr_ttl buf p)" "ReadU16 buf (p + 8) = Inr (rr_rdlen buf p)"
    using assms(2)
    by (simp_all add: ReadU16_def ReadU32_def rr_type_def rr_class_def rr_ttl_def rr_rdlen_def numeral_eq_Suc)
  have blk: "p + 10 + unat (rr_rdlen buf p) \<le> length buf \<Longrightarrow>
      (rr_rdlen buf p = 4 \<longrightarrow> rd_block buf (p + 10) 4 = Inr (take 4 (drop (p + 10) buf))) \<and>
      (rr_rdlen buf p = 16 \<longrightarrow> rd_block buf (p + 10) 16 = Inr (take 16 (drop (p + 10) buf)))"
    by (auto simp: rd_block_def)
  show ?thesis
    unfolding scan_answers.simps assms(1) sum.case rd Let_def
    using assms(2) blk by (auto simp: min_def)
qed

lemma result_ok_A:
  "q + 4 \<le> length buf \<Longrightarrow> 0 \<le> t \<Longrightarrow> t \<le> INT_MAX \<Longrightarrow>
   result_ok ws buf 1 \<lparr>dr_address = Some (inet_ntop4 ws (take 4 (drop q buf))), dr_ttl = t,
     dr_truncated = tr, dr_fromNetwork = True\<rparr>"
  by (auto simp: result_ok_def)

lemma result_ok_AAAA:
  "q + 16 \<le> length buf \<Longrightarrow> 0 \<le> t \<Longrightarrow> t \<le> INT_MAX \<Longrightarrow>
   result_ok ws buf 28 \<lparr>dr_address = Some (inet_ntop6 ws (take 16 (drop q buf))), dr_ttl = t,
     dr_truncated = tr, dr_fromNetwork = True\<rparr>"
  by (auto simp: result_ok_def)

lemma scan_answers_ok:
  "0 \<le> m \<Longrightarrow> m \<le> INT_MAX \<Longrightarrow> scan_answers ws buf tr ty n pos m = Inr (Some r) \<Longrightarrow> result_ok ws buf ty r"
proof (induction n arbitrary: pos m)
  case 0
  then show ?case using ttl_or_default_range [of m] by (auto simp: result_ok_def)
next
  case (Suc n)
  then obtain p where p: "SkipName buf pos = Inr p" "p + 10 \<le> length buf"
    by (auto simp: not_less split: sum.splits if_splits)
  let ?m = "min (ttl_seconds (rr_ttl buf p)) m"
  have m: "0 \<le> ?m" "?m \<le> INT_MAX" using Suc.prems ttl_seconds_range [of "rr_ttl buf p"] by auto
  show ?case
    using Suc.prems(3) ttl_or_default_range [OF m]
    unfolding scan_answers_step [OF p] Let_def
    by (auto simp del: min_def split: if_splits intro!: result_ok_A result_ok_AAAA intro: Suc.IH [OF m])
qed

lemma parse_records_ok: "parse_records ws buf tr ty qd an = Inr r \<Longrightarrow> result_ok ws buf ty r"
  by (auto simp: parse_records_def split: sum.splits option.splits dns_exn.splits
      dest: scan_answers_ok [of INT_MAX, simplified])

lemma ParseResponse_ok: "ParseResponse ws buf i ty = Inr r \<Longrightarrow> result_ok ws buf ty r"
  by (auto simp: ParseResponse_def Let_def result_ok_def [of ws buf ty "\<lparr>dr_address = None, dr_ttl = 30, dr_truncated = _, dr_fromNetwork = _\<rparr>"]
      split: sum.splits if_splits intro: parse_records_ok)

lemma ParseResponse_id:
  "ParseResponse ws buf i ty = Inr r \<Longrightarrow> dr_fromNetwork r \<Longrightarrow> 12 \<le> length buf \<and> be16 (buf ! 0) (buf ! 1) = i"
  by (auto simp: ParseResponse_def Let_def ReadU16_def DnsResult_Invalid_def split: sum.splits if_splits)

section \<open>The query written for a domain\<close>

definition labels_ok :: "string list \<Rightarrow> bool" where
  "labels_ok ls \<longleftrightarrow> (\<forall>l\<in>set ls. l \<noteq> [] \<and> length l \<le> 63)"

definition encode_label :: "string \<Rightarrow> bytes" where
  "encode_label l = word_of_nat (length l) # bytes_of_string l"

definition encode_labels :: "string list \<Rightarrow> bytes" where
  "encode_labels ls = concat (map encode_label ls)"

lemma encode_labels_simps [simp]:
  "encode_labels [] = []" "encode_labels (l # ls) = encode_label l @ encode_labels ls"
  by (simp_all add: encode_labels_def)

lemma labels_ok_simps [simp]:
  "labels_ok []" "labels_ok (l # ls) \<longleftrightarrow> l \<noteq> [] \<and> length l \<le> 63 \<and> labels_ok ls"
  by (simp_all add: labels_ok_def)

lemma length_encode_label [simp]: "length (encode_label l) = Suc (length l)"
  by (simp add: encode_label_def)

lemma write_labels_eq:
  "write_labels ls out = (if labels_ok ls then Inr (out @ encode_labels ls) else Inl ''Invalid domain label'')"
  by (induction ls out rule: write_labels.induct) (auto simp: encode_label_def)

lemma getlines_Nil [simp]: "getlines [] = []"
  by (subst getlines.simps) simp

lemma getlines_nonempty:
  "s \<noteq> [] \<Longrightarrow> getlines s =
     takeWhile (\<lambda>c. c \<noteq> CHR ''.'') s # getlines (tl (dropWhile (\<lambda>c. c \<noteq> CHR ''.'') s))"
  by (subst getlines.simps) simp

lemma length_encode_getlines: "length (encode_labels (getlines s)) \<le> Suc (length s)"
proof (induction s rule: getlines.induct)
  case (1 s)
  show ?case
  proof (cases "s = []")
    case False
    let ?h = "takeWhile (\<lambda>c. c \<noteq> CHR ''.'') s" and ?d = "dropWhile (\<lambda>c. c \<noteq> CHR ''.'') s"
    have "length ?h + length ?d = length s"
      by (metis length_append takeWhile_dropWhile_id)
    with "1.IH" [OF False] show ?thesis
      unfolding getlines_nonempty [OF False]
      by (cases "?d") (simp_all del: dropWhile_eq_Nil_conv)
  qed simp
qed

definition query_header :: "u16 \<Rightarrow> bytes" where
  "query_header txid = [hi8 txid, lo8 txid, 1, 0, 0, 1, 0, 0, 0, 0, 0, 1]"

definition opt_record :: bytes where
  "opt_record = [0, 0, 41, 16, 0, 0, 0, 0, 0, 0, 0]"

lemma WriteU16_consts:
  "[hi8 0x0100, lo8 0x0100] = [1, 0]" "[hi8 1, lo8 1] = [0, 1]" "[hi8 0, lo8 0] = [0, 0]"
  "[hi8 41, lo8 41] = [0, 41]" "[hi8 4096, lo8 4096] = [16, 0]"
  by (simp_all add: hi8_def lo8_def)

lemma BuildQuery_eq:
  "BuildQuery domain txid type =
     (if domain = [] \<or> length domain > 253 then Inl ''Invalid domain length''
      else if \<not> labels_ok (getlines domain) then Inl ''Invalid domain label''
      else Inr (query_header txid @ encode_labels (getlines domain) @ [0, hi8 type, lo8 type, 0, 1] @ opt_record))"
proof -
  have "length domain \<le> 253 \<Longrightarrow> length (encode_labels (getlines domain)) \<le> 254"
    using length_encode_getlines [of domain] by simp
  then show ?thesis
    by (auto simp: BuildQuery_def write_labels_eq Let_def WriteU16_def query_header_def opt_record_def
        WriteU16_consts [simplified])
qed


section \<open>Names on the wire\<close>

lemma small_label_byte:
  assumes "l \<noteq> []" and "length l \<le> 63"
  shows "unat (word_of_nat (length l) :: byte) = length l" and "(word_of_nat (length l) :: byte) \<noteq> 0"
    and "(word_of_nat (length l) :: byte) AND 0xC0 \<noteq> 0xC0"
proof -
  have lt: "length l < 256" using assms(2) by simp
  show u: "unat (word_of_nat (length l) :: byte) = length l"
    using lt by (simp add: unat_of_nat take_bit_nat_eq_self)
  show "(word_of_nat (length l) :: byte) \<noteq> 0" using u assms(1) by auto
  have "(word_of_nat (length l) :: byte) AND 0xC0 \<le> word_of_nat (length l)"
    by (rule word_and_le2)
  moreover have "(word_of_nat (length l) :: byte) < 0xC0"
    using u assms(2) by (simp add: word_less_nat_alt)
  ultimately show "(word_of_nat (length l) :: byte) AND 0xC0 \<noteq> 0xC0" by auto
qed

lemma SkipName_loop_encoded:
  "labels_ok ls \<Longrightarrow> SkipName_loop (pre @ encode_labels ls @ 0 # post) (length pre) j =
     Inr (length pre + length (encode_labels ls) + 1)"
proof (induction ls arbitrary: pre)
  case Nil
  then show ?case by (subst SkipName_loop.simps) (simp add: rd8_def)
next
  case (Cons l ls)
  then have l: "l \<noteq> []" "length l \<le> 63" "labels_ok ls" by auto
  have "SkipName_loop (pre @ encode_labels (l # ls) @ 0 # post) (length pre) j =
      SkipName_loop ((pre @ encode_label l) @ encode_labels ls @ 0 # post) (length (pre @ encode_label l)) j"
    by (subst SkipName_loop.simps)
      (simp add: rd8_def encode_label_def small_label_byte [OF l(1,2)] nth_append)
  then show ?case using Cons.IH [OF l(3), of "pre @ encode_label l"] by simp
qed

lemma SkipName_encoded:
  assumes "buf = pre @ encode_labels ls @ 0 # post" and "labels_ok ls" and "p = length pre"
  shows "SkipName buf p = Inr (p + length (encode_labels ls) + 1)"
  unfolding assms(1,3) SkipName_def by (rule SkipName_loop_encoded [OF assms(2)])

lemma SkipName_pointer:
  assumes "p + 1 < length buf" and "buf ! p = 0xC0" and "unat (buf ! (p + 1)) < length buf"
  shows "SkipName buf p = Inr (p + 2)"
  unfolding SkipName_def
  by (subst SkipName_loop.simps) (use assms in \<open>simp add: rd8_def Let_def\<close>)

section \<open>A reply to our own query is understood\<close>

definition be32_bytes :: "u32 \<Rightarrow> bytes" where
  "be32_bytes w = [ucast (drop_bit 24 w), ucast (drop_bit 16 w), ucast (drop_bit 8 w), ucast w]"

lemma be32_be32_bytes [simp, wire_simps]:
  "be32 (ucast (drop_bit 24 w)) (ucast (drop_bit 16 w)) (ucast (drop_bit 8 w)) (ucast (w :: u32)) = w"
proof (rule bit_word_eqI)
  fix n assume n: "n < LENGTH(32)"
  then consider "n < 8" | "8 \<le> n" "n < 16" | "16 \<le> n" "n < 24" | "24 \<le> n" "n < 32" by fastforce
  then show "bit (be32 (ucast (drop_bit 24 w)) (ucast (drop_bit 16 w)) (ucast (drop_bit 8 w)) (ucast w)) n = bit w n"
    by cases (auto simp: be32_def bit_simps)
qed

text \<open>The reply a server sends for the query of \<^verbatim>\<open>BuildQuery\<close>: the question echoed and one
  record whose owner is a compression pointer to it.\<close>

definition a_reply :: "u16 \<Rightarrow> string \<Rightarrow> u16 \<Rightarrow> u32 \<Rightarrow> bytes \<Rightarrow> bytes" where
  "a_reply txid domain type ttl rdata =
     [hi8 txid, lo8 txid, 0x81, 0x80, 0, 1, 0, 1, 0, 0, 0, 0]
     @ encode_labels (getlines domain) @ 0 # [hi8 type, lo8 type, 0, 1]
     @ [0xC0, 12] @ [hi8 type, lo8 type, 0, 1] @ be32_bytes ttl
     @ [hi8 (word_of_nat (length rdata)), lo8 (word_of_nat (length rdata))] @ rdata"

lemma be16_small [simp]: "be16 0 b = ucast b"
  by (simp add: be16_def)

lemma be16_flags [simp]: "be16 0x81 0x80 = 0x8180"
  by (simp add: be16_def)

lemma a_reply_record:
  fixes txid type :: u16 and ttl :: u32
  assumes "labels_ok (getlines domain)" and "length rdata < 65536"
  defines "buf \<equiv> a_reply txid domain type ttl rdata"
  defines "p \<equiv> 12 + length (encode_labels (getlines domain)) + 7"
  shows "SkipName buf 12 = Inr (12 + length (encode_labels (getlines domain)) + 1)"
    and "SkipName buf (p - 2) = Inr p"
    and "p + 10 + length rdata = length buf"
    and "rr_type buf p = type" and "rr_class buf p = 1" and "rr_ttl buf p = ttl"
    and "unat (rr_rdlen buf p) = length rdata" and "drop (p + 10) buf = rdata"
proof -
  let ?n = "encode_labels (getlines domain)"
  define pre where "pre = [hi8 txid, lo8 txid, 0x81, 0x80, 0, 1, 0, 1, 0, 0, 0, 0] @ ?n @ [0, hi8 type, lo8 type, 0, 1, 0xC0, 12]"
  define post where "post = [hi8 type, lo8 type, 0, 1] @ be32_bytes ttl
     @ [hi8 (word_of_nat (length rdata)), lo8 (word_of_nat (length rdata))]"
  have buf: "buf = pre @ post @ rdata" and lp: "length pre = p" and lq: "length post = 10"
    by (simp_all add: buf_def a_reply_def pre_def post_def p_def be32_bytes_def)
  have nth: "buf ! (p + i) = post ! i" if "i < 10" for i
    using that lp lq by (simp add: buf nth_append)
  show "SkipName buf 12 = Inr (12 + length ?n + 1)"
    unfolding buf_def a_reply_def
    by (rule SkipName_encoded [OF _ assms(1), of _ "[hi8 txid, lo8 txid, 0x81, 0x80, 0, 1, 0, 1, 0, 0, 0, 0]"]) auto
  show "SkipName buf (p - 2) = Inr p"
  proof -
    have "buf ! (p - 2) = 0xC0" "buf ! (p - 2 + 1) = 12" "p - 2 + 1 < length buf" "p - 2 + 2 = p"
      by (simp_all add: buf nth_append p_def pre_def)
    moreover have "12 < length buf" using lp by (simp add: buf p_def)
    ultimately show ?thesis using SkipName_pointer [of "p - 2" buf] by simp
  qed
  show "p + 10 + length rdata = length buf" "drop (p + 10) buf = rdata"
    using lp lq by (simp_all add: buf)
  show "rr_type buf p = type" "rr_class buf p = 1" "rr_ttl buf p = ttl"
    using nth [of 0] nth [of 1] nth [of 2]
    by (simp_all add: rr_type_def rr_class_def rr_ttl_def nth post_def be32_bytes_def)
  show "unat (rr_rdlen buf p) = length rdata"
    using assms(2) by (simp add: rr_rdlen_def nth post_def be32_bytes_def unat_of_nat take_bit_nat_eq_self)
qed

lemma reply_header:
  "length (a_reply txid domain type ttl rdata) \<ge> 12"
  "ReadU16 (a_reply txid domain type ttl rdata) 0 = Inr txid"
  "ReadU16 (a_reply txid domain type ttl rdata) 2 = Inr 0x8180"
  "ReadU16 (a_reply txid domain type ttl rdata) 4 = Inr 1"
  "ReadU16 (a_reply txid domain type ttl rdata) 6 = Inr 1"
  by (simp_all add: a_reply_def ReadU16_def)

lemma ParseResponse_reply:
  assumes dom: "labels_ok (getlines domain)"
    and data: "type = 1 \<and> length rdata = 4 \<or> type = 28 \<and> length rdata = 16"
    and ttl: "uint ttl < INT_MAX"
  shows "ParseResponse ws (a_reply txid domain type ttl rdata) txid type =
    Inr \<lparr>dr_address = Some (if type = 1 then inet_ntop4 ws rdata else inet_ntop6 ws rdata),
         dr_ttl = uint ttl, dr_truncated = False, dr_fromNetwork = True\<rparr>"
proof -
  let ?buf = "a_reply txid domain type ttl rdata" and ?n = "length (encode_labels (getlines domain))"
  have lt: "length rdata < 65536" using data by auto
  note r = a_reply_record [OF dom lt, of txid type ttl]
  have q: "skip_questions ?buf 1 12 = Inr (Some (12 + ?n + 5))"
    using r(1,3) by (simp add: numeral_eq_Suc)
  have rl: "type = 1 \<Longrightarrow> rr_rdlen ?buf (12 + ?n + 7) = 4" "type = 28 \<Longrightarrow> rr_rdlen ?buf (12 + ?n + 7) = 16"
    using r(7) data by (auto intro!: word_unat_eq_iff [THEN iffD2])
  have sk: "SkipName ?buf (12 + ?n + 5) = Inr (12 + ?n + 7)" and ln: "12 + ?n + 7 + 10 \<le> length ?buf"
    using r(2,3) by auto
  have t: "ttl_or_default (min (ttl_seconds ttl) INT_MAX) = uint ttl"
    using ttl by (simp add: ttl_seconds_def ttl_or_default_def)
  have "scan_answers ws ?buf False type 1 (12 + ?n + 5) INT_MAX =
      Inr (Some \<lparr>dr_address = Some (if type = 1 then inet_ntop4 ws rdata else inet_ntop6 ws rdata),
         dr_ttl = uint ttl, dr_truncated = False, dr_fromNetwork = True\<rparr>)"
    unfolding One_nat_def scan_answers_step [OF sk ln] Let_def r(4-8) t
    using data rl r(3) by auto
  with q have "parse_records ws ?buf False type 1 1 =
      Inr \<lparr>dr_address = Some (if type = 1 then inet_ntop4 ws rdata else inet_ntop6 ws rdata),
         dr_ttl = uint ttl, dr_truncated = False, dr_fromNetwork = True\<rparr>"
    unfolding parse_records_def by simp
  then show ?thesis
    using reply_header(1) [of txid domain type ttl rdata]
    by (simp add: ParseResponse_def reply_header Let_def flip: not_le)
qed


section \<open>Cache behaviour\<close>

definition cache_ttl :: "DnsResult \<Rightarrow> int" where
  "cache_ttl r = (if dr_address r = None then 5 else if dr_ttl r > 0 then dr_ttl r else 30)"

lemma ToLower_idem [simp]: "ToLower (ToLower s) = ToLower s"
  by (simp add: ToLower_def comp_def)

lemma ToLower_empty [simp]: "ToLower s = [] \<longleftrightarrow> s = []"
  by (simp add: ToLower_def)

lemma Cache_lookup:
  assumes "dr_fromNetwork r" and "d \<noteq> []"
  shows "TryGetCached t d' (Cache ord now d r c) =
    (if ToLower d' = ToLower d
     then (if t < now + cache_ttl r * 1000 then Some (dr_address r) else None)
     else TryGetCached t d' (if length c \<ge> 10000 then um_evict ord 1000 c else c))"
proof -
  have "d' \<noteq> []" if "ToLower d' = ToLower d" using that assms(2) by (metis ToLower_empty)
  then show ?thesis
    using assms by (auto simp: TryGetCached_def Cache_def Let_def cache_ttl_def)
qed

lemma Cache_wf: "um_wf c \<Longrightarrow> um_wf (Cache ord now d r c)"
  by (simp add: Cache_def Let_def)

lemma Cache_bounded:
  assumes "um_wf c" and "iter_ok ord" and "length c \<le> 10000"
  shows "length (Cache ord now d r c) \<le> 10000"
  using assms um_size_evict [of c ord 1000] by (auto simp: Cache_def Let_def um_size_set)

section \<open>Answers\<close>

text \<open>C31.  The parser is safe on every datagram: it never reads outside the buffer, always returns, and what it returns is an address of the
  requested kind taken from the datagram, with a lifetime in range.  And it understands its servers: from the reply to
  a query, which echoes the question and points back to it, it recovers exactly the address and the lifetime.\<close>

theorem dns_reply_roundtrip:
  assumes "labels_ok (getlines domain)" and "type = 1 \<and> length rdata = 4 \<or> type = 28 \<and> length rdata = 16" and "uint ttl < INT_MAX"
  shows "ParseResponse ws (a_reply txid domain type ttl rdata) txid type =
      Inr \<lparr>dr_address = Some (if type = 1 then inet_ntop4 ws rdata else inet_ntop6 ws rdata),
           dr_ttl = uint ttl, dr_truncated = False, dr_fromNetwork = True\<rparr> \<and>
    (\<exists>r. ParseResponse ws buf expectedId expectedType = Inr r \<and> result_ok ws buf expectedType r)"
  using ParseResponse_reply [OF assms] ParseResponse_total [of ws buf] ParseResponse_ok by metis

theorem dns_reply_roundtrip_witness:
  "ParseResponse sample_ws (a_reply 7 ''a.b'' 1 300 [10, 0, 0, 9]) 7 1 =
     Inr \<lparr>dr_address = Some (inet_ntop4 sample_ws [10, 0, 0, 9]), dr_ttl = 300, dr_truncated = False, dr_fromNetwork = True\<rparr>"
proof -
  have "labels_ok (getlines ''a.b'')" by code_simp
  then show ?thesis using dns_reply_roundtrip [of "''a.b''" 1 "[10, 0, 0, 9]" 300 sample_ws 7 "[]" 0 0] by simp
qed

end
