(* ===== verification/SendWindow.thy ===== *)
theory SendWindow
  imports NetworkUtils
begin

text \<open>
  The contract shared by the two components that send datagrams through IOCP,
  \<^verbatim>\<open>DnsResolver\<close> and \<^verbatim>\<open>UdpRelay\<close>: a queue of datagrams waiting to be posted, a list of
  datagrams whose overlapped send is in flight and a counter of the latter.

  The locale \<open>send_window\<close> fixes the three operations both classes have
  (\<^verbatim>\<open>EnqueueSendLocked\<close>, \<^verbatim>\<open>PumpSendLocked\<close>, the send-completion handler) and what each promises;
  the lemmas of the locale are the consequences the two classes rely on.  Each class
  interprets it on its own operations.
\<close>

text \<open>\<^verbatim>\<open>struct Outbound\<close>; \<open>ob_ctx\<close> is the identity of its embedded \<^verbatim>\<open>IoContext\<close>.\<close>

record Outbound =
  ob_ctx :: nat
  ob_data :: bytes
  ob_to :: sockaddr_storage

text \<open>The search loop of the send-completion handlers: the first element with this context
  is erased, \<open>None\<close> when there is none.\<close>

fun erase_ctx :: "nat \<Rightarrow> Outbound list \<Rightarrow> Outbound list option" where
  "erase_ctx c [] = None"
| "erase_ctx c (x # xs) = (if ob_ctx x = c then Some xs else map_option ((#) x) (erase_ctx c xs))"

lemma erase_ctx_length: "erase_ctx c xs = Some ys \<Longrightarrow> length xs = Suc (length ys)"
  by (induction xs arbitrary: ys) (auto split: if_splits)

lemma erase_ctx_SomeD: "erase_ctx c xs = Some ys \<Longrightarrow>
    \<exists>us x vs. xs = us @ x # vs \<and> ys = us @ vs \<and> ob_ctx x = c"
proof (induction xs arbitrary: ys)
  case (Cons x xs)
  show ?case
  proof (cases "ob_ctx x = c")
    case True
    with Cons.prems have "x # xs = [] @ x # xs \<and> ys = [] @ xs \<and> ob_ctx x = c" by simp
    then show ?thesis by blast
  next
    case False
    with Cons.prems obtain zs where zs: "ys = x # zs" "erase_ctx c xs = Some zs" by auto
    then obtain us y vs where "xs = us @ y # vs" "zs = us @ vs" "ob_ctx y = c"
      using Cons.IH by blast
    with zs have "x # xs = (x # us) @ y # vs \<and> ys = (x # us) @ vs \<and> ob_ctx y = c" by simp
    then show ?thesis by blast
  qed
qed simp

lemma erase_ctx_None: "erase_ctx c xs = None \<longleftrightarrow> c \<notin> ob_ctx ` set xs"
  by (induction xs) auto

locale send_window =
  fixes pend infl :: "'s \<Rightarrow> Outbound list"
    and cnt :: "'s \<Rightarrow> nat"
    and maxInFlight maxPending :: nat
    and pump :: "'s \<Rightarrow> 's"
    and enqueue :: "'m \<Rightarrow> 's \<Rightarrow> 's"
    and carries :: "'m \<Rightarrow> 's \<Rightarrow> Outbound \<Rightarrow> bool"
    and completed :: "nat \<Rightarrow> 's \<Rightarrow> 's"
  assumes pump_moves:
      "\<exists>k. k \<le> length (pend s) \<and> (0 < k \<longrightarrow> cnt s + k \<le> maxInFlight) \<and> cnt (pump s) = cnt s + k \<and>
           infl (pump s) = infl s @ take k (pend s) \<and> pend (pump s) = drop k (pend s)"
    and enqueue_appends:
      "(pend (enqueue m s), infl (enqueue m s), cnt (enqueue m s)) = (pend s, infl s, cnt s) \<or>
       (length (pend s) < maxPending \<and>
        (\<exists>s1 x. enqueue m s = pump s1 \<and> carries m s x \<and>
                pend s1 = pend s @ [x] \<and> infl s1 = infl s \<and> cnt s1 = cnt s))"
    and completed_removes:
      "(case erase_ctx c (infl s) of
          None \<Rightarrow> (pend (completed c s), infl (completed c s), cnt (completed c s)) = (pend s, infl s, cnt s)
        | Some rest \<Rightarrow> (\<exists>s1. (completed c s = s1 \<or> completed c s = pump s1) \<and>
                           pend s1 = pend s \<and> infl s1 = rest \<and> cnt s1 = cnt s - 1))"
begin

definition window_ok :: "'s \<Rightarrow> bool" where
  "window_ok s \<longleftrightarrow> cnt s = length (infl s) \<and> length (infl s) \<le> maxInFlight \<and> length (pend s) \<le> maxPending"

lemma pump_window: "window_ok s \<Longrightarrow> window_ok (pump s)"
  using pump_moves [of s] by (auto simp: window_ok_def)

lemma pump_fifo: "infl (pump s) @ pend (pump s) = infl s @ pend s"
  using pump_moves [of s] by auto

lemma enqueue_window:
  assumes "window_ok s"
  shows "window_ok (enqueue m s)"
  using enqueue_appends [of m s]
proof (elim disjE conjE exE)
  fix s1 x
  assume "length (pend s) < maxPending" and s1: "enqueue m s = pump s1"
    and "pend s1 = pend s @ [x]" "infl s1 = infl s" "cnt s1 = cnt s"
  with assms have "window_ok s1" by (simp add: window_ok_def)
  with s1 show ?thesis by (simp add: pump_window)
qed (use assms in \<open>simp add: window_ok_def\<close>)

lemma enqueue_fifo:
  "infl (enqueue m s) @ pend (enqueue m s) = infl s @ pend s \<or>
   (\<exists>x. carries m s x \<and>
        infl (enqueue m s) @ pend (enqueue m s) = infl s @ pend s @ [x])"
  using enqueue_appends [of m s]
proof (elim disjE conjE exE)
  fix s1 x
  assume s1: "enqueue m s = pump s1" "carries m s x"
    and "pend s1 = pend s @ [x]" "infl s1 = infl s"
  then have "infl (enqueue m s) @ pend (enqueue m s) = infl s @ pend s @ [x]"
    by (simp add: pump_fifo)
  with s1 show ?thesis by blast
qed simp

lemma completed_window:
  assumes "window_ok s"
  shows "window_ok (completed c s)"
proof (cases "erase_ctx c (infl s)")
  case None
  with completed_removes [of c s] assms show ?thesis by (simp add: window_ok_def)
next
  case (Some rest)
  then obtain s1 where s1: "completed c s = s1 \<or> completed c s = pump s1"
    "pend s1 = pend s" "infl s1 = rest" "cnt s1 = cnt s - 1"
    using completed_removes [of c s] by auto
  with assms erase_ctx_length [OF Some] have "window_ok s1" by (simp add: window_ok_def)
  with s1(1) show ?thesis by (auto simp: pump_window)
qed

lemma completed_fifo:
  assumes "erase_ctx c (infl s) = Some rest"
  shows "infl (completed c s) @ pend (completed c s) = rest @ pend s"
proof -
  obtain s1 where "completed c s = s1 \<or> completed c s = pump s1" "pend s1 = pend s" "infl s1 = rest"
    using completed_removes [of c s] assms by auto
  then show ?thesis using pump_fifo [of s1] by auto
qed

end

end
