(* ===== verification/DnsResolver.thy ===== *)
theory DnsResolver
  imports NetworkConfiguration DnsClient SendWindow
begin

text \<open>
  The asynchronous resolver of \<^verbatim>\<open>dns/DnsResolver.cpp\<close>: UDP queries with retry, the TCP fallback
  \<^verbatim>\<open>TcpDnsQuery\<close>, request coalescing and the bounded send window.

  Every entry point (\<^verbatim>\<open>ResolveAsync\<close>, the completion handlers, \<^verbatim>\<open>Start\<close>, \<^verbatim>\<open>Stop\<close>) is one function on
  the state \<open>resolver\<close>.  The \<^verbatim>\<open>shared_ptr\<close>s to \<^verbatim>\<open>PendingQuery\<close> and \<^verbatim>\<open>TcpDnsQuery\<close> objects are
  handles into the heaps \<open>r_pqs\<close> and \<open>r_tqs\<close>, so that the two indexes \<open>r_byId\<close> and
  \<open>r_byDomain\<close> share one object.  A callback is a number; its invocation, and every call
  that leaves the resolver, is appended to the trace \<open>r_out\<close>.  The answer of the n-th call to the
  operating system or to IOCP, the random transaction ids, the timer ids and the iteration orders
  come from the environment \<open>dns_env\<close>; logging is left out.
\<close>

datatype dns_act =
    Deliver nat "string option"
  | UdpSendTo bytes sockaddr_storage
  | UdpRecvFrom
  | CloseUdp
  | TcpConnect nat sockaddr_storage
  | TcpSend nat bytes
  | TcpRecv nat nat
  | CloseTcp nat
  | Schedule u64 int
  | CancelTimeout nat

record dns_env =
  de_ws :: winsock
  de_cfg :: netcfg
  de_server :: string
  de_rng :: "nat \<Rightarrow> u16"
  de_ok :: "nat \<Rightarrow> bool"
  de_timer :: "nat \<Rightarrow> nat"
  de_ids :: "u16 list \<Rightarrow> u16 list"
  de_names :: "string list \<Rightarrow> string list"

datatype tcp_phase = Phase_Connect | Phase_Send | Phase_RecvLen | Phase_RecvBody

text \<open>\<open>tq_recv\<close> holds the first \<^verbatim>\<open>recvGot_\<close> bytes of \<^verbatim>\<open>recvCtx_.buffer\<close>.\<close>

record TcpDnsQuery =
  tq_txid :: u16
  tq_qtype :: u16
  tq_query :: bytes
  tq_socket :: bool
  tq_phase :: tcp_phase
  tq_sendBuf :: bytes
  tq_sendOffset :: nat
  tq_sendLength :: nat
  tq_need :: nat
  tq_recv :: bytes
  tq_done :: bool

record PendingQuery =
  pq_domain :: string
  pq_txid :: u16
  pq_qtype :: u16
  pq_tryAAAA :: bool
  pq_viaTcp :: bool
  pq_useCache :: bool
  pq_udpAttempts :: nat
  pq_callbacks :: "nat list"
  pq_timerId :: nat
  pq_tcp :: "nat option"

record resolver =
  r_dnsAddr :: sockaddr_storage
  r_udpSocket :: bool
  r_recvPosted :: bool
  r_pendingSends :: "Outbound list"
  r_inFlightSends :: "Outbound list"
  r_sendsInFlight :: nat
  r_byId :: "(u16, nat) umap"
  r_byDomain :: "(string, nat) umap"
  r_pqs :: "nat \<Rightarrow> PendingQuery"
  r_nextPq :: nat
  r_tqs :: "nat \<Rightarrow> TcpDnsQuery"
  r_nextTq :: nat
  r_idSeq :: u32
  r_started :: bool
  r_stopping :: bool
  r_cache :: dns_cache
  r_draws :: nat
  r_calls :: nat
  r_nextCtx :: nat
  r_stuck :: bool
  r_out :: "dns_act list"

definition blank_pq :: PendingQuery where
  "blank_pq = \<lparr>pq_domain = [], pq_txid = 0, pq_qtype = 1, pq_tryAAAA = False, pq_viaTcp = False, pq_useCache = True,
     pq_udpAttempts = 0, pq_callbacks = [], pq_timerId = 0, pq_tcp = None\<rparr>"

definition blank_tq :: TcpDnsQuery where
  "blank_tq = \<lparr>tq_txid = 0, tq_qtype = 1, tq_query = [], tq_socket = False, tq_phase = Phase_Connect,
     tq_sendBuf = [], tq_sendOffset = 0, tq_sendLength = 0, tq_need = 0, tq_recv = [], tq_done = False\<rparr>"

definition new_resolver :: resolver where
  "new_resolver =
    \<lparr>r_dnsAddr = AddrNone, r_udpSocket = False, r_recvPosted = False, r_pendingSends = [], r_inFlightSends = [],
     r_sendsInFlight = 0, r_byId = [], r_byDomain = [], r_pqs = (\<lambda>h. blank_pq), r_nextPq = 0,
     r_tqs = (\<lambda>t. blank_tq), r_nextTq = 0, r_idSeq = 1, r_started = False, r_stopping = False, r_cache = [],
     r_draws = 0, r_calls = 0, r_nextCtx = 0, r_stuck = False, r_out = []\<rparr>"

abbreviation (input) "kTimeoutKey \<equiv> (1 :: u64)"
abbreviation (input) "kMaxUdpAttempts \<equiv> (3 :: nat)"
abbreviation (input) "kMaxDnsSendsInFlight \<equiv> (16 :: nat)"
abbreviation (input) "kMaxPendingSends \<equiv> (4096 :: nat)"
abbreviation (input) "kMaxPendingQueries \<equiv> (4096 :: nat)"
abbreviation (input) "kMaxCallbacksPerQuery \<equiv> (256 :: nat)"

definition emit :: "dns_act list \<Rightarrow> resolver \<Rightarrow> resolver" where
  "emit as s = s\<lparr>r_out := r_out s @ as\<rparr>"

definition os_call :: "dns_env \<Rightarrow> resolver \<Rightarrow> bool \<times> resolver" where
  "os_call e s = (de_ok e (r_calls s), s\<lparr>r_calls := Suc (r_calls s)\<rparr>)"

definition mod_pq :: "nat \<Rightarrow> (PendingQuery \<Rightarrow> PendingQuery) \<Rightarrow> resolver \<Rightarrow> resolver" where
  "mod_pq h f s = s\<lparr>r_pqs := (r_pqs s)(h := f (r_pqs s h))\<rparr>"

definition mod_tq :: "nat \<Rightarrow> (TcpDnsQuery \<Rightarrow> TcpDnsQuery) \<Rightarrow> resolver \<Rightarrow> resolver" where
  "mod_tq t f s = s\<lparr>r_tqs := (r_tqs s)(t := f (r_tqs s t))\<rparr>"

definition deliver :: "nat list \<Rightarrow> string option \<Rightarrow> resolver \<Rightarrow> resolver" where
  "deliver cbs r s = emit (map (\<lambda>cb. Deliver cb r) cbs) s"

fun SameEndpoint :: "sockaddr_storage \<Rightarrow> sockaddr_storage \<Rightarrow> bool" where
  "SameEndpoint (AddrIn p a) (AddrIn p' a') \<longleftrightarrow> p = p' \<and> a = a'"
| "SameEndpoint (AddrIn6 p f a sc) (AddrIn6 p' f' a' sc') \<longleftrightarrow> p = p' \<and> a = a' \<and> sc = sc'"
| "SameEndpoint _ _ \<longleftrightarrow> False"


section \<open>Transaction ids\<close>

text \<open>
  The first loop draws at most 10000 random ids; the second, unbounded in the source, counts
  \<^verbatim>\<open>idSeq_\<close> up.  It is given 65536 rounds, one per 16-bit value; running out of them sets
  \<open>r_stuck\<close>, which stands for a loop that never returns.
\<close>

function alloc_random :: "dns_env \<Rightarrow> nat \<Rightarrow> resolver \<Rightarrow> u16 option \<times> resolver" where
  "alloc_random e i s =
     (if i < 10000 then
        let txid = de_rng e (r_draws s);
            s1 = s\<lparr>r_draws := Suc (r_draws s)\<rparr>
        in if txid = 0 then alloc_random e (i + 1) s1
           else if um_find (r_byId s) txid = None then (Some txid, s1)
           else alloc_random e (i + 1) s1
      else (None, s))"
  by pat_completeness auto
termination by (relation "measure (\<lambda>(e, i, s). 10000 - i)") auto

function alloc_seq :: "nat \<Rightarrow> resolver \<Rightarrow> u16 option \<times> resolver" where
  "alloc_seq i s =
     (if i < 65536 then
        let txid = ucast (r_idSeq s) :: u16;
            s1 = s\<lparr>r_idSeq := r_idSeq s + 1\<rparr>
        in if txid \<noteq> 0 \<and> um_find (r_byId s) txid = None then (Some txid, s1)
           else alloc_seq (i + 1) s1
      else (None, s))"
  by pat_completeness auto
termination by (relation "measure (\<lambda>(i, s). 65536 - i)") auto

declare alloc_random.simps [simp del] alloc_seq.simps [simp del]

definition AllocTxidLocked :: "dns_env \<Rightarrow> resolver \<Rightarrow> u16 \<times> resolver" where
  "AllocTxidLocked e s =
     (case alloc_random e 0 s of
        (Some txid, s1) \<Rightarrow> (txid, s1)
      | (None, s1) \<Rightarrow>
          (case alloc_seq 0 s1 of
             (Some txid, s2) \<Rightarrow> (txid, s2)
           | (None, s2) \<Rightarrow> (0, s2\<lparr>r_stuck := True\<rparr>)))"


section \<open>Timers and the UDP send window\<close>

definition timeout_key :: "u16 \<Rightarrow> u64" where
  "timeout_key txid = push_bit 32 kTimeoutKey OR ucast txid"

definition dns_timeout_ms :: "netcfg \<Rightarrow> int" where
  "dns_timeout_ms c = (if DnsReceiveTimeoutMs c > 0 then DnsReceiveTimeoutMs c else 3000)"

definition CancelTimerLocked :: "nat \<Rightarrow> resolver \<Rightarrow> resolver" where
  "CancelTimerLocked h s =
     (if pq_timerId (r_pqs s h) \<noteq> 0
      then mod_pq h (\<lambda>q. q\<lparr>pq_timerId := 0\<rparr>) (emit [CancelTimeout (pq_timerId (r_pqs s h))] s)
      else s)"

definition ArmTimerLocked :: "dns_env \<Rightarrow> nat \<Rightarrow> resolver \<Rightarrow> bool \<times> resolver" where
  "ArmTimerLocked e h s =
     (let s1 = CancelTimerLocked h s;
          timer = de_timer e (r_calls s1);
          s2 = emit [Schedule (timeout_key (pq_txid (r_pqs s1 h))) (dns_timeout_ms (de_cfg e))]
                 (s1\<lparr>r_calls := Suc (r_calls s1)\<rparr>)
      in (timer \<noteq> 0, mod_pq h (\<lambda>q. q\<lparr>pq_timerId := timer\<rparr>) s2))"

function PumpSendLocked :: "dns_env \<Rightarrow> resolver \<Rightarrow> resolver" where
  "PumpSendLocked e s =
     (if r_sendsInFlight s < kMaxDnsSendsInFlight \<and> r_pendingSends s \<noteq> [] \<and> r_udpSocket s \<and> \<not> r_stopping s then
        let out = hd (r_pendingSends s);
            (ok, s1) = os_call e s
        in if \<not> ok then s1
           else PumpSendLocked e
             (emit [UdpSendTo (ob_data out) (ob_to out)]
                (s1\<lparr>r_pendingSends := tl (r_pendingSends s), r_inFlightSends := r_inFlightSends s @ [out],
                    r_sendsInFlight := r_sendsInFlight s + 1\<rparr>))
      else s)"
  by pat_completeness auto
termination
  by (relation "measure (\<lambda>(e, s). length (r_pendingSends s))") (auto simp: os_call_def emit_def)

declare PumpSendLocked.simps [simp del]

definition EnqueueUdpSendLocked :: "dns_env \<Rightarrow> bytes \<Rightarrow> resolver \<Rightarrow> resolver" where
  "EnqueueUdpSendLocked e query s =
     (if \<not> r_udpSocket s \<or> length (r_pendingSends s) \<ge> kMaxPendingSends then s
      else PumpSendLocked e
        (s\<lparr>r_pendingSends := r_pendingSends s @ [\<lparr>ob_ctx = r_nextCtx s, ob_data = query, ob_to = r_dnsAddr s\<rparr>],
           r_nextCtx := Suc (r_nextCtx s)\<rparr>))"

definition OnUdpSendCompleted :: "dns_env \<Rightarrow> nat \<Rightarrow> resolver \<Rightarrow> resolver" where
  "OnUdpSendCompleted e ctx s =
     (case erase_ctx ctx (r_inFlightSends s) of
        None \<Rightarrow> s
      | Some rest \<Rightarrow>
          let s1 = s\<lparr>r_inFlightSends := rest\<rparr>;
              s2 = (if r_sendsInFlight s1 > 0 then s1\<lparr>r_sendsInFlight := r_sendsInFlight s1 - 1\<rparr> else s1)
          in if \<not> r_stopping s2 then PumpSendLocked e s2 else s2)"

section \<open>The life of a query\<close>

definition abort_query :: "nat \<Rightarrow> resolver \<Rightarrow> resolver" where
  "abort_query h s =
     (let q = r_pqs s h;
          s1 = s\<lparr>r_byId := um_erase (pq_txid q) (r_byId s), r_byDomain := um_erase (pq_domain q) (r_byDomain s)\<rparr>;
          s2 = mod_pq h (\<lambda>q. q\<lparr>pq_callbacks := []\<rparr>) s1
      in deliver (pq_callbacks q) None s2)"

definition BeginUdpQueryLocked :: "dns_env \<Rightarrow> nat \<Rightarrow> resolver \<Rightarrow> resolver" where
  "BeginUdpQueryLocked e h s =
     (let s1 = mod_pq h (\<lambda>q. q\<lparr>pq_viaTcp := False, pq_udpAttempts := pq_udpAttempts q + 1\<rparr>) s;
          q = r_pqs s1 h
      in (case BuildQuery (pq_domain q) (pq_txid q) (pq_qtype q) of
            Inl ex \<Rightarrow> abort_query h s1
          | Inr query \<Rightarrow>
              let (armed, s2) = ArmTimerLocked e h s1
              in if \<not> armed then abort_query h s2 else EnqueueUdpSendLocked e query s2))"

definition RetryUdpQueryLocked :: "dns_env \<Rightarrow> nat \<Rightarrow> resolver \<Rightarrow> resolver" where
  "RetryUdpQueryLocked e h s =
     (let s1 = s\<lparr>r_byId := um_erase (pq_txid (r_pqs s h)) (r_byId s)\<rparr>;
          (txid, s2) = AllocTxidLocked e s1;
          s3 = mod_pq h (\<lambda>q. q\<lparr>pq_txid := txid, pq_tcp := None\<rparr>) s2;
          s4 = s3\<lparr>r_byId := um_set txid h (r_byId s3)\<rparr>
      in BeginUdpQueryLocked e h s4)"

definition FinishQuery :: "dns_env \<Rightarrow> int \<Rightarrow> nat \<Rightarrow> DnsResult \<Rightarrow> resolver \<Rightarrow> resolver" where
  "FinishQuery e now h result s =
     (let useCache = pq_useCache (r_pqs s h);
          s1 = CancelTimerLocked h s;
          q = r_pqs s1 h;
          s2 = s1\<lparr>r_byId := um_erase (pq_txid q) (r_byId s1), r_byDomain := um_erase (pq_domain q) (r_byDomain s1)\<rparr>;
          s3 = mod_pq h (\<lambda>q. q\<lparr>pq_tcp := None, pq_callbacks := []\<rparr>) s2;
          s4 = (if useCache then s3\<lparr>r_cache := Cache (de_names e) now (pq_domain q) result (r_cache s3)\<rparr> else s3)
      in deliver (pq_callbacks q) (dr_address result) s4)"

text \<open>\<^verbatim>\<open>TcpDnsQuery::Start\<close>: the socket is created, bound and associated, then connected.\<close>

definition TcpStart :: "dns_env \<Rightarrow> nat \<Rightarrow> resolver \<Rightarrow> bool \<times> resolver" where
  "TcpStart e t s =
     (if tq_done (r_tqs s t) then (False, s)
      else case FillOutputBindAddress (de_ws e) 0 (de_cfg e) of
        None \<Rightarrow> (False, s)
      | Some bindAddr \<Rightarrow>
          let (created, s1) = os_call e s
          in if \<not> created then (False, s1)
             else
               let s2 = mod_tq t (\<lambda>q. q\<lparr>tq_socket := True\<rparr>) s1;
                   (bound, s3) = os_call e s2
               in if \<not> bound then (False, emit [CloseTcp t] (mod_tq t (\<lambda>q. q\<lparr>tq_socket := False\<rparr>) s3))
                  else
                    let (assoc, s4) = os_call e s3
                    in if \<not> assoc then (False, emit [CloseTcp t] (mod_tq t (\<lambda>q. q\<lparr>tq_socket := False\<rparr>) s4))
                       else
                         let s5 = mod_tq t (\<lambda>q. q\<lparr>tq_phase := Phase_Connect\<rparr>) s4;
                             (posted, s6) = os_call e s5
                         in if posted then (True, emit [TcpConnect t (r_dnsAddr s6)] s6) else (False, s6))"

definition StartTcpFallback :: "dns_env \<Rightarrow> int \<Rightarrow> nat \<Rightarrow> resolver \<Rightarrow> resolver" where
  "StartTcpFallback e now h s =
     (case BuildQuery (pq_domain (r_pqs s h)) (pq_txid (r_pqs s h)) (pq_qtype (r_pqs s h)) of
        Inl ex \<Rightarrow> FinishQuery e now h DnsResult_Invalid s
      | Inr query \<Rightarrow>
          let s1 = mod_pq h (\<lambda>q. q\<lparr>pq_viaTcp := True\<rparr>) s;
              (timerArmed, s2) = ArmTimerLocked e h s1
          in if \<not> timerArmed then FinishQuery e now h DnsResult_Invalid s2
             else
               let t = r_nextTq s2;
                   q = r_pqs s2 h;
                   s3 = mod_tq t (\<lambda>_. blank_tq\<lparr>tq_txid := pq_txid q, tq_qtype := pq_qtype q, tq_query := query\<rparr>)
                          (s2\<lparr>r_nextTq := Suc t\<rparr>);
                   s4 = mod_pq h (\<lambda>q. q\<lparr>pq_tcp := Some t\<rparr>) s3;
                   (ok, s5) = TcpStart e t s4
               in if \<not> ok then FinishQuery e now h DnsResult_Invalid s5 else s5)"

definition retry_as_AAAA :: "dns_env \<Rightarrow> nat \<Rightarrow> resolver \<Rightarrow> resolver" where
  "retry_as_AAAA e h s =
     (let s1 = s\<lparr>r_byId := um_erase (pq_txid (r_pqs s h)) (r_byId s)\<rparr>;
          s2 = mod_pq h (\<lambda>q. q\<lparr>pq_qtype := 28\<rparr>) s1;
          (txid, s3) = AllocTxidLocked e s2;
          s4 = mod_pq h (\<lambda>q. q\<lparr>pq_txid := txid, pq_tryAAAA := False, pq_udpAttempts := 0, pq_tcp := None\<rparr>) s3;
          s5 = s4\<lparr>r_byId := um_set txid h (r_byId s4)\<rparr>
      in BeginUdpQueryLocked e h s5)"

text \<open>The second look-up of \<^verbatim>\<open>byId_\<close> in the source guards against another thread; within one
  handler it finds what the first one found.\<close>

definition OnQueryResult :: "dns_env \<Rightarrow> int \<Rightarrow> u16 \<Rightarrow> DnsResult \<Rightarrow> bool \<Rightarrow> bool \<Rightarrow> resolver \<Rightarrow> resolver" where
  "OnQueryResult e now txid result fromTcp isTimeout s =
     (case um_find (r_byId s) txid of
        None \<Rightarrow> s
      | Some h \<Rightarrow>
          if \<not> fromTcp \<and> \<not> isTimeout \<and> pq_viaTcp (r_pqs s h) then s
          else
            let s1 = CancelTimerLocked h s;
                q = r_pqs s1 h
            in if isTimeout \<and> \<not> fromTcp \<and> \<not> pq_viaTcp q then
                 (if pq_udpAttempts q < kMaxUdpAttempts then RetryUdpQueryLocked e h s1
                  else StartTcpFallback e now h s1)
               else if \<not> fromTcp \<and> dr_truncated result then
                 (if dr_address result \<noteq> None then FinishQuery e now h result s1
                  else StartTcpFallback e now h s1)
               else if dr_fromNetwork result \<and> dr_address result = None \<and> pq_tryAAAA q \<and> pq_qtype q = 1
                       \<and> \<not> dr_truncated result then retry_as_AAAA e h s1
               else FinishQuery e now h result s1)"

definition HandleUdpResponse :: "dns_env \<Rightarrow> int \<Rightarrow> bytes \<Rightarrow> sockaddr_storage \<Rightarrow> resolver \<Rightarrow> resolver" where
  "HandleUdpResponse e now data from s =
     (if length data < 12 then s
      else if \<not> SameEndpoint from (r_dnsAddr s) then s
      else
        let txid = be16 (data ! 0) (data ! 1)
        in (case um_find (r_byId s) txid of
              None \<Rightarrow> s
            | Some h \<Rightarrow>
                if pq_viaTcp (r_pqs s h) then s
                else case ParseResponse (de_ws e) data (pq_txid (r_pqs s h)) (pq_qtype (r_pqs s h)) of
                  Inl _ \<Rightarrow> s
                | Inr result \<Rightarrow>
                    if \<not> dr_fromNetwork result then s
                    else OnQueryResult e now txid result False False s))"


section \<open>The TCP fallback connection\<close>

definition tcp_close :: "nat \<Rightarrow> resolver \<Rightarrow> resolver" where
  "tcp_close t s =
     (let s1 = mod_tq t (\<lambda>q. q\<lparr>tq_done := True\<rparr>) s
      in if tq_socket (r_tqs s t) then emit [CloseTcp t] (mod_tq t (\<lambda>q. q\<lparr>tq_socket := False\<rparr>) s1) else s1)"

definition TcpFail :: "dns_env \<Rightarrow> int \<Rightarrow> nat \<Rightarrow> resolver \<Rightarrow> resolver" where
  "TcpFail e now t s =
     (if tq_done (r_tqs s t) then s
      else OnQueryResult e now (tq_txid (r_tqs s t)) DnsResult_Invalid True False (tcp_close t s))"

definition tcp_reply_length :: "bytes \<Rightarrow> nat" where
  "tcp_reply_length buf = unat (be16 (buf ! 0) (buf ! 1))"

definition CompleteBody :: "dns_env \<Rightarrow> int \<Rightarrow> nat \<Rightarrow> resolver \<Rightarrow> resolver" where
  "CompleteBody e now t s =
     (let q = r_tqs s t;
          s1 = tcp_close t s
      in (case ParseResponse (de_ws e) (take (tcp_reply_length (tq_recv q)) (drop 2 (tq_recv q))) (tq_txid q) (tq_qtype q) of
            Inl _ \<Rightarrow> s1
          | Inr result \<Rightarrow> OnQueryResult e now (tq_txid q) result True False s1))"

definition PostRecvMore :: "dns_env \<Rightarrow> nat \<Rightarrow> resolver \<Rightarrow> bool \<times> resolver" where
  "PostRecvMore e t s =
     (let q = r_tqs s t
      in if tq_need q \<le> length (tq_recv q) then (True, s)
         else let (ok, s1) = os_call e s
              in (ok, if ok then emit [TcpRecv t (tq_need q - length (tq_recv q))] s1 else s1))"

definition ContinueRecv :: "dns_env \<Rightarrow> int \<Rightarrow> nat \<Rightarrow> resolver \<Rightarrow> bool \<times> resolver" where
  "ContinueRecv e now t s =
     (let body = (\<lambda>s1. if length (tq_recv (r_tqs s1 t)) < tq_need (r_tqs s1 t) then PostRecvMore e t s1
                       else (True, CompleteBody e now t s1))
      in if tq_phase (r_tqs s t) = Phase_RecvLen then
           if length (tq_recv (r_tqs s t)) < 2 then PostRecvMore e t s
           else
             let n = tcp_reply_length (tq_recv (r_tqs s t))
             in if n \<le> 0 \<or> n > 65535 then (False, s)
                else body (mod_tq t (\<lambda>q. q\<lparr>tq_need := 2 + n, tq_phase := Phase_RecvBody\<rparr>) s)
         else body s)"

text \<open>\<open>data\<close> are the bytes the completed operation transferred, so \<^verbatim>\<open>bytes\<close> is their number.\<close>

definition TcpOnIoCompleted :: "dns_env \<Rightarrow> int \<Rightarrow> nat \<Rightarrow> bytes \<Rightarrow> bool \<Rightarrow> resolver \<Rightarrow> resolver" where
  "TcpOnIoCompleted e now t data error s =
     (if tq_done (r_tqs s t) then s
      else if error then TcpFail e now t s
      else case tq_phase (r_tqs s t) of
        Phase_Connect \<Rightarrow>
          let query = tq_query (r_tqs s t);
              buf = hi8 (word_of_nat (length query)) # lo8 (word_of_nat (length query)) # query;
              s1 = mod_tq t (\<lambda>q. q\<lparr>tq_sendBuf := buf, tq_phase := Phase_Send, tq_sendOffset := 0,
                                   tq_sendLength := length buf\<rparr>) s;
              (ok, s2) = os_call e s1
          in if ok then emit [TcpSend t buf] s2 else TcpFail e now t s2
      | Phase_Send \<Rightarrow>
          let q = r_tqs s t
          in if length data < tq_sendLength q then
               let next = tq_sendOffset q + length data;
                   left = tq_sendLength q - length data;
                   s1 = mod_tq t (\<lambda>q. q\<lparr>tq_sendOffset := next, tq_sendLength := left\<rparr>) s;
                   (ok, s2) = os_call e s1
               in if ok then emit [TcpSend t (take left (drop next (tq_sendBuf q)))] s2 else TcpFail e now t s2
             else
               let s1 = mod_tq t (\<lambda>q. q\<lparr>tq_need := 2, tq_recv := [], tq_phase := Phase_RecvLen\<rparr>) s;
                   (ok, s2) = os_call e s1
               in if ok then emit [TcpRecv t 65536] s2 else TcpFail e now t s2
      | _ \<Rightarrow>
          if data = [] then TcpFail e now t s
          else
            let s1 = mod_tq t (\<lambda>q. q\<lparr>tq_recv := tq_recv q @ data\<rparr>) s;
                (ok, s2) = ContinueRecv e now t s1
            in if ok then s2 else TcpFail e now t s2)"

section \<open>Entry points\<close>

definition FillDnsAddrFromServer :: "dns_env \<Rightarrow> resolver \<Rightarrow> bool \<times> resolver" where
  "FillDnsAddrFromServer e s =
     (case ParseIP (de_ws e) (de_server e) of
        None \<Rightarrow> (False, s)
      | Some (sa, family) \<Rightarrow>
          if family = AF_INET \<or> family = AF_INET6 then (True, s\<lparr>r_dnsAddr := set_port 53 sa\<rparr>)
          else (False, s\<lparr>r_dnsAddr := sa\<rparr>))"

definition close_udp :: "resolver \<Rightarrow> resolver" where
  "close_udp s = (if r_udpSocket s then emit [CloseUdp] (s\<lparr>r_udpSocket := False\<rparr>) else s)"

definition Start :: "dns_env \<Rightarrow> resolver \<Rightarrow> bool \<times> resolver" where
  "Start e s =
     (if r_started s then (True, s)
      else
        let failed = (\<lambda>s. (False, s\<lparr>r_started := False\<rparr>));
            (filled, s1) = FillDnsAddrFromServer e (s\<lparr>r_started := True, r_stopping := False\<rparr>)
        in if \<not> filled then failed s1
           else case FillOutputBindAddress (de_ws e) 0 (de_cfg e) of
             None \<Rightarrow> failed s1
           | Some bindAddr \<Rightarrow>
               if ss_family bindAddr \<noteq> ss_family (r_dnsAddr s1) then failed s1
               else
                 let (created, s2) = os_call e s1
                 in if \<not> created then failed (s2\<lparr>r_udpSocket := False\<rparr>)
                    else
                      let (bound, s3) = os_call e (s2\<lparr>r_udpSocket := True\<rparr>)
                      in if \<not> bound then failed (close_udp s3)
                         else
                           let (assoc, s4) = os_call e s3
                           in if \<not> assoc then failed (close_udp s4)
                              else
                                let (posted, s5) = os_call e (s4\<lparr>r_recvPosted := False\<rparr>)
                                in if \<not> posted then failed (close_udp s5)
                                   else (True, emit [UdpRecvFrom] (s5\<lparr>r_recvPosted := True\<rparr>)))"

definition ids_in_order :: "dns_env \<Rightarrow> resolver \<Rightarrow> nat list" where
  "ids_in_order e s = List.map_filter (um_find (r_byId s)) (de_ids e (map fst (r_byId s)))"

definition stop_query :: "nat \<Rightarrow> resolver \<Rightarrow> resolver" where
  "stop_query h s =
     mod_pq h (\<lambda>q. q\<lparr>pq_callbacks := [], pq_tcp := None\<rparr>) (deliver (pq_callbacks (r_pqs s h)) None s)"

text \<open>The final waits for outstanding operations block and change no state of the resolver.\<close>

definition Stop :: "dns_env \<Rightarrow> resolver \<Rightarrow> resolver" where
  "Stop e s =
     (if \<not> r_started s then s
      else
        let pending = ids_in_order e s;
            s1 = fold CancelTimerLocked pending (s\<lparr>r_stopping := True\<rparr>);
            s2 = s1\<lparr>r_byId := [], r_byDomain := [], r_pendingSends := []\<rparr>;
            tcpPins = List.map_filter (\<lambda>h. pq_tcp (r_pqs s2 h)) pending;
            s3 = fold stop_query pending s2;
            s4 = close_udp s3;
            s5 = fold tcp_close tcpPins s4
        in s5\<lparr>r_started := False\<rparr>)"

definition ResolveAsync :: "dns_env \<Rightarrow> int \<Rightarrow> string \<Rightarrow> nat option \<Rightarrow> bool \<Rightarrow> resolver \<Rightarrow> resolver" where
  "ResolveAsync e now domainRaw callback useCache s =
     (case callback of
        None \<Rightarrow> s
      | Some cb \<Rightarrow>
          if domainRaw = [] \<or> r_stopping s \<or> \<not> r_started s then deliver [cb] None s
          else
            let domain = ToLower domainRaw
            in (case (if useCache then TryGetCached now domain (r_cache s) else None) of
                  Some cached \<Rightarrow> deliver [cb] cached s
                | None \<Rightarrow>
                    (case um_find (r_byDomain s) domain of
                       Some h \<Rightarrow>
                         if length (pq_callbacks (r_pqs s h)) \<ge> kMaxCallbacksPerQuery then deliver [cb] None s
                         else mod_pq h (\<lambda>q. q\<lparr>pq_useCache := pq_useCache q \<and> useCache,
                                               pq_callbacks := pq_callbacks q @ [cb]\<rparr>) s
                     | None \<Rightarrow>
                         if length (r_byDomain s) \<ge> kMaxPendingQueries then deliver [cb] None s
                         else
                           let (txid, s1) = AllocTxidLocked e s;
                               h = r_nextPq s1;
                               s2 = mod_pq h (\<lambda>_. blank_pq\<lparr>pq_domain := domain, pq_txid := txid, pq_qtype := 1,
                                        pq_tryAAAA := OutputIPv6Available (de_cfg e), pq_useCache := useCache,
                                        pq_callbacks := [cb]\<rparr>) (s1\<lparr>r_nextPq := Suc h\<rparr>);
                               s3 = s2\<lparr>r_byId := um_set txid h (r_byId s2), r_byDomain := um_set domain h (r_byDomain s2)\<rparr>
                           in BeginUdpQueryLocked e h s3)))"

definition OnUserCompleted :: "dns_env \<Rightarrow> int \<Rightarrow> u64 \<Rightarrow> resolver \<Rightarrow> resolver" where
  "OnUserCompleted e now key s =
     (if drop_bit 32 key = kTimeoutKey
      then OnQueryResult e now (ucast (key AND 0xFFFF)) DnsResult_Invalid False True s
      else s)"

definition OnRecvFromCompleted :: "dns_env \<Rightarrow> int \<Rightarrow> bytes \<Rightarrow> bool \<Rightarrow> sockaddr_storage \<Rightarrow> resolver \<Rightarrow> resolver" where
  "OnRecvFromCompleted e now data error from s =
     (let s0 = s\<lparr>r_recvPosted := False\<rparr>;
          s1 = (if \<not> r_stopping s0 \<and> \<not> error \<and> data \<noteq> [] then HandleUdpResponse e now data from s0 else s0)
      in if \<not> r_stopping s1 \<and> r_udpSocket s1 then
           let (posted, s2) = os_call e s1
           in if posted then emit [UdpRecvFrom] (s2\<lparr>r_recvPosted := True\<rparr>)
              else
                let s3 = (close_udp s2)\<lparr>r_pendingSends := []\<rparr>;
                    fallback = filter (\<lambda>h. \<not> pq_viaTcp (r_pqs s3 h)) (ids_in_order e s3)
                in fold (StartTcpFallback e now) fallback s3
         else s1)"

datatype dns_event =
    EvStart
  | EvStop
  | EvResolve string "nat option" bool
  | EvUser u64
  | EvSendTo nat
  | EvRecvFrom bytes bool sockaddr_storage
  | EvTcp nat bytes bool

text \<open>\<^verbatim>\<open>OnIoCompleted\<close> of the resolver and of its TCP queries dispatch on the completed operation.\<close>

fun dns_step :: "dns_env \<Rightarrow> int \<times> dns_event \<Rightarrow> resolver \<Rightarrow> resolver" where
  "dns_step e (now, EvStart) s = snd (Start e s)"
| "dns_step e (now, EvStop) s = Stop e s"
| "dns_step e (now, EvResolve domain cb useCache) s = ResolveAsync e now domain cb useCache s"
| "dns_step e (now, EvUser key) s = OnUserCompleted e now key s"
| "dns_step e (now, EvSendTo ctx) s = OnUdpSendCompleted e ctx s"
| "dns_step e (now, EvRecvFrom data error from) s = OnRecvFromCompleted e now data error from s"
| "dns_step e (now, EvTcp t data error) s = TcpOnIoCompleted e now t data error s"

definition dns_run :: "dns_env \<Rightarrow> (int \<times> dns_event) list \<Rightarrow> resolver" where
  "dns_run e evs = fold (dns_step e) evs new_resolver"

section \<open>The send window of the resolver\<close>

lemma Pump_step:
  "r_sendsInFlight s < kMaxDnsSendsInFlight \<Longrightarrow> r_pendingSends s = x # xs \<Longrightarrow> r_udpSocket s \<Longrightarrow> \<not> r_stopping s \<Longrightarrow>
   de_ok e (r_calls s) \<Longrightarrow>
   PumpSendLocked e s = PumpSendLocked e (emit [UdpSendTo (ob_data x) (ob_to x)]
     (s\<lparr>r_calls := Suc (r_calls s), r_pendingSends := xs, r_inFlightSends := r_inFlightSends s @ [x],
        r_sendsInFlight := r_sendsInFlight s + 1\<rparr>))"
  by (subst PumpSendLocked.simps) (simp add: os_call_def)

lemma Pump_moves:
  "\<exists>k. k \<le> length (r_pendingSends s) \<and> (0 < k \<longrightarrow> r_sendsInFlight s + k \<le> kMaxDnsSendsInFlight) \<and>
     r_sendsInFlight (PumpSendLocked e s) = r_sendsInFlight s + k \<and>
     r_inFlightSends (PumpSendLocked e s) = r_inFlightSends s @ take k (r_pendingSends s) \<and>
     r_pendingSends (PumpSendLocked e s) = drop k (r_pendingSends s)"
proof (induction "length (r_pendingSends s)" arbitrary: s)
  case 0
  then show ?case by (intro exI [of _ 0]) (subst PumpSendLocked.simps, simp)+
next
  case (Suc n)
  then obtain x xs where xs: "r_pendingSends s = x # xs" by (cases "r_pendingSends s") auto
  show ?case
  proof (cases "r_sendsInFlight s < 16 \<and> r_udpSocket s \<and> \<not> r_stopping s \<and> de_ok e (r_calls s)")
    case False
    then show ?thesis
      by (intro exI [of _ 0]) (subst PumpSendLocked.simps, auto simp: os_call_def)+
  next
    case True
    let ?s = "emit [UdpSendTo (ob_data x) (ob_to x)]
     (s\<lparr>r_calls := Suc (r_calls s), r_pendingSends := xs, r_inFlightSends := r_inFlightSends s @ [x],
        r_sendsInFlight := r_sendsInFlight s + 1\<rparr>)"
    have n: "n = length (r_pendingSends ?s)" using Suc.hyps(2) xs by (simp add: emit_def)
    from Suc.hyps(1) [OF n] obtain k where
      k: "k \<le> length xs" "0 < k \<longrightarrow> r_sendsInFlight s + 1 + k \<le> 16"
      "r_sendsInFlight (PumpSendLocked e ?s) = r_sendsInFlight s + 1 + k"
      "r_inFlightSends (PumpSendLocked e ?s) = r_inFlightSends s @ x # take k xs"
      "r_pendingSends (PumpSendLocked e ?s) = drop k xs"
      by (auto simp: emit_def)
    show ?thesis
      using True k xs by (intro exI [of _ "Suc k"]) (auto simp: Pump_step)
  qed
qed

interpretation dns_window: send_window r_pendingSends r_inFlightSends r_sendsInFlight 16 4096
  "PumpSendLocked e" "EnqueueUdpSendLocked e" "\<lambda>d s x. ob_data x = d \<and> ob_to x = r_dnsAddr s" "OnUdpSendCompleted e" for e
proof
  show "(r_pendingSends (EnqueueUdpSendLocked e m s), r_inFlightSends (EnqueueUdpSendLocked e m s),
         r_sendsInFlight (EnqueueUdpSendLocked e m s)) = (r_pendingSends s, r_inFlightSends s, r_sendsInFlight s) \<or>
       (length (r_pendingSends s) < 4096 \<and>
        (\<exists>s1 x. EnqueueUdpSendLocked e m s = PumpSendLocked e s1 \<and> (ob_data x = m \<and> ob_to x = r_dnsAddr s) \<and>
                r_pendingSends s1 = r_pendingSends s @ [x] \<and> r_inFlightSends s1 = r_inFlightSends s \<and>
                r_sendsInFlight s1 = r_sendsInFlight s))" for m s
  proof (cases "\<not> r_udpSocket s \<or> length (r_pendingSends s) \<ge> 4096")
    case False
    let ?x = "\<lparr>ob_ctx = r_nextCtx s, ob_data = m, ob_to = r_dnsAddr s\<rparr>"
    from False show ?thesis
      by (intro disjI2 conjI exI [of _ "s\<lparr>r_pendingSends := r_pendingSends s @ [?x], r_nextCtx := Suc (r_nextCtx s)\<rparr>"]
          exI [of _ ?x]) (simp_all add: EnqueueUdpSendLocked_def)
  qed (auto simp: EnqueueUdpSendLocked_def)
  show "case erase_ctx c (r_inFlightSends s) of
          None \<Rightarrow> (r_pendingSends (OnUdpSendCompleted e c s), r_inFlightSends (OnUdpSendCompleted e c s),
                   r_sendsInFlight (OnUdpSendCompleted e c s)) = (r_pendingSends s, r_inFlightSends s, r_sendsInFlight s)
        | Some rest \<Rightarrow> (\<exists>s1. (OnUdpSendCompleted e c s = s1 \<or> OnUdpSendCompleted e c s = PumpSendLocked e s1) \<and>
                           r_pendingSends s1 = r_pendingSends s \<and> r_inFlightSends s1 = rest \<and>
                           r_sendsInFlight s1 = r_sendsInFlight s - 1)" for c s
  proof (cases "erase_ctx c (r_inFlightSends s)")
    case (Some rest)
    then show ?thesis
      by (auto simp: OnUdpSendCompleted_def Let_def
          intro!: exI [of _ "if r_sendsInFlight s > 0
            then s\<lparr>r_inFlightSends := rest, r_sendsInFlight := r_sendsInFlight s - 1\<rparr> else s\<lparr>r_inFlightSends := rest\<rparr>"])
  qed (simp add: OnUdpSendCompleted_def)
qed (rule Pump_moves)

end
