(* ===== verification/DnsLedger.thy ===== *)
theory DnsLedger
  imports DnsResolver
begin

text \<open>
  The bookkeeping of the resolver: the two indexes stay consistent, every callback is invoked
  exactly once, a transaction id can always be found, the queues stay within their limits, and a
  query whose timer keeps firing is settled after a bounded number of timeouts.
\<close>

section \<open>The ledger of registered queries and delivered callbacks\<close>

text \<open>
  \<open>ledger\<close> is the part of the state the bookkeeping theorems are about: the two indexes, the key
  fields and callbacks of every query object and the callbacks already invoked.  Most operations
  leave it alone; the others either close one query (\<open>abort_query\<close>, also what \<^verbatim>\<open>FinishQuery\<close> does
  to the ledger) or move one query to a fresh transaction id.
\<close>

named_theorems ledger_keeps "operations that leave the ledger alone"

definition pq_view :: "PendingQuery \<Rightarrow> u16 \<times> string \<times> nat list" where
  "pq_view q = (pq_txid q, pq_domain q, pq_callbacks q)"

fun delivered_cb :: "dns_act \<Rightarrow> nat list" where
  "delivered_cb (Deliver cb r) = [cb]"
| "delivered_cb _ = []"

definition delivered :: "resolver \<Rightarrow> nat list" where
  "delivered s = concat (map delivered_cb (r_out s))"

definition ledger ::
  "resolver \<Rightarrow> (u16, nat) umap \<times> (string, nat) umap \<times> nat \<times> (nat \<Rightarrow> u16 \<times> string \<times> nat list) \<times> nat list \<times> bool"
where
  "ledger s = (r_byId s, r_byDomain s, r_nextPq s, (\<lambda>h. pq_view (r_pqs s h)), delivered s, r_stuck s)"

lemma ledger_eqD:
  assumes "ledger s = ledger s'"
  shows "r_byId s = r_byId s'" "r_byDomain s = r_byDomain s'" "r_nextPq s = r_nextPq s'"
    "pq_txid (r_pqs s h) = pq_txid (r_pqs s' h)" "pq_domain (r_pqs s h) = pq_domain (r_pqs s' h)"
    "pq_callbacks (r_pqs s h) = pq_callbacks (r_pqs s' h)" "delivered s = delivered s'" "r_stuck s = r_stuck s'"
proof -
  have "pq_view (r_pqs s h) = pq_view (r_pqs s' h)"
    using assms by (auto simp: ledger_def dest: fun_cong [of _ _ h])
  then show "pq_txid (r_pqs s h) = pq_txid (r_pqs s' h)" "pq_domain (r_pqs s h) = pq_domain (r_pqs s' h)"
    "pq_callbacks (r_pqs s h) = pq_callbacks (r_pqs s' h)"
    by (auto simp: pq_view_def)
qed (use assms in \<open>auto simp: ledger_def\<close>)

lemma delivered_emit [simp]: "delivered (emit as s) = delivered s @ concat (map delivered_cb as)"
  by (simp add: delivered_def emit_def)



lemma ledger_emit [ledger_keeps]: "concat (map delivered_cb as) = [] \<Longrightarrow> ledger (emit as s) = ledger s"
  by (simp add: ledger_def) (simp add: emit_def)

lemma ledger_os_call [ledger_keeps]: "ledger (snd (os_call e s)) = ledger s"
  by (simp add: ledger_def os_call_def delivered_def)

lemma ledger_mod_pq [ledger_keeps]: "pq_view (f (r_pqs s h)) = pq_view (r_pqs s h) \<Longrightarrow> ledger (mod_pq h f s) = ledger s"
  by (auto simp: ledger_def mod_pq_def delivered_def)

lemma ledger_mod_tq [ledger_keeps]: "ledger (mod_tq t f s) = ledger s"
  by (simp add: ledger_def mod_tq_def delivered_def)

lemma ledger_CancelTimer [ledger_keeps]: "ledger (CancelTimerLocked h s) = ledger s"
  by (simp add: CancelTimerLocked_def ledger_keeps pq_view_def)

lemma ledger_frame [ledger_keeps]:
  "ledger (s\<lparr>r_calls := n\<rparr>) = ledger s" "ledger (s\<lparr>r_pendingSends := ps\<rparr>) = ledger s"
  "ledger (s\<lparr>r_inFlightSends := ps\<rparr>) = ledger s" "ledger (s\<lparr>r_sendsInFlight := n\<rparr>) = ledger s"
  "ledger (s\<lparr>r_nextCtx := n\<rparr>) = ledger s" "ledger (s\<lparr>r_nextTq := n\<rparr>) = ledger s"
  "ledger (s\<lparr>r_cache := c\<rparr>) = ledger s" "ledger (s\<lparr>r_recvPosted := b\<rparr>) = ledger s"
  "ledger (s\<lparr>r_udpSocket := b\<rparr>) = ledger s" "ledger (s\<lparr>r_started := b\<rparr>) = ledger s"
  "ledger (s\<lparr>r_stopping := b\<rparr>) = ledger s" "ledger (s\<lparr>r_dnsAddr := a\<rparr>) = ledger s"
  by (simp_all add: ledger_def delivered_def)

lemma ledger_ArmTimer [ledger_keeps]: "ledger (snd (ArmTimerLocked e h s)) = ledger s"
  by (simp add: ArmTimerLocked_def Let_def ledger_keeps pq_view_def)

lemma ledger_Pump [ledger_keeps]: "ledger (PumpSendLocked e s) = ledger s"
proof (induction e s rule: PumpSendLocked.induct)
  case (1 e s)
  show ?case
  proof (cases "r_sendsInFlight s < 16 \<and> r_pendingSends s \<noteq> [] \<and> r_udpSocket s \<and> \<not> r_stopping s")
    case True
    with 1 show ?thesis
      by (subst PumpSendLocked.simps) (auto simp: os_call_def Let_def ledger_keeps)
  qed (subst PumpSendLocked.simps, auto)
qed

lemma ledger_Enqueue [ledger_keeps]: "ledger (EnqueueUdpSendLocked e q s) = ledger s"
  by (simp add: EnqueueUdpSendLocked_def ledger_keeps)

lemma ledger_OnUdpSendCompleted [ledger_keeps]: "ledger (OnUdpSendCompleted e c s) = ledger s"
  by (simp add: OnUdpSendCompleted_def Let_def ledger_keeps split: option.split)

lemma ledger_TcpStart [ledger_keeps]: "ledger (snd (TcpStart e t s)) = ledger s"
  by (simp add: TcpStart_def Let_def ledger_keeps os_call_def split: option.split)

lemma ledger_close_udp [ledger_keeps]: "ledger (close_udp s) = ledger s"
  by (simp add: close_udp_def ledger_keeps)

lemma ledger_tcp_close [ledger_keeps]: "ledger (tcp_close t s) = ledger s"
  by (simp add: tcp_close_def Let_def ledger_keeps)

lemma ledger_PostRecvMore [ledger_keeps]: "ledger (snd (PostRecvMore e t s)) = ledger s"
  by (simp add: PostRecvMore_def Let_def ledger_keeps os_call_def)

lemma ledger_FillDnsAddr [ledger_keeps]: "ledger (snd (FillDnsAddrFromServer e s)) = ledger s"
  by (simp add: FillDnsAddrFromServer_def ledger_keeps split: option.split)

lemma ledger_Start [ledger_keeps]: "ledger (snd (Start e s)) = ledger s"
  by (simp add: Start_def Let_def split_def ledger_keeps if_distrib [of snd] if_distrib [of ledger]
      option.case_distrib [of snd] option.case_distrib [of ledger] split: option.split)

section \<open>Index consistency and the conservation of callbacks\<close>

definition index_ok :: "resolver \<Rightarrow> bool" where
  "index_ok s \<longleftrightarrow>
     um_wf (r_byId s) \<and> um_wf (r_byDomain s) \<and> length (r_byDomain s) \<le> kMaxPendingQueries \<and> \<not> r_stuck s \<and>
     (\<forall>(t, h)\<in>set (r_byId s). t \<noteq> 0 \<and> pq_txid (r_pqs s h) = t \<and> h < r_nextPq s \<and>
        um_find (r_byDomain s) (pq_domain (r_pqs s h)) = Some h \<and>
        pq_callbacks (r_pqs s h) \<noteq> [] \<and> length (pq_callbacks (r_pqs s h)) \<le> kMaxCallbacksPerQuery) \<and>
     (\<forall>(d, h)\<in>set (r_byDomain s). pq_domain (r_pqs s h) = d \<and> um_find (r_byId s) (pq_txid (r_pqs s h)) = Some h)"

definition registered :: "resolver \<Rightarrow> nat \<Rightarrow> bool" where
  "registered s h \<longleftrightarrow> um_find (r_byId s) (pq_txid (r_pqs s h)) = Some h"

definition owed :: "resolver \<Rightarrow> nat multiset" where
  "owed s = (\<Sum>(t, h)\<in>#mset (r_byId s). mset (pq_callbacks (r_pqs s h)))"

definition accounted :: "resolver \<Rightarrow> nat multiset" where
  "accounted s = owed s + mset (delivered s)"

lemma index_ok_iff:
  "index_ok s \<longleftrightarrow>
     um_wf (r_byId s) \<and> um_wf (r_byDomain s) \<and> length (r_byDomain s) \<le> kMaxPendingQueries \<and> \<not> r_stuck s \<and>
     (\<forall>t h. um_find (r_byId s) t = Some h \<longrightarrow> t \<noteq> 0 \<and> pq_txid (r_pqs s h) = t \<and> h < r_nextPq s \<and>
        um_find (r_byDomain s) (pq_domain (r_pqs s h)) = Some h \<and>
        pq_callbacks (r_pqs s h) \<noteq> [] \<and> length (pq_callbacks (r_pqs s h)) \<le> kMaxCallbacksPerQuery) \<and>
     (\<forall>d h. um_find (r_byDomain s) d = Some h \<longrightarrow>
        pq_domain (r_pqs s h) = d \<and> um_find (r_byId s) (pq_txid (r_pqs s h)) = Some h)"
proof (cases "um_wf (r_byId s) \<and> um_wf (r_byDomain s)")
  case True
  then have "\<And>k v. (k, v) \<in> set (r_byId s) \<longleftrightarrow> um_find (r_byId s) k = Some v"
    "\<And>k v. (k, v) \<in> set (r_byDomain s) \<longleftrightarrow> um_find (r_byDomain s) k = Some v"
    by (simp_all add: um_find_in_set)
  then show ?thesis unfolding index_ok_def by (simp add: split_beta Ball_def)
qed (auto simp: index_ok_def)

lemma index_ok_id:
  "index_ok s \<Longrightarrow> um_find (r_byId s) t = Some h \<Longrightarrow>
     t \<noteq> 0 \<and> pq_txid (r_pqs s h) = t \<and> h < r_nextPq s \<and> um_find (r_byDomain s) (pq_domain (r_pqs s h)) = Some h \<and>
     pq_callbacks (r_pqs s h) \<noteq> [] \<and> length (pq_callbacks (r_pqs s h)) \<le> kMaxCallbacksPerQuery"
  by (simp add: index_ok_iff)

lemma index_ok_dom:
  "index_ok s \<Longrightarrow> um_find (r_byDomain s) d = Some h \<Longrightarrow> pq_domain (r_pqs s h) = d \<and> registered s h"
  by (simp add: index_ok_iff registered_def)

lemma index_ok_wf: "index_ok s \<Longrightarrow> um_wf (r_byId s) \<and> um_wf (r_byDomain s)"
  by (simp add: index_ok_def)

lemma index_ok_cong: "ledger s' = ledger s \<Longrightarrow> index_ok s' = index_ok s"
  unfolding index_ok_iff by (simp only: ledger_eqD [of s' s])

lemma registered_cong: "ledger s' = ledger s \<Longrightarrow> registered s' h = registered s h"
  unfolding registered_def by (simp only: ledger_eqD [of s' s])

lemma total_cong: "ledger s' = ledger s \<Longrightarrow> accounted s' = accounted s"
  unfolding accounted_def owed_def by (simp only: ledger_eqD [of s' s])

lemma registered_index: "index_ok s \<Longrightarrow> um_find (r_byId s) t = Some h \<Longrightarrow> registered s h \<and> pq_txid (r_pqs s h) = t"
  by (simp add: index_ok_iff registered_def)

lemma owed_other_pq:
  assumes "\<And>t. (t, h) \<notin> set m"
  shows "(\<Sum>(t, h')\<in>#mset m. mset (pq_callbacks (((r_pqs s)(h := q)) h'))) = (\<Sum>(t, h')\<in>#mset m. mset (pq_callbacks (r_pqs s h')))"
  using assms by (intro arg_cong [of _ _ sum_mset] image_mset_cong) (auto split: prod.splits)

lemma erased_handle: "index_ok s \<Longrightarrow> registered s h \<Longrightarrow> (t, h) \<notin> set (um_erase (pq_txid (r_pqs s h)) (r_byId s))"
  using um_find_in_set [of "um_erase (pq_txid (r_pqs s h)) (r_byId s)" t h] index_ok_id [of s t h]
  by (auto simp: index_ok_wf split: if_splits)

lemma owed_registered:
  "index_ok s \<Longrightarrow> registered s h \<Longrightarrow>
   owed s = mset (pq_callbacks (r_pqs s h)) +
     (\<Sum>(t, h')\<in>#mset (um_erase (pq_txid (r_pqs s h)) (r_byId s)). mset (pq_callbacks (r_pqs s h')))"
  using um_mset_erase [of "r_byId s" "pq_txid (r_pqs s h)" h] by (simp add: owed_def registered_def index_ok_wf)

lemma abort_query_fields:
  "r_byId (abort_query h s) = um_erase (pq_txid (r_pqs s h)) (r_byId s)"
  "r_byDomain (abort_query h s) = um_erase (pq_domain (r_pqs s h)) (r_byDomain s)"
  "r_pqs (abort_query h s) = (r_pqs s)(h := (r_pqs s h)\<lparr>pq_callbacks := []\<rparr>)"
  "r_nextPq (abort_query h s) = r_nextPq s" "r_stuck (abort_query h s) = r_stuck s"
  by (simp_all add: abort_query_def Let_def mod_pq_def deliver_def emit_def)

lemma delivered_deliver [simp]: "delivered (deliver cbs r s) = delivered s @ cbs"
  by (induction cbs) (simp_all add: deliver_def delivered_def emit_def)

lemma delivered_abort [simp]: "delivered (abort_query h s) = delivered s @ pq_callbacks (r_pqs s h)"
  by (simp add: abort_query_def Let_def) (simp add: delivered_def mod_pq_def)

lemma abort_total:
  assumes "index_ok s" and "registered s h"
  shows "accounted (abort_query h s) = accounted s"
  unfolding accounted_def owed_registered [OF assms]
  unfolding owed_def abort_query_fields owed_other_pq [OF erased_handle [OF assms]] delivered_abort
  by simp

lemma abort_index_ok:
  assumes ok: "index_ok s" and reg: "registered s h"
  shows "index_ok (abort_query h s)"
proof -
  let ?q = "r_pqs s h"
  have "um_find (r_byId s) (pq_txid ?q) = Some h" using reg by (simp add: registered_def)
  note q = index_ok_id [OF ok this] this
  have other_id: "h' \<noteq> h \<and> pq_domain (r_pqs s h') \<noteq> pq_domain ?q"
    if "um_find (r_byId s) t = Some h'" "t \<noteq> pq_txid ?q" for t h'
    using index_ok_id [OF ok that(1)] q that(2) by (metis option.inject)
  have other_dom: "h' \<noteq> h \<and> pq_txid (r_pqs s h') \<noteq> pq_txid ?q"
    if "um_find (r_byDomain s) d = Some h'" "d \<noteq> pq_domain ?q" for d h'
    using index_ok_dom [OF ok that(1)] q that(2) unfolding registered_def by (metis option.inject)
  have "length (um_erase (pq_domain ?q) (r_byDomain s)) \<le> kMaxPendingQueries"
    using ok um_size_erase_le [of "pq_domain ?q" "r_byDomain s"] by (auto simp: index_ok_def simp del: um_size_erase_le)
  then show ?thesis
    using ok other_id other_dom by (auto simp: index_ok_iff abort_query_fields)
qed

lemma abort_registered:
  "index_ok s \<Longrightarrow> registered s h \<Longrightarrow> registered (abort_query h s) h' \<longleftrightarrow> registered s h' \<and> h' \<noteq> h"
  by (auto simp: registered_def abort_query_fields)

lemma abort_ledger_cong: "ledger s' = ledger s \<Longrightarrow> ledger (abort_query h s') = ledger (abort_query h s)"
  by (auto simp: ledger_def [of "abort_query h s"] ledger_def [of "abort_query h s'"] abort_query_fields
      ledger_eqD [of s' s] pq_view_def)

section \<open>How the operations move the ledger\<close>

text \<open>A query is either left as it is or closed.\<close>

definition keeps_or_closes :: "nat \<Rightarrow> resolver \<Rightarrow> resolver \<Rightarrow> bool" where
  "keeps_or_closes h s s' \<longleftrightarrow> ledger s' = ledger s \<or> ledger s' = ledger (abort_query h s)"

lemma ledger_mod_callbacks:
  "ledger (mod_pq h (\<lambda>q. q\<lparr>pq_tcp := t, pq_callbacks := cs\<rparr>) s) = ledger (mod_pq h (\<lambda>q. q\<lparr>pq_callbacks := cs\<rparr>) s)"
  by (auto simp: ledger_def mod_pq_def pq_view_def delivered_def)

lemma ledger_deliver:
  "ledger s = ledger s' \<Longrightarrow> ledger (deliver cbs r s) = ledger (deliver cbs r' s')"
  using delivered_deliver [of cbs r s] delivered_deliver [of cbs r' s'] ledger_eqD(7) [of s s']
  by (simp add: ledger_def) (simp add: deliver_def emit_def)

lemma ledger_Finish: "ledger (FinishQuery e now h r s) = ledger (abort_query h s)"
proof -
  let ?s1 = "CancelTimerLocked h s"
  have "ledger (FinishQuery e now h r s) = ledger (abort_query h ?s1)"
    by (auto simp: FinishQuery_def abort_query_def Let_def ledger_keeps ledger_mod_callbacks intro!: ledger_deliver)
  then show ?thesis by (simp add: abort_ledger_cong [OF ledger_CancelTimer])
qed

lemma keeps_or_closes_refl [simp]: "ledger s' = ledger s \<Longrightarrow> keeps_or_closes h s s'"
  by (simp add: keeps_or_closes_def)

lemma keeps_then_closes: "ledger s1 = ledger s \<Longrightarrow> keeps_or_closes h s (abort_query h s1)"
  unfolding keeps_or_closes_def by (rule disjI2, rule abort_ledger_cong)

lemma keeps_then_finishes: "ledger s1 = ledger s \<Longrightarrow> keeps_or_closes h s (FinishQuery e now h r s1)"
  unfolding keeps_or_closes_def ledger_Finish by (rule disjI2, rule abort_ledger_cong)

lemma keeps_or_closes_pre: "ledger s1 = ledger s \<Longrightarrow> keeps_or_closes h s1 s' \<Longrightarrow> keeps_or_closes h s s'"
  using abort_ledger_cong [of s1 s h] unfolding keeps_or_closes_def by (metis (no_types))

lemma Begin_keeps_or_closes: "keeps_or_closes h s (BeginUdpQueryLocked e h s)"
  unfolding BeginUdpQueryLocked_def Let_def split_def
  by (auto split: sum.split intro!: keeps_then_closes simp: ledger_keeps pq_view_def)

lemma TcpFallback_keeps_or_closes: "keeps_or_closes h s (StartTcpFallback e now h s)"
  unfolding StartTcpFallback_def Let_def split_def
  by (auto split: sum.split intro!: keeps_then_finishes simp: ledger_keeps pq_view_def)

lemma keeps_or_closes_ok:
  assumes "keeps_or_closes h s s'" and "index_ok s" and "registered s h"
  shows "index_ok s' \<and> accounted s' = accounted s \<and> (\<forall>h'. h' \<noteq> h \<longrightarrow> registered s' h' = registered s h')"
  using assms(1) [unfolded keeps_or_closes_def]
proof
  assume "ledger s' = ledger s"
  note e = index_ok_cong [OF this] total_cong [OF this] registered_cong [OF this]
  show ?thesis using assms(2) by (simp add: e)
next
  assume "ledger s' = ledger (abort_query h s)"
  note e = index_ok_cong [OF this] total_cong [OF this] registered_cong [OF this]
  show ?thesis
    using abort_index_ok [OF assms(2,3)] abort_total [OF assms(2,3)] abort_registered [OF assms(2,3)]
    by (simp add: e)
qed


subsection \<open>A fresh transaction id always exists\<close>

lemma alloc_random_cases:
  "i < 10000 \<Longrightarrow> de_rng e (r_draws s) \<noteq> 0 \<Longrightarrow> um_find (r_byId s) (de_rng e (r_draws s)) = None \<Longrightarrow>
     alloc_random e i s = (Some (de_rng e (r_draws s)), s\<lparr>r_draws := Suc (r_draws s)\<rparr>)"
  "i < 10000 \<Longrightarrow> de_rng e (r_draws s) = 0 \<or> um_find (r_byId s) (de_rng e (r_draws s)) \<noteq> None \<Longrightarrow>
     alloc_random e i s = alloc_random e (Suc i) (s\<lparr>r_draws := Suc (r_draws s)\<rparr>)"
  "\<not> i < 10000 \<Longrightarrow> alloc_random e i s = (None, s)"
  by (subst alloc_random.simps, auto simp: Let_def)+

lemma alloc_seq_cases:
  "i < 65536 \<Longrightarrow> (ucast (r_idSeq s) :: u16) \<noteq> 0 \<Longrightarrow> um_find (r_byId s) (ucast (r_idSeq s)) = None \<Longrightarrow>
     alloc_seq i s = (Some (ucast (r_idSeq s)), s\<lparr>r_idSeq := r_idSeq s + 1\<rparr>)"
  "i < 65536 \<Longrightarrow> (ucast (r_idSeq s) :: u16) = 0 \<or> um_find (r_byId s) (ucast (r_idSeq s)) \<noteq> None \<Longrightarrow>
     alloc_seq i s = alloc_seq (Suc i) (s\<lparr>r_idSeq := r_idSeq s + 1\<rparr>)"
  "\<not> i < 65536 \<Longrightarrow> alloc_seq i s = (None, s)"
  by (subst alloc_seq.simps, auto simp: Let_def)+

lemma alloc_random_spec:
  "alloc_random e i s = (r, s') \<Longrightarrow>
     (\<exists>n. s' = s\<lparr>r_draws := n\<rparr>) \<and> (\<forall>t. r = Some t \<longrightarrow> t \<noteq> 0 \<and> um_find (r_byId s) t = None)"
proof (induction "10000 - i" arbitrary: i s)
  case 0
  then have "s' = s\<lparr>r_draws := r_draws s\<rparr>" "r = None" by (simp_all add: alloc_random_cases(3))
  then show ?case by blast
next
  case (Suc n)
  then have i: "i < 10000" "n = 10000 - Suc i" by auto
  show ?case
  proof (cases "de_rng e (r_draws s) = 0 \<or> um_find (r_byId s) (de_rng e (r_draws s)) \<noteq> None")
    case True
    with Suc.prems have "alloc_random e (Suc i) (s\<lparr>r_draws := Suc (r_draws s)\<rparr>) = (r, s')"
      by (simp add: alloc_random_cases(2) [OF i(1)])
    from Suc.hyps(1) [OF i(2) this] show ?thesis by simp
  next
    case False
    then have "s' = s\<lparr>r_draws := Suc (r_draws s)\<rparr>" "r = Some (de_rng e (r_draws s))"
      using Suc.prems by (simp_all add: alloc_random_cases(1) [OF i(1)])
    with False show ?thesis by auto
  qed
qed

definition taken :: "resolver \<Rightarrow> u16 \<Rightarrow> bool" where
  "taken s t \<longleftrightarrow> t = 0 \<or> um_find (r_byId s) t \<noteq> None"

lemma alloc_seq_spec:
  "alloc_seq i s = (r, s') \<Longrightarrow>
     (\<exists>n. s' = s\<lparr>r_idSeq := n\<rparr>) \<and> (\<forall>t. r = Some t \<longrightarrow> \<not> taken s t) \<and>
     (r = None \<longrightarrow> (\<forall>k < 65536 - i. taken s (ucast (r_idSeq s + word_of_nat k))))"
proof (induction "65536 - i" arbitrary: i s)
  case 0
  then have "s' = s\<lparr>r_idSeq := r_idSeq s\<rparr>" "r = None" "65536 - i = 0" by (simp_all add: alloc_seq_cases(3))
  then show ?case by (intro conjI exI [of _ "r_idSeq s"]) simp_all
next
  case (Suc n)
  then have i: "i < 65536" "n = 65536 - Suc i" by auto
  show ?case
  proof (cases "taken s (ucast (r_idSeq s))")
    case True
    with Suc.prems have "alloc_seq (Suc i) (s\<lparr>r_idSeq := r_idSeq s + 1\<rparr>) = (r, s')"
      by (simp add: alloc_seq_cases(2) [OF i(1)] taken_def)
    note IH = Suc.hyps(1) [OF i(2) this]
    have "taken s (ucast (r_idSeq s + word_of_nat k))" if "r = None" "k < 65536 - i" for k
      using IH that True i by (cases k) (auto simp: taken_def algebra_simps)
    with IH show ?thesis by (auto simp: taken_def)
  next
    case False
    then have "s' = s\<lparr>r_idSeq := r_idSeq s + 1\<rparr>" "r = Some (ucast (r_idSeq s))"
      using Suc.prems by (simp_all add: alloc_seq_cases(1) [OF i(1)] taken_def)
    with False show ?thesis by auto
  qed
qed

lemma ucast_add_u16: "(ucast (a + b :: u32) :: u16) = ucast a + ucast b"
proof -
  have "uint (ucast (a + b) :: u16) = uint (ucast a + ucast b :: u16)"
    by (simp add: unsigned_ucast_eq uint_word_ariths take_bit_eq_mod mod_mod_cancel mod_add_eq)
  then show ?thesis by (rule word_uint_eqI)
qed

lemma sequence_covers: "\<exists>k < 65536. (ucast (a + word_of_nat k :: u32) :: u16) = t"
proof (intro exI conjI)
  let ?k = "unat (t - ucast a :: u16)"
  show "?k < 65536" by simp
  have "(ucast (ucast x :: u32) :: u16) = x" for x :: u16
    by (rule bit_word_eqI) (simp add: bit_simps)
  then show "(ucast (a + word_of_nat ?k :: u32) :: u16) = t" by (simp add: ucast_add_u16)
qed

lemma free_id_exists:
  assumes "length (r_byId s) < 65535"
  shows "\<exists>t. \<not> taken s t"
proof (rule ccontr)
  assume "\<not> ?thesis"
  then have "UNIV - {0} \<subseteq> fst ` set (r_byId s)"
    by (auto simp: taken_def map_of_eq_None_iff)
  then have "card (UNIV - {0 :: u16}) \<le> card (fst ` set (r_byId s))" by (intro card_mono) auto
  also have "\<dots> \<le> length (r_byId s)"
    by (metis card_length length_map list.set_map)
  finally show False using assms by (simp add: card_word)
qed

lemma Alloc_spec:
  assumes "AllocTxidLocked e s = (t, s')" and "length (r_byId s) < 65535"
  shows "\<not> taken s t \<and> (\<exists>n m. s' = s\<lparr>r_draws := n, r_idSeq := m\<rparr>)"
proof -
  obtain r s1 where a: "alloc_random e 0 s = (r, s1)" by fastforce
  from alloc_random_spec [OF this] obtain n where s1: "s1 = s\<lparr>r_draws := n\<rparr>"
    and r: "\<And>t. r = Some t \<Longrightarrow> \<not> taken s t" by (auto simp: taken_def)
  show ?thesis
  proof (cases r)
    case (Some t')
    then have "t = t'" "s' = s\<lparr>r_draws := n, r_idSeq := r_idSeq s\<rparr>"
      using assms(1) a s1 by (auto simp: AllocTxidLocked_def)
    with r Some show ?thesis by blast
  next
    case None
    obtain r2 s2 where b: "alloc_seq 0 s1 = (r2, s2)" by fastforce
    note sq = alloc_seq_spec [OF b]
    have "r2 \<noteq> None"
    proof
      assume "r2 = None"
      then have "\<forall>k < 65536. taken s (ucast (r_idSeq s + word_of_nat k))"
        using sq s1 by (simp add: taken_def)
      then have "taken s t" for t using sequence_covers [of "r_idSeq s" t] by auto
      with free_id_exists [OF assms(2)] show False by blast
    qed
    with None a b assms(1) have "r2 = Some t" "s' = s2" by (auto simp: AllocTxidLocked_def)
    with sq s1 show ?thesis by (auto simp: taken_def)
  qed
qed

lemma byId_size: "index_ok s \<Longrightarrow> length (r_byId s) \<le> kMaxPendingQueries"
proof -
  assume ok: "index_ok s"
  let ?f = "\<lambda>t. pq_domain (r_pqs s (the (um_find (r_byId s) t)))"
  have key: "um_find (r_byDomain s) (?f t) = um_find (r_byId s) t" if "t \<in> fst ` set (r_byId s)" for t
  proof -
    from that obtain h where h: "um_find (r_byId s) t = Some h"
      by (cases "um_find (r_byId s) t") (simp_all add: map_of_eq_None_iff)
    show ?thesis unfolding h option.sel using index_ok_id [OF ok h] by blast
  qed
  have inj: "inj_on ?f (fst ` set (r_byId s))"
  proof (rule inj_onI)
    fix t t' assume t: "t \<in> fst ` set (r_byId s)" "t' \<in> fst ` set (r_byId s)" "?f t = ?f t'"
    then have "um_find (r_byId s) t = um_find (r_byId s) t'" using key [OF t(1)] key [OF t(2)] by metis
    moreover from t(1) obtain h where "um_find (r_byId s) t = Some h"
      by (cases "um_find (r_byId s) t") (simp_all add: map_of_eq_None_iff)
    ultimately show "t = t'" using index_ok_id [OF ok, of t h] index_ok_id [OF ok, of t' h] by metis
  qed
  have sub: "?f ` fst ` set (r_byId s) \<subseteq> fst ` set (r_byDomain s)"
  proof
    fix d assume "d \<in> ?f ` fst ` set (r_byId s)"
    then obtain t where t: "t \<in> fst ` set (r_byId s)" "d = ?f t" by blast
    then have "um_find (r_byDomain s) d \<noteq> None" using key [of t] by (simp add: map_of_eq_None_iff)
    then show "d \<in> fst ` set (r_byDomain s)" by (simp add: map_of_eq_None_iff)
  qed
  have "length (r_byId s) \<le> card (fst ` set (r_byDomain s))"
    using um_size_le_card [OF _ inj sub] index_ok_wf [OF ok] by simp
  also have "\<dots> \<le> length (r_byDomain s)" by (metis card_length length_map list.set_map)
  also have "\<dots> \<le> kMaxPendingQueries" using ok by (simp add: index_ok_def)
  finally show ?thesis .
qed

subsection \<open>Moving a query to a fresh transaction id\<close>

definition rekey :: "nat \<Rightarrow> u16 \<Rightarrow> resolver \<Rightarrow> resolver" where
  "rekey h t s = (mod_pq h (\<lambda>q. q\<lparr>pq_txid := t\<rparr>) s)\<lparr>r_byId := um_set t h (um_erase (pq_txid (r_pqs s h)) (r_byId s))\<rparr>"

lemma rekey_fields:
  "r_byId (rekey h t s) = um_set t h (um_erase (pq_txid (r_pqs s h)) (r_byId s))"
  "r_byDomain (rekey h t s) = r_byDomain s" "r_nextPq (rekey h t s) = r_nextPq s"
  "r_pqs (rekey h t s) = (r_pqs s)(h := (r_pqs s h)\<lparr>pq_txid := t\<rparr>)"
  "r_stuck (rekey h t s) = r_stuck s" "delivered (rekey h t s) = delivered s"
  by (simp_all add: rekey_def mod_pq_def delivered_def)

lemma rekey_index_ok:
  assumes ok: "index_ok s" and reg: "registered s h" and t: "t \<noteq> 0"
    and fresh: "um_find (um_erase (pq_txid (r_pqs s h)) (r_byId s)) t = None"
  shows "index_ok (rekey h t s)"
proof -
  let ?q = "r_pqs s h" and ?m = "um_erase (pq_txid (r_pqs s h)) (r_byId s)"
  have "um_find (r_byId s) (pq_txid ?q) = Some h" using reg by (simp add: registered_def)
  note q = index_ok_id [OF ok this] this
  have id: "h' \<noteq> h \<and> t' \<noteq> pq_txid ?q \<and> um_find (r_byId s) t' = Some h'"
    if "um_find ?m t' = Some h'" for t' h'
    using that index_ok_id [OF ok, of t' h'] by (auto split: if_splits)
  have dom: "h' \<noteq> h \<longrightarrow> pq_txid (r_pqs s h') \<noteq> t \<and> um_find ?m (pq_txid (r_pqs s h')) = Some h'"
    if "um_find (r_byDomain s) d = Some h'" for d h'
  proof
    assume "h' \<noteq> h"
    moreover have r: "um_find (r_byId s) (pq_txid (r_pqs s h')) = Some h'"
      using index_ok_dom [OF ok that] by (simp add: registered_def)
    ultimately have "pq_txid (r_pqs s h') \<noteq> pq_txid ?q" using q by (metis option.inject)
    with r have m: "um_find ?m (pq_txid (r_pqs s h')) = Some h'" by simp
    with fresh show "pq_txid (r_pqs s h') \<noteq> t \<and> um_find ?m (pq_txid (r_pqs s h')) = Some h'" by (metis option.discI)
  qed
  have byId: "t' \<noteq> 0 \<and> pq_txid (r_pqs (rekey h t s) h') = t' \<and> h' < r_nextPq s \<and>
      um_find (r_byDomain s) (pq_domain (r_pqs (rekey h t s) h')) = Some h' \<and>
      pq_callbacks (r_pqs (rekey h t s) h') \<noteq> [] \<and> length (pq_callbacks (r_pqs (rekey h t s) h')) \<le> kMaxCallbacksPerQuery"
    if "um_find (um_set t h ?m) t' = Some h'" for t' h'
  proof (cases "t' = t")
    case True
    with that have "h' = h" by simp
    with True q t show ?thesis by (simp add: rekey_fields)
  next
    case False
    with that have "um_find ?m t' = Some h'" by simp
    from id [OF this] show ?thesis using index_ok_id [OF ok, of t' h'] by (simp add: rekey_fields)
  qed
  have byDom: "pq_domain (r_pqs (rekey h t s) h') = d \<and> um_find (um_set t h ?m) (pq_txid (r_pqs (rekey h t s) h')) = Some h'"
    if "um_find (r_byDomain s) d = Some h'" for d h'
    using index_ok_dom [OF ok that] dom [OF that] by (cases "h' = h") (simp_all add: rekey_fields)
  show ?thesis
    unfolding index_ok_iff rekey_fields(1-3,5)
    using ok byId byDom by (auto simp: index_ok_def)
qed

lemma rekey_total:
  assumes ok: "index_ok s" and reg: "registered s h"
    and fresh: "um_find (um_erase (pq_txid (r_pqs s h)) (r_byId s)) t = None"
  shows "accounted (rekey h t s) = accounted s"
  unfolding accounted_def owed_registered [OF ok reg]
  unfolding owed_def rekey_fields um_mset_set_new [OF fresh]
  using owed_other_pq [OF erased_handle [OF ok reg], of s "(r_pqs s h)\<lparr>pq_txid := t\<rparr>"] by simp

lemma rekey_registered: "registered (rekey h t s) h"
  by (simp add: registered_def rekey_fields)

lemma Alloc_ledger:
  assumes "AllocTxidLocked e s = (t, s')" and "length (r_byId s) \<le> kMaxPendingQueries"
  shows "t \<noteq> 0" "um_find (r_byId s) t = None" "ledger s' = ledger s" "r_pqs s' = r_pqs s" "r_nextPq s' = r_nextPq s"
    "r_byId s' = r_byId s" "r_byDomain s' = r_byDomain s"
  using Alloc_spec [OF assms(1)] assms(2) by (auto simp: taken_def ledger_def delivered_def)

lemma ledger_rekey:
  assumes "AllocTxidLocked e (s\<lparr>r_byId := m\<rparr>) = (t, s2)" and "length m \<le> kMaxPendingQueries"
    and "m = um_erase (pq_txid (r_pqs s h)) (r_byId s)"
    and "\<And>q. pq_view (f q) = (t, pq_domain q, pq_callbacks q)"
  shows "ledger ((mod_pq h f s2)\<lparr>r_byId := um_set t h (r_byId (mod_pq h f s2))\<rparr>) = ledger (rekey h t s)"
proof -
  from Alloc_spec [OF assms(1)] assms(2) obtain n k where "s2 = s\<lparr>r_byId := m, r_draws := n, r_idSeq := k\<rparr>" by auto
  then show ?thesis
    using assms(3,4) by (auto simp: rekey_def ledger_def mod_pq_def delivered_def pq_view_def)
qed

lemma erase_size: "index_ok s \<Longrightarrow> length (um_erase t (r_byId s)) \<le> kMaxPendingQueries"
  using byId_size [of s] um_size_erase_le [of t "r_byId s"] by linarith

definition rekeys_then :: "nat \<Rightarrow> resolver \<Rightarrow> resolver \<Rightarrow> bool" where
  "rekeys_then h s s' \<longleftrightarrow>
     (\<exists>t. t \<noteq> 0 \<and> um_find (um_erase (pq_txid (r_pqs s h)) (r_byId s)) t = None \<and> keeps_or_closes h (rekey h t s) s')"

lemma Retry_rekeys:
  assumes "index_ok s"
  shows "rekeys_then h s (RetryUdpQueryLocked e h s)"
proof -
  let ?m = "um_erase (pq_txid (r_pqs s h)) (r_byId s)"
  obtain t s2 where a: "AllocTxidLocked e (s\<lparr>r_byId := ?m\<rparr>) = (t, s2)" by fastforce
  let ?s4 = "(mod_pq h (\<lambda>q. q\<lparr>pq_txid := t, pq_tcp := None\<rparr>) s2)"
  have l: "ledger (?s4\<lparr>r_byId := um_set t h (r_byId ?s4)\<rparr>) = ledger (rekey h t s)"
    by (rule ledger_rekey [OF a erase_size [OF assms] refl]) (simp add: pq_view_def)
  have "RetryUdpQueryLocked e h s = BeginUdpQueryLocked e h (?s4\<lparr>r_byId := um_set t h (r_byId ?s4)\<rparr>)"
    by (simp add: RetryUdpQueryLocked_def a Let_def)
  moreover have "t \<noteq> 0" "um_find ?m t = None"
    using Alloc_ledger(1,2) [OF a] erase_size [OF assms] by simp_all
  ultimately show ?thesis
    unfolding rekeys_then_def using keeps_or_closes_pre [OF l Begin_keeps_or_closes] by metis
qed

lemma AAAA_rekeys:
  assumes "index_ok s"
  shows "rekeys_then h s (retry_as_AAAA e h s)"
proof -
  let ?m = "um_erase (pq_txid (r_pqs s h)) (r_byId s)" and ?s0 = "mod_pq h (\<lambda>q. q\<lparr>pq_qtype := 28\<rparr>) s"
  have s0: "ledger ?s0 = ledger s" by (simp add: ledger_mod_pq pq_view_def)
  have m: "?m = um_erase (pq_txid (r_pqs ?s0 h)) (r_byId ?s0)" by (simp add: mod_pq_def)
  have eq: "mod_pq h (\<lambda>q. q\<lparr>pq_qtype := 28\<rparr>) (s\<lparr>r_byId := ?m\<rparr>) = ?s0\<lparr>r_byId := ?m\<rparr>" by (simp add: mod_pq_def)
  obtain t s2 where a: "AllocTxidLocked e (?s0\<lparr>r_byId := ?m\<rparr>) = (t, s2)" by fastforce
  let ?s4 = "(mod_pq h (\<lambda>q. q\<lparr>pq_txid := t, pq_tryAAAA := False, pq_udpAttempts := 0, pq_tcp := None\<rparr>) s2)"
  have "ledger (?s4\<lparr>r_byId := um_set t h (r_byId ?s4)\<rparr>) = ledger (rekey h t ?s0)"
    by (rule ledger_rekey [OF a erase_size [OF assms] m]) (simp add: pq_view_def)
  also have "\<dots> = ledger (rekey h t s)"
    by (auto simp: ledger_def rekey_def mod_pq_def pq_view_def delivered_def)
  finally have l: "ledger (?s4\<lparr>r_byId := um_set t h (r_byId ?s4)\<rparr>) = ledger (rekey h t s)" .
  have "retry_as_AAAA e h s = BeginUdpQueryLocked e h (?s4\<lparr>r_byId := um_set t h (r_byId ?s4)\<rparr>)"
    by (simp add: retry_as_AAAA_def eq a Let_def)
  moreover have "t \<noteq> 0" "um_find ?m t = None"
    using Alloc_ledger(1,2) [OF a] erase_size [OF assms] by simp_all
  ultimately show ?thesis
    unfolding rekeys_then_def using keeps_or_closes_pre [OF l Begin_keeps_or_closes] by metis
qed

lemma rekeys_then_ok:
  assumes "rekeys_then h s s'" and "index_ok s" and "registered s h"
  shows "index_ok s' \<and> accounted s' = accounted s"
proof -
  obtain t where t: "t \<noteq> 0" "um_find (um_erase (pq_txid (r_pqs s h)) (r_byId s)) t = None"
    and k: "keeps_or_closes h (rekey h t s) s'"
    using assms(1) unfolding rekeys_then_def by blast
  show ?thesis
    using keeps_or_closes_ok [OF k rekey_index_ok [OF assms(2,3) t] rekey_registered] rekey_total [OF assms(2,3) t(2)]
    by simp
qed

subsection \<open>Opening a query and joining one\<close>

lemma join_ok:
  assumes ok: "index_ok s" and reg: "registered s h" and room: "length (pq_callbacks (r_pqs s h)) < kMaxCallbacksPerQuery"
    and f: "\<And>q. pq_view (f q) = (pq_txid q, pq_domain q, pq_callbacks q @ [cb])"
  shows "index_ok (mod_pq h f s) \<and> accounted (mod_pq h f s) = add_mset cb (accounted s)"
proof -
  let ?s = "mod_pq h f s"
  have fields: "r_byId ?s = r_byId s" "r_byDomain ?s = r_byDomain s" "r_nextPq ?s = r_nextPq s" "r_stuck ?s = r_stuck s"
    "delivered ?s = delivered s" "r_pqs ?s = (r_pqs s)(h := f (r_pqs s h))"
    by (simp_all add: mod_pq_def delivered_def)
  have v: "pq_txid (f q) = pq_txid q" "pq_domain (f q) = pq_domain q" "pq_callbacks (f q) = pq_callbacks q @ [cb]" for q
    using f [of q] by (simp_all add: pq_view_def)
  have pq: "pq_txid (r_pqs ?s h') = pq_txid (r_pqs s h')" "pq_domain (r_pqs ?s h') = pq_domain (r_pqs s h')"
    "pq_callbacks (r_pqs ?s h') = (if h' = h then pq_callbacks (r_pqs s h) @ [cb] else pq_callbacks (r_pqs s h'))" for h'
    by (simp_all add: fields v)
  have "index_ok ?s"
    using ok room unfolding index_ok_iff fields(1-4) pq by auto
  moreover have "registered ?s h" using reg unfolding registered_def fields(1) pq .
  ultimately have ok': "index_ok ?s" "registered ?s h" by auto
  have "owed ?s = add_mset cb (owed s)"
    unfolding owed_registered [OF ok'] owed_registered [OF ok reg]
    unfolding fields(1) pq(1) fields(6)
    using owed_other_pq [OF erased_handle [OF ok reg], of s "f (r_pqs s h)"] by (simp add: v)
  with ok'(1) show ?thesis by (simp add: accounted_def fields)
qed

definition open_query :: "nat \<Rightarrow> PendingQuery \<Rightarrow> resolver \<Rightarrow> resolver" where
  "open_query h q s = (mod_pq h (\<lambda>_. q) (s\<lparr>r_nextPq := Suc h\<rparr>))
     \<lparr>r_byId := um_set (pq_txid q) h (r_byId s), r_byDomain := um_set (pq_domain q) h (r_byDomain s)\<rparr>"

lemma open_ok:
  assumes ok: "index_ok s" and t: "pq_txid q \<noteq> 0" "um_find (r_byId s) (pq_txid q) = None"
    and d: "um_find (r_byDomain s) (pq_domain q) = None" and cb: "pq_callbacks q = [cb]"
    and room: "length (r_byDomain s) < kMaxPendingQueries" and h: "h = r_nextPq s"
  shows "index_ok (open_query h q s) \<and> accounted (open_query h q s) = add_mset cb (accounted s) \<and> registered (open_query h q s) h"
proof -
  let ?s = "open_query h q s"
  have fields: "r_byId ?s = um_set (pq_txid q) h (r_byId s)" "r_byDomain ?s = um_set (pq_domain q) h (r_byDomain s)"
    "r_nextPq ?s = Suc h" "r_stuck ?s = r_stuck s" "delivered ?s = delivered s" "r_pqs ?s = (r_pqs s)(h := q)"
    by (simp_all add: open_query_def mod_pq_def delivered_def)
  have old: "h' < h" if "um_find (r_byId s) t' = Some h'" for t' h'
    using index_ok_id [OF ok that] h by simp
  have new: "h' \<noteq> h \<and> pq_domain (r_pqs s h') \<noteq> pq_domain q" if "um_find (r_byId s) t' = Some h'" for t' h'
    using index_ok_id [OF ok that] h d by auto
  have new': "h' \<noteq> h \<and> pq_txid (r_pqs s h') \<noteq> pq_txid q" if "um_find (r_byDomain s) d' = Some h'" for d' h'
    using index_ok_dom [OF ok that] old t(2) unfolding registered_def by (metis less_irrefl option.discI)
  have "index_ok ?s"
    unfolding index_ok_iff fields
    using ok t d cb room new new' h by (auto simp: index_ok_iff um_size_set less_Suc_eq)
  moreover have "owed ?s = add_mset cb (owed s)"
  proof -
    have "(t', h) \<notin> set (r_byId s)" for t'
      using new [of t' h] um_find_in_set [of "r_byId s" t' h] index_ok_wf [OF ok] by blast
    from owed_other_pq [OF this, of s q] show ?thesis
      unfolding owed_def fields um_mset_set_new [OF t(2)] by (simp add: cb)
  qed
  ultimately show ?thesis by (simp add: accounted_def registered_def fields)
qed

subsection \<open>Every event keeps the books\<close>

definition books_ok :: "nat multiset \<Rightarrow> resolver \<Rightarrow> resolver \<Rightarrow> bool" where
  "books_ok new s s' \<longleftrightarrow> index_ok s' \<and> accounted s' = accounted s + new"

lemma books_refl: "index_ok s \<Longrightarrow> ledger s' = ledger s \<Longrightarrow> books_ok {#} s s'"
  using index_ok_cong [of s' s] total_cong [of s' s] by (simp add: books_ok_def)

lemma books_trans: "books_ok a s s1 \<Longrightarrow> books_ok b s1 s' \<Longrightarrow> books_ok (a + b) s s'"
  by (simp add: books_ok_def)

lemma books_pre: "ledger s1 = ledger s \<Longrightarrow> books_ok n s1 s' \<Longrightarrow> books_ok n s s'"
  using total_cong [of s1 s] by (simp add: books_ok_def)

lemma books_close: "keeps_or_closes h s s' \<Longrightarrow> index_ok s \<Longrightarrow> registered s h \<Longrightarrow> books_ok {#} s s'"
  using keeps_or_closes_ok [of h s s'] by (simp add: books_ok_def)

lemma books_rekey: "rekeys_then h s s' \<Longrightarrow> index_ok s \<Longrightarrow> registered s h \<Longrightarrow> books_ok {#} s s'"
  using rekeys_then_ok [of h s s'] by (simp add: books_ok_def)

lemma OnQueryResult_books:
  assumes ok: "index_ok s"
  shows "books_ok {#} s (OnQueryResult e now txid r fromTcp isTimeout s)"
proof (cases "um_find (r_byId s) txid")
  case None
  with ok show ?thesis by (simp add: OnQueryResult_def books_refl)
next
  case (Some h)
  let ?s1 = "CancelTimerLocked h s"
  note l = ledger_CancelTimer [of h s]
  have ok1: "index_ok ?s1" "registered ?s1 h"
    using ok registered_index [OF ok Some] index_ok_cong [OF l] registered_cong [OF l] by simp_all
  note close = books_pre [OF l books_close [OF _ ok1]] and move = books_pre [OF l books_rekey [OF _ ok1]]
  have fin: "books_ok {#} s (FinishQuery e now h r ?s1)"
    by (rule close, rule keeps_then_finishes, rule refl)
  show ?thesis
    using ok Some fin close [OF TcpFallback_keeps_or_closes] move [OF Retry_rekeys [OF ok1(1)]]
      move [OF AAAA_rekeys [OF ok1(1)]]
    by (simp add: OnQueryResult_def Let_def books_refl)
qed

lemma HandleUdpResponse_books: "index_ok s \<Longrightarrow> books_ok {#} s (HandleUdpResponse e now data from s)"
  by (auto simp: HandleUdpResponse_def Let_def books_refl OnQueryResult_books split: option.split sum.split)

lemma books_then_result:
  "index_ok s \<Longrightarrow> ledger s1 = ledger s \<Longrightarrow> books_ok {#} s (OnQueryResult e now t r ft it s1)"
  using OnQueryResult_books [of s1] index_ok_cong [of s1 s] by (auto intro: books_pre)

lemma TcpFail_books: "index_ok s \<Longrightarrow> ledger s1 = ledger s \<Longrightarrow> books_ok {#} s (TcpFail e now t s1)"
  by (simp add: TcpFail_def books_refl books_then_result ledger_tcp_close)

lemma CompleteBody_books: "index_ok s \<Longrightarrow> ledger s1 = ledger s \<Longrightarrow> books_ok {#} s (CompleteBody e now t s1)"
  by (simp add: CompleteBody_def Let_def books_refl books_then_result ledger_tcp_close split: sum.split)

lemma ContinueRecv_books:
  "index_ok s \<Longrightarrow> ledger s1 = ledger s \<Longrightarrow>
   books_ok {#} s (snd (ContinueRecv e now t s1)) \<and>
   (\<not> fst (ContinueRecv e now t s1) \<longrightarrow> ledger (snd (ContinueRecv e now t s1)) = ledger s)"
  by (simp add: ContinueRecv_def Let_def books_refl CompleteBody_books ledger_PostRecvMore ledger_mod_tq)

lemma TcpOnIoCompleted_books:
  assumes "index_ok s"
  shows "books_ok {#} s (TcpOnIoCompleted e now t data error s)"
proof -
  let ?s1 = "mod_tq t (\<lambda>q. q\<lparr>tq_recv := tq_recv q @ data\<rparr>) s"
  have "books_ok {#} s (let (ok, s2) = ContinueRecv e now t ?s1 in if ok then s2 else TcpFail e now t s2)"
    using ContinueRecv_books [OF assms, of ?s1 e now t] TcpFail_books [OF assms, of "snd (ContinueRecv e now t ?s1)" e now t]
    by (simp add: ledger_mod_tq split_def Let_def)
  then show ?thesis
    using assms
    by (simp add: TcpOnIoCompleted_def Let_def split_def books_refl TcpFail_books ledger_mod_tq ledger_os_call
        ledger_emit split: tcp_phase.split)
qed

lemma deliver_books: "index_ok s \<Longrightarrow> books_ok {#cb#} s (deliver [cb] r s)"
proof -
  assume ok: "index_ok s"
  have "index_ok (deliver [cb] r s) = index_ok s" "owed (deliver [cb] r s) = owed s"
    by (simp_all add: index_ok_def owed_def deliver_def emit_def)
  with ok show ?thesis by (simp add: books_ok_def accounted_def)
qed

definition new_callbacks :: "nat option \<Rightarrow> nat multiset" where
  "new_callbacks cb = (case cb of None \<Rightarrow> {#} | Some c \<Rightarrow> {#c#})"

lemma open_books:
  assumes ok: "index_ok s" and d: "um_find (r_byDomain s) domain = None" and room: "length (r_byDomain s) < kMaxPendingQueries"
    and a: "AllocTxidLocked e s = (txid, s1)"
    and q: "pq_txid q = txid" "pq_domain q = domain" "pq_callbacks q = [cb]"
  shows "books_ok {#cb#} s (BeginUdpQueryLocked e (r_nextPq s1) (open_query (r_nextPq s1) q s1))"
proof -
  note al = Alloc_ledger [OF a byId_size [OF ok]]
  have ok1: "index_ok s1" using ok index_ok_cong [OF al(3)] by simp
  have "index_ok (open_query (r_nextPq s1) q s1) \<and>
      accounted (open_query (r_nextPq s1) q s1) = add_mset cb (accounted s1) \<and>
      registered (open_query (r_nextPq s1) q s1) (r_nextPq s1)"
    using al d room q by (intro open_ok [OF ok1]) simp_all
  moreover from this have "books_ok {#} (open_query (r_nextPq s1) q s1)
      (BeginUdpQueryLocked e (r_nextPq s1) (open_query (r_nextPq s1) q s1))"
    by (intro books_close [OF Begin_keeps_or_closes]) auto
  ultimately have "books_ok {#cb#} s1 (BeginUdpQueryLocked e (r_nextPq s1) (open_query (r_nextPq s1) q s1))"
    by (simp add: books_ok_def)
  then show ?thesis by (rule books_pre [OF al(3)])
qed

lemma ResolveAsync_books:
  assumes ok: "index_ok s"
  shows "books_ok (new_callbacks callback) s (ResolveAsync e now domain callback useCache s)"
proof (cases callback)
  case None
  with ok show ?thesis by (simp add: ResolveAsync_def new_callbacks_def books_refl)
next
  case (Some cb)
  let ?d = "ToLower domain"
  obtain txid s1 where a: "AllocTxidLocked e s = (txid, s1)" by fastforce
  have join: "books_ok {#cb#} s (mod_pq h (\<lambda>q. q\<lparr>pq_useCache := pq_useCache q \<and> useCache,
      pq_callbacks := pq_callbacks q @ [cb]\<rparr>) s)"
    if "um_find (r_byDomain s) ?d = Some h" "length (pq_callbacks (r_pqs s h)) < kMaxCallbacksPerQuery" for h
    using join_ok [OF ok conjunct2 [OF index_ok_dom [OF ok that(1)]] that(2)] by (simp add: books_ok_def pq_view_def)
  have op: "books_ok {#cb#} s (BeginUdpQueryLocked e (r_nextPq s1) (open_query (r_nextPq s1) (blank_pq\<lparr>pq_domain := ?d,
      pq_txid := txid, pq_qtype := 1, pq_tryAAAA := OutputIPv6Available (de_cfg e), pq_useCache := useCache,
      pq_callbacks := [cb]\<rparr>) s1))"
    if "um_find (r_byDomain s) ?d = None" "length (r_byDomain s) < kMaxPendingQueries"
    by (rule open_books [OF ok that a]) simp_all
  show ?thesis
    using Some join op deliver_books [OF ok]
    by (auto simp: ResolveAsync_def new_callbacks_def Let_def a open_query_def mod_pq_def not_le split: option.split)
qed

lemma in_ids_in_order:
  assumes "iter_ok (de_ids e)" and "index_ok s"
  shows "distinct (ids_in_order e s)" and "set (ids_in_order e s) = snd ` set (r_byId s)"
proof -
  let ?ids = "de_ids e (map fst (r_byId s))"
  have ids: "distinct ?ids" "set ?ids = fst ` set (r_byId s)"
    using assms by (auto simp: iter_ok_def index_ok_def um_wf_def)
  have inj: "t = t'" if "um_find (r_byId s) t = Some h" "um_find (r_byId s) t' = Some h" for t t' h
    using index_ok_id [OF assms(2) that(1)] index_ok_id [OF assms(2) that(2)] by simp
  have "distinct (List.map_filter (um_find (r_byId s)) ts)" if "distinct ts" for ts
    using that by (induction ts) (auto simp: List.map_filter_def split: option.splits dest: inj)
  with ids(1) show "distinct (ids_in_order e s)" by (simp add: ids_in_order_def)
  show "set (ids_in_order e s) = snd ` set (r_byId s)"
  proof -
    have "set (ids_in_order e s) = {h. \<exists>t\<in>fst ` set (r_byId s). um_find (r_byId s) t = Some h}"
      using ids(2) by (force simp: ids_in_order_def List.map_filter_def)
    also have "\<dots> = snd ` set (r_byId s)"
    proof (intro set_eqI iffI)
      fix h assume "h \<in> {h. \<exists>t\<in>fst ` set (r_byId s). um_find (r_byId s) t = Some h}"
      then show "h \<in> snd ` set (r_byId s)" by (auto dest: map_of_SomeD intro: rev_image_eqI)
    next
      fix h assume "h \<in> snd ` set (r_byId s)"
      then obtain t where t: "(t, h) \<in> set (r_byId s)" by auto
      then have "um_find (r_byId s) t = Some h"
        using um_find_in_set [OF conjunct1 [OF index_ok_wf [OF assms(2)]]] by blast
      with t show "h \<in> {h. \<exists>t\<in>fst ` set (r_byId s). um_find (r_byId s) t = Some h}" by force
    qed
    finally show ?thesis .
  qed
qed

lemma fold_fallback_books:
  assumes "index_ok s" and "distinct hs" and "\<forall>h\<in>set hs. registered s h"
  shows "books_ok {#} s (fold (StartTcpFallback e now) hs s)"
  using assms
proof (induction hs arbitrary: s)
  case Nil
  then show ?case by (simp add: books_refl)
next
  case (Cons h hs)
  let ?s = "StartTcpFallback e now h s"
  have k: "index_ok ?s \<and> accounted ?s = accounted s \<and> (\<forall>h'. h' \<noteq> h \<longrightarrow> registered ?s h' = registered s h')"
    using Cons.prems by (intro keeps_or_closes_ok [OF TcpFallback_keeps_or_closes]) auto
  with Cons.prems have "books_ok {#} ?s (fold (StartTcpFallback e now) hs ?s)"
    by (intro Cons.IH) auto
  with k show ?case by (simp add: books_ok_def)
qed

lemma OnRecvFromCompleted_books:
  assumes ord: "iter_ok (de_ids e)" and ok: "index_ok s"
  shows "books_ok {#} s (OnRecvFromCompleted e now data error from s)"
proof -
  let ?s0 = "s\<lparr>r_recvPosted := False\<rparr>"
  let ?s1 = "if \<not> r_stopping ?s0 \<and> \<not> error \<and> data \<noteq> [] then HandleUdpResponse e now data from ?s0 else ?s0"
  have l0: "ledger ?s0 = ledger s" by (simp add: ledger_frame)
  have b1: "books_ok {#} s ?s1"
    using ok index_ok_cong [OF l0] books_pre [OF l0 HandleUdpResponse_books] books_refl [OF ok l0] by auto
  then have ok1: "index_ok ?s1" by (simp add: books_ok_def)
  define s3 where "s3 = (close_udp (snd (os_call e ?s1)))\<lparr>r_pendingSends := []\<rparr>"
  have l3: "ledger s3 = ledger ?s1" unfolding s3_def by (simp add: ledger_keeps)
  then have ok3: "index_ok s3" using index_ok_cong [OF l3] ok1 by simp
  have reg: "registered s3 h" if "h \<in> set (ids_in_order e s3)" for h
    using that in_ids_in_order(2) [OF ord ok3] um_find_in_set [OF conjunct1 [OF index_ok_wf [OF ok3]]]
      registered_index [OF ok3] by force
  have b3: "books_ok {#} ?s1 (fold (StartTcpFallback e now) (filter P (ids_in_order e s3)) s3)" for P
    using in_ids_in_order(1) [OF ord ok3] reg by (intro books_pre [OF l3 fold_fallback_books [OF ok3]]) auto
  have bE: "books_ok {#} ?s1 (emit [UdpRecvFrom] ((snd (os_call e ?s1))\<lparr>r_recvPosted := True\<rparr>))"
    by (rule books_refl [OF ok1]) (simp add: ledger_keeps)
  show ?thesis
    unfolding OnRecvFromCompleted_def Let_def split_def
    using b1 books_trans [OF b1 b3] books_trans [OF b1 bE] by (simp add: s3_def)
qed

lemma fold_CancelTimer_ledger: "ledger (fold CancelTimerLocked hs s) = ledger s"
  by (induction hs arbitrary: s) (simp_all add: ledger_CancelTimer)

lemma fold_tcp_close_ledger: "ledger (fold tcp_close ts s) = ledger s"
  by (induction ts arbitrary: s) (simp_all add: ledger_tcp_close)

lemma stop_query_fields:
  "r_byId (stop_query h s) = r_byId s" "r_byDomain (stop_query h s) = r_byDomain s" "r_stuck (stop_query h s) = r_stuck s"
  "r_pqs (stop_query h s) = (r_pqs s)(h := (r_pqs s h)\<lparr>pq_callbacks := [], pq_tcp := None\<rparr>)"
  by (simp_all add: stop_query_def mod_pq_def deliver_def emit_def)

lemma delivered_stop_query: "delivered (stop_query h s) = delivered s @ pq_callbacks (r_pqs s h)"
proof -
  have "delivered (stop_query h s) = delivered (deliver (pq_callbacks (r_pqs s h)) None s)"
    by (simp add: stop_query_def mod_pq_def delivered_def)
  then show ?thesis by simp
qed

lemma fold_stop_query:
  "distinct hs \<Longrightarrow>
     delivered (fold stop_query hs s) = delivered s @ concat (map (\<lambda>h. pq_callbacks (r_pqs s h)) hs) \<and>
     r_byId (fold stop_query hs s) = r_byId s \<and> r_byDomain (fold stop_query hs s) = r_byDomain s \<and>
     r_stuck (fold stop_query hs s) = r_stuck s"
proof (induction hs arbitrary: s)
  case (Cons h hs)
  then have "map (\<lambda>h'. pq_callbacks (r_pqs (stop_query h s) h')) hs = map (\<lambda>h'. pq_callbacks (r_pqs s h')) hs"
    by (auto simp: stop_query_fields)
  then have "concat (map (\<lambda>h'. pq_callbacks (r_pqs (stop_query h s) h')) hs) = concat (map (\<lambda>h'. pq_callbacks (r_pqs s h')) hs)"
    by (rule arg_cong)
  with Cons show ?case by (simp add: delivered_stop_query stop_query_fields(1-3))
qed simp

lemma owed_all:
  assumes "iter_ok (de_ids e)" and "index_ok s"
  shows "owed s = mset (concat (map (\<lambda>h. pq_callbacks (r_pqs s h)) (ids_in_order e s)))"
proof -
  have "distinct (map snd (r_byId s))"
  proof -
    have "inj_on snd (set (r_byId s))"
      using index_ok_id [OF assms(2)] um_find_in_set [OF conjunct1 [OF index_ok_wf [OF assms(2)]]]
      by (intro inj_onI) (metis prod.collapse)
    moreover have "distinct (r_byId s)" using index_ok_wf [OF assms(2)] by (simp add: um_wf_def distinct_map)
    ultimately show ?thesis by (simp add: distinct_map)
  qed
  then have "mset (ids_in_order e s) = image_mset snd (mset (r_byId s))"
    using in_ids_in_order [OF assms] by (metis list.set_map mset_map set_eq_iff_mset_eq_distinct)
  moreover have "mset (concat (map f xs)) = (\<Sum>x\<in>#mset xs. mset (f x))" for f :: "nat \<Rightarrow> nat list" and xs
    by (induction xs) simp_all
  ultimately show ?thesis
    by (simp add: owed_def split_def image_mset.compositionality comp_def)
qed

lemma Stop_books:
  assumes ord: "iter_ok (de_ids e)" and ok: "index_ok s"
  shows "books_ok {#} s (Stop e s)"
proof (cases "r_started s")
  case True
  let ?hs = "ids_in_order e s"
  define s1 where "s1 = fold CancelTimerLocked ?hs (s\<lparr>r_stopping := True\<rparr>)"
  define s2 where "s2 = s1\<lparr>r_byId := [], r_byDomain := [], r_pendingSends := []\<rparr>"
  define s3 where "s3 = fold stop_query ?hs s2"
  define pins where "pins = List.map_filter (\<lambda>h. pq_tcp (r_pqs s2 h)) ?hs"
  have l1: "ledger s1 = ledger s" unfolding s1_def by (simp add: fold_CancelTimer_ledger ledger_keeps)
  have s2: "r_byId s2 = []" "r_byDomain s2 = []" "r_stuck s2 = r_stuck s" "delivered s2 = delivered s"
    "pq_callbacks (r_pqs s2 h) = pq_callbacks (r_pqs s h)" for h
    using ledger_eqD [OF l1] by (simp_all add: s2_def delivered_def)
  have s3: "r_byId s3 = []" "r_byDomain s3 = []" "r_stuck s3 = r_stuck s"
    "delivered s3 = delivered s @ concat (map (\<lambda>h. pq_callbacks (r_pqs s h)) ?hs)"
    using fold_stop_query [OF in_ids_in_order(1) [OF ord ok], of s2] by (simp_all add: s2 s3_def)
  then have b: "books_ok {#} s s3"
    using ok owed_all [OF ord ok] by (simp add: books_ok_def accounted_def owed_def index_ok_def)
  have "Stop e s = (fold tcp_close pins (close_udp s3))\<lparr>r_started := False\<rparr>"
    using True by (simp add: Stop_def Let_def s1_def s2_def s3_def pins_def)
  moreover have "ledger ((fold tcp_close pins (close_udp s3))\<lparr>r_started := False\<rparr>) = ledger s3"
    by (simp add: ledger_keeps fold_tcp_close_ledger)
  ultimately show ?thesis
    using books_trans [OF b books_refl, of "Stop e s"] b by (simp add: books_ok_def)
qed (use ok in \<open>simp add: Stop_def books_refl\<close>)

section \<open>Timeouts settle a query\<close>

text \<open>\<open>patience\<close>: how many more timeouts a query survives.\<close>

definition patience :: "PendingQuery \<Rightarrow> nat" where
  "patience q = (if pq_viaTcp q then 0 else Suc (kMaxUdpAttempts - pq_udpAttempts q))"

definition effort :: "PendingQuery \<Rightarrow> bool \<times> nat" where
  "effort q = (pq_viaTcp q, pq_udpAttempts q)"

lemma pqs_Pump [simp]: "r_pqs (PumpSendLocked e s) = r_pqs s"
proof (induction e s rule: PumpSendLocked.induct)
  case (1 e s)
  show ?case
  proof (cases "r_sendsInFlight s < 16 \<and> r_pendingSends s \<noteq> [] \<and> r_udpSocket s \<and> \<not> r_stopping s")
    case True
    with 1 show ?thesis
      by (subst PumpSendLocked.simps) (auto simp: os_call_def Let_def emit_def)
  qed (subst PumpSendLocked.simps, auto)
qed

lemma pqs_Enqueue [simp]: "r_pqs (EnqueueUdpSendLocked e d s) = r_pqs s"
  by (simp add: EnqueueUdpSendLocked_def)

lemma effort_timers [simp]:
  "effort (r_pqs (CancelTimerLocked h s) h') = effort (r_pqs s h')"
  "effort (r_pqs (snd (ArmTimerLocked e h s)) h') = effort (r_pqs s h')"
  by (auto simp: CancelTimerLocked_def ArmTimerLocked_def Let_def mod_pq_def emit_def effort_def)

lemma effort_abort [simp]: "effort (r_pqs (abort_query h s) h') = effort (r_pqs s h')"
  by (simp add: abort_query_fields effort_def)

lemma effort_Begin: "effort (r_pqs (BeginUdpQueryLocked e h s) h) = (False, Suc (pq_udpAttempts (r_pqs s h)))"
proof -
  let ?s1 = "mod_pq h (\<lambda>q. q\<lparr>pq_viaTcp := False, pq_udpAttempts := pq_udpAttempts q + 1\<rparr>) s"
  have "effort (r_pqs ?s1 h) = (False, Suc (pq_udpAttempts (r_pqs s h)))" by (simp add: mod_pq_def effort_def)
  then show ?thesis by (simp add: BeginUdpQueryLocked_def Let_def split_def split: sum.split)
qed

lemma effort_TcpStart [simp]: "r_pqs (snd (TcpStart e t s)) = r_pqs s"
  by (simp add: TcpStart_def Let_def split_def mod_tq_def emit_def os_call_def split: option.split)

lemma unregistered_Finish: "index_ok s \<Longrightarrow> registered s h \<Longrightarrow> \<not> registered (FinishQuery e now h r s) h"
  using registered_cong [OF ledger_Finish] abort_registered [of s h h] by blast

lemma unregistered_Finish_after:
  "ledger s1 = ledger s \<Longrightarrow> index_ok s \<Longrightarrow> registered s h \<Longrightarrow> \<not> registered (FinishQuery e now h r s1) h"
  using unregistered_Finish [of s1 h] index_ok_cong [of s1 s] registered_cong [of s1 s] by blast

lemma TcpFallback_patience:
  assumes "index_ok s" and "registered s h" and "registered (StartTcpFallback e now h s) h"
  shows "patience (r_pqs (StartTcpFallback e now h s) h) = 0"
proof -
  define s1 where "s1 = mod_pq h (\<lambda>q. q\<lparr>pq_viaTcp := True\<rparr>) s"
  define s2 where "s2 = snd (ArmTimerLocked e h s1)"
  define s4 where "s4 q = mod_pq h (\<lambda>q. q\<lparr>pq_tcp := Some (r_nextTq s2)\<rparr>)
    (mod_tq (r_nextTq s2) (\<lambda>_. blank_tq\<lparr>tq_txid := pq_txid (r_pqs s2 h), tq_qtype := pq_qtype (r_pqs s2 h), tq_query := q\<rparr>)
       (s2\<lparr>r_nextTq := Suc (r_nextTq s2)\<rparr>))" for q
  have l: "ledger s2 = ledger s" "ledger (snd (TcpStart e (r_nextTq s2) (s4 q))) = ledger s" for q
    by (simp_all add: s4_def s2_def s1_def ledger_keeps pq_view_def)
  have "effort (r_pqs s2 h) = (True, pq_udpAttempts (r_pqs s h))"
    by (simp add: s2_def) (simp add: s1_def mod_pq_def effort_def)
  then have e: "pq_viaTcp (r_pqs (snd (TcpStart e (r_nextTq s2) (s4 q))) h)" for q
    by (simp add: s4_def mod_pq_def mod_tq_def effort_def)
  have un: "\<not> registered (FinishQuery e now h DnsResult_Invalid s') h" if "ledger s' = ledger s" for s'
    by (rule unregistered_Finish_after [OF that assms(1,2)])
  show ?thesis
    using assms(3) un [OF refl] un [OF l(1)] un [OF l(2)] e
    by (auto simp: StartTcpFallback_def Let_def split_def s1_def [symmetric] s2_def [symmetric] s4_def [symmetric]
        patience_def split: sum.splits if_splits)
qed

lemma Retry_effort:
  assumes "index_ok s"
  shows "effort (r_pqs (RetryUdpQueryLocked e h s) h) = (False, Suc (pq_udpAttempts (r_pqs s h)))"
proof -
  obtain t s2 where a: "AllocTxidLocked e (s\<lparr>r_byId := um_erase (pq_txid (r_pqs s h)) (r_byId s)\<rparr>) = (t, s2)" by fastforce
  have "r_pqs s2 = r_pqs s" using Alloc_ledger(4) [OF a] erase_size [OF assms] by simp
  then show ?thesis by (simp add: RetryUdpQueryLocked_def a Let_def effort_Begin) (simp add: mod_pq_def)
qed

lemma timeout_patience:
  fixes e :: dns_env and now :: int
  assumes ok: "index_ok s" and reg: "registered s h"
  defines "s' \<equiv> OnQueryResult e now (pq_txid (r_pqs s h)) DnsResult_Invalid False True s"
  assumes still: "registered s' h"
  shows "patience (r_pqs s' h) < patience (r_pqs s h)"
proof -
  let ?s1 = "CancelTimerLocked h s"
  note l = ledger_CancelTimer [of h s]
  have ok1: "index_ok ?s1" "registered ?s1 h" using ok reg index_ok_cong [OF l] registered_cong [OF l] by simp_all
  have eff: "pq_viaTcp (r_pqs ?s1 h) = pq_viaTcp (r_pqs s h)" "pq_udpAttempts (r_pqs ?s1 h) = pq_udpAttempts (r_pqs s h)"
    using effort_timers(1) [of h s h] by (simp_all add: effort_def)
  have s': "s' = (if \<not> pq_viaTcp (r_pqs s h)
      then if pq_udpAttempts (r_pqs s h) < 3 then RetryUdpQueryLocked e h ?s1 else StartTcpFallback e now h ?s1
      else FinishQuery e now h DnsResult_Invalid ?s1)"
    using reg unfolding s'_def OnQueryResult_def registered_def
    by (simp add: Let_def eff DnsResult_Invalid_def)
  show ?thesis
    using still unregistered_Finish [OF ok1] TcpFallback_patience [OF ok1, of e now] Retry_effort [OF ok1(1), of e h] eff
    by (auto simp: s' patience_def [of "r_pqs s h"] patience_def [of "r_pqs (RetryUdpQueryLocked e h _) h"] effort_def
        split: if_splits)
qed

lemma bit_timeout_key: "bit (timeout_key t) n \<longleftrightarrow> n = 32 \<or> bit t n"
  unfolding timeout_key_def bit_or_iff bit_push_bit_iff bit_1_iff bit_unsigned_iff
  by (auto dest: bit_imp_le_length)

lemma timeout_key_txid [simp]:
  "drop_bit 32 (timeout_key t) = kTimeoutKey" "(ucast (timeout_key t AND 0xFFFF) :: u16) = t"
proof -
  have "(0xFFFF :: u64) = mask 16" by (simp add: mask_eq_exp_minus_1)
  then show "(ucast (timeout_key t AND 0xFFFF) :: u16) = t"
    by (intro bit_word_eqI) (simp only: bit_unsigned_iff bit_and_iff bit_mask_iff bit_timeout_key, auto)
  show "drop_bit 32 (timeout_key t) = kTimeoutKey"
    by (rule bit_word_eqI) (auto simp: bit_drop_bit_eq bit_timeout_key bit_1_iff dest: bit_imp_le_length)
qed

text \<open>The timer of query \<open>h\<close> fires \<open>n\<close> times, each time with the transaction id it has then.\<close>

fun fire_timeouts :: "dns_env \<Rightarrow> int \<Rightarrow> nat \<Rightarrow> nat \<Rightarrow> resolver \<Rightarrow> resolver" where
  "fire_timeouts e now 0 h s = s"
| "fire_timeouts e now (Suc n) h s =
     (if registered s h then fire_timeouts e now n h (OnUserCompleted e now (timeout_key (pq_txid (r_pqs s h))) s) else s)"

lemma fire_timeouts_settles:
  "index_ok s \<Longrightarrow> patience (r_pqs s h) < n \<Longrightarrow>
   \<not> registered (fire_timeouts e now n h s) h \<and> books_ok {#} s (fire_timeouts e now n h s)"
proof (induction n arbitrary: s)
  case (Suc n)
  show ?case
  proof (cases "registered s h")
    case False
    with Suc.prems show ?thesis by (simp add: books_refl)
  next
    case True
    let ?s = "OnUserCompleted e now (timeout_key (pq_txid (r_pqs s h))) s"
    have s: "?s = OnQueryResult e now (pq_txid (r_pqs s h)) DnsResult_Invalid False True s"
      by (simp add: OnUserCompleted_def)
    have b: "books_ok {#} s ?s" unfolding s by (rule OnQueryResult_books [OF Suc.prems(1)])
    then have ok: "index_ok ?s" by (simp add: books_ok_def)
    show ?thesis
    proof (cases "registered ?s h")
      case False
      then have "fire_timeouts e now n h ?s = ?s" by (cases n) simp_all
      with False True b show ?thesis by simp
    next
      case True
      with timeout_patience [OF Suc.prems(1) \<open>registered s h\<close>, of e now] Suc.prems(2) have "patience (r_pqs ?s h) < n"
        by (simp add: s)
      from Suc.IH [OF ok this] \<open>registered s h\<close> books_trans [OF b, of "{#}"] show ?thesis by simp
    qed
  qed
qed simp

section \<open>Properties of the resolver\<close>

fun submitted :: "(int \<times> dns_event) list \<Rightarrow> nat multiset" where
  "submitted [] = {#}"
| "submitted ((now, EvResolve d cb u) # evs) = new_callbacks cb + submitted evs"
| "submitted (_ # evs) = submitted evs"

lemma submitted_Cons: "submitted (ev # evs) = submitted [ev] + submitted evs"
  by (cases ev; cases "snd ev") auto

lemma dns_step_books: "iter_ok (de_ids e) \<Longrightarrow> index_ok s \<Longrightarrow> books_ok (submitted [ev]) s (dns_step e ev s)"
  by (cases ev; cases "snd ev")
    (auto simp: books_refl ledger_keeps Stop_books ResolveAsync_books OnUserCompleted_def OnQueryResult_books
      OnRecvFromCompleted_books TcpOnIoCompleted_books)

lemma new_resolver_ok: "index_ok new_resolver" "accounted new_resolver = {#}"
  by (simp_all add: index_ok_def new_resolver_def accounted_def owed_def delivered_def)

lemma fold_step_books:
  "iter_ok (de_ids e) \<Longrightarrow> index_ok s \<Longrightarrow> books_ok (submitted evs) s (fold (dns_step e) evs s)"
proof (induction evs arbitrary: s)
  case (Cons ev evs)
  have step: "books_ok (submitted [ev]) s (dns_step e ev s)" using Cons.prems by (rule dns_step_books)
  then have "index_ok (dns_step e ev s)" by (simp add: books_ok_def)
  from books_trans [OF step Cons.IH [OF Cons.prems(1) this]] show ?case
    by (simp add: submitted_Cons [of ev evs])
qed (simp add: books_refl)

lemma dns_run_books:
  "iter_ok (de_ids e) \<Longrightarrow> index_ok (dns_run e evs) \<and> accounted (dns_run e evs) = submitted evs"
  using fold_step_books [of e new_resolver evs] new_resolver_ok by (simp add: dns_run_def books_ok_def)

definition sample_env :: dns_env where
  "sample_env = \<lparr>de_ws = sample_ws, de_cfg = default_netcfg\<lparr>OutputInterfaceIP := ''4aaaaaaaa''\<rparr>, de_server = ''4aiaiaiai'',
     de_rng = (\<lambda>n. 7), de_ok = (\<lambda>n. True), de_timer = Suc, de_ids = (\<lambda>ks. ks), de_names = (\<lambda>ks. ks)\<rparr>"

definition tcp_frame :: "bytes \<Rightarrow> bytes" where
  "tcp_frame r = hi8 (word_of_nat (length r)) # lo8 (word_of_nat (length r)) # r"

lemma tcp_frame_length: "length r < 65536 \<Longrightarrow> tcp_reply_length (tcp_frame r) = length r"
  by (simp add: tcp_reply_length_def tcp_frame_def unat_of_nat take_bit_nat_eq_self)

lemma Finish_delivers: "cb \<in> set (pq_callbacks (r_pqs s h)) \<Longrightarrow> Deliver cb (dr_address r) \<in> set (r_out (FinishQuery e now h r s))"
proof -
  assume cb: "cb \<in> set (pq_callbacks (r_pqs s h))"
  have "pq_callbacks (r_pqs (CancelTimerLocked h s) h) = pq_callbacks (r_pqs s h)"
    using ledger_eqD(6) [OF ledger_CancelTimer] .
  with cb show ?thesis by (simp add: FinishQuery_def Let_def deliver_def emit_def)
qed

lemma result_with_address:
  assumes "um_find (r_byId s) t = Some h" and "dr_address r \<noteq> None" and "cb \<in> set (pq_callbacks (r_pqs s h))"
  shows "Deliver cb (dr_address r) \<in> set (r_out (OnQueryResult e now t r True False s))"
proof -
  have "pq_callbacks (r_pqs (CancelTimerLocked h s) h) = pq_callbacks (r_pqs s h)"
    using ledger_eqD(6) [OF ledger_CancelTimer] .
  with assms show ?thesis by (auto simp: OnQueryResult_def Let_def intro!: Finish_delivers)
qed

lemma tcp_answer_completes:
  assumes tq: "\<not> tq_done (r_tqs s t)" "tq_phase (r_tqs s t) = Phase_RecvLen" "tq_recv (r_tqs s t) = []"
    and r: "ParseResponse (de_ws e) reply (tq_txid (r_tqs s t)) (tq_qtype (r_tqs s t)) = Inr result"
    and len: "0 < length reply" "length reply < 65536"
  shows "\<exists>s1. TcpOnIoCompleted e now t (tcp_frame reply) False s =
           OnQueryResult e now (tq_txid (r_tqs s t)) result True False s1 \<and> ledger s1 = ledger s"
proof -
  let ?f = "tcp_frame reply"
  define s1 where "s1 = mod_tq t (\<lambda>q. q\<lparr>tq_recv := tq_recv q @ ?f\<rparr>) s"
  define s2 where "s2 = mod_tq t (\<lambda>q. q\<lparr>tq_need := 2 + length reply, tq_phase := Phase_RecvBody\<rparr>) s1"
  have q1: "tq_recv (r_tqs s1 t) = ?f" "tq_phase (r_tqs s1 t) = Phase_RecvLen"
    using tq by (simp_all add: s1_def mod_tq_def)
  have q2: "tq_recv (r_tqs s2 t) = ?f" "tq_need (r_tqs s2 t) = 2 + length reply"
    "tq_txid (r_tqs s2 t) = tq_txid (r_tqs s t)" "tq_qtype (r_tqs s2 t) = tq_qtype (r_tqs s t)"
    using q1 by (simp_all add: s2_def s1_def mod_tq_def)
  have n: "tcp_reply_length ?f = length reply" using len by (simp add: tcp_frame_length)
  have lf: "length ?f = 2 + length reply" and body: "take (length reply) (drop 2 ?f) = reply" by (simp_all add: tcp_frame_def)
  have "CompleteBody e now t s2 = OnQueryResult e now (tq_txid (r_tqs s t)) result True False (tcp_close t s2)"
    by (simp add: CompleteBody_def Let_def q2 n body r)
  moreover have "ContinueRecv e now t s1 = (True, CompleteBody e now t s2)"
    unfolding ContinueRecv_def Let_def q1 n using len lf q2 by (simp add: s2_def)
  moreover have "?f \<noteq> []" by (simp add: tcp_frame_def)
  ultimately have "TcpOnIoCompleted e now t ?f False s = OnQueryResult e now (tq_txid (r_tqs s t)) result True False (tcp_close t s2)"
    using tq by (simp add: TcpOnIoCompleted_def s1_def)
  moreover have "ledger (tcp_close t s2) = ledger s" by (simp add: s2_def s1_def ledger_keeps)
  ultimately show ?thesis by blast
qed

lemma Stop_byId: "iter_ok (de_ids e) \<Longrightarrow> r_started (dns_run e evs) \<Longrightarrow> r_byId (Stop e (dns_run e evs)) = []"
proof -
  assume ord: "iter_ok (de_ids e)" and st: "r_started (dns_run e evs)"
  have fold_id: "r_byId (fold stop_query hs s) = r_byId s" for hs s
    by (induction hs arbitrary: s) (simp_all add: stop_query_fields)
  show ?thesis
    using st ledger_eqD(1) [OF fold_tcp_close_ledger] ledger_eqD(1) [OF ledger_close_udp]
    by (simp add: Stop_def Let_def fold_id)
qed

text \<open>
  C5. Every callback handed to \<^verbatim>\<open>ResolveAsync\<close> is invoked exactly once or is still waiting in
  exactly one pending query: after any sequence of events the callbacks invoked so far together
  with those waiting are, counted with multiplicity, the callbacks submitted; and the indexes by
  transaction id and by domain stay consistent, with at most 4096 queries of at most 256
  callbacks and no stuck id search.
\<close>

theorem dns_callbacks_conserved:
  assumes "iter_ok (de_ids e)"
  shows "index_ok (dns_run e evs) \<and>
    owed (dns_run e evs) + mset (delivered (dns_run e evs)) = submitted evs"
  using dns_run_books [OF assms, of evs] by (simp add: accounted_def)

theorem dns_callbacks_conserved_witness:
  "iter_ok (de_ids sample_env) \<and>
   owed (dns_run sample_env [(0, EvStart), (0, EvResolve ''a'' (Some 1) True)]) +
     mset (delivered (dns_run sample_env [(0, EvStart), (0, EvResolve ''a'' (Some 1) True)])) = {#1#}"
  using dns_callbacks_conserved [of sample_env "[(0, EvStart), (0, EvResolve ''a'' (Some 1) True)]"]
  by (simp add: sample_env_def new_callbacks_def)

text \<open>
  C6. \<^verbatim>\<open>Stop\<close> leaves nobody waiting: when a running resolver is stopped, every callback that was
  ever submitted has been invoked exactly once.
\<close>

theorem dns_stop_answers_everyone:
  assumes "iter_ok (de_ids e)" and "r_started (dns_run e evs)"
  shows "mset (delivered (Stop e (dns_run e evs))) = submitted evs"
proof -
  have ok: "index_ok (dns_run e evs)" and b: "accounted (dns_run e evs) = submitted evs"
    using dns_run_books [OF assms(1)] by auto
  have "books_ok {#} (dns_run e evs) (Stop e (dns_run e evs))" by (rule Stop_books [OF assms(1) ok])
  moreover have "owed (Stop e (dns_run e evs)) = {#}"
    using Stop_byId [OF assms] in_ids_in_order(1) [OF assms(1) ok] by (simp add: owed_def)
  ultimately show ?thesis using b by (simp add: books_ok_def accounted_def)
qed

theorem dns_stop_answers_everyone_witness:
  "delivered (dns_run sample_env [(0, EvStart), (0, EvResolve ''a'' (Some 1) True)]) = [] \<and>
   mset (delivered (Stop sample_env (dns_run sample_env [(0, EvStart), (0, EvResolve ''a'' (Some 1) True)]))) = {#1#}"
proof -
  let ?evs = "[(0, EvStart), (0, EvResolve ''a'' (Some 1) True)]"
  have "iter_ok (de_ids sample_env)" by (simp add: sample_env_def)
  moreover have "r_started (dns_run sample_env ?evs)" "delivered (dns_run sample_env ?evs) = []" by code_simp+
  ultimately show ?thesis using dns_stop_answers_everyone [of sample_env ?evs] by (simp add: new_callbacks_def)
qed

text \<open>
  C26. A query whose timer keeps firing is settled: after one timeout more than its patience (at most
  four for a freshly opened query: three UDP attempts and one TCP attempt) it is gone from the
  indexes, and its callbacks have been accounted for as delivered.
\<close>

theorem dns_timeouts_settle:
  assumes "iter_ok (de_ids e)"
  shows "\<not> registered (fire_timeouts e now (Suc (patience (r_pqs (dns_run e evs) h))) h (dns_run e evs)) h \<and>
    accounted (fire_timeouts e now (Suc (patience (r_pqs (dns_run e evs) h))) h (dns_run e evs)) = submitted evs"
  using fire_timeouts_settles [OF conjunct1 [OF dns_run_books [OF assms]] lessI] dns_run_books [OF assms]
  by (simp add: books_ok_def)

theorem dns_timeouts_settle_witness:
  "let s = dns_run sample_env [(0, EvStart), (0, EvResolve ''a'' (Some 1) True)] in
   registered s 0 \<and> \<not> registered (fire_timeouts sample_env 0 (Suc (patience (r_pqs s 0))) 0 s) 0"
proof -
  let ?evs = "[(0, EvStart), (0, EvResolve ''a'' (Some 1) True)]"
  have "iter_ok (de_ids sample_env)" by (simp add: sample_env_def)
  moreover have "registered (dns_run sample_env ?evs) 0" by code_simp
  ultimately show ?thesis using dns_timeouts_settle [of sample_env 0 ?evs 0] by (simp add: Let_def)
qed

text \<open>
  C27. The transaction id allocation returns: with fewer than 65535 ids in use, as the limit of 4096
  pending queries guarantees, \<^verbatim>\<open>AllocTxidLocked\<close> yields a non-zero id that no pending query has,
  whatever the random source yields, and its unbounded second loop ends within 65536 rounds.
\<close>

theorem dns_alloc_txid_returns:
  assumes "length (r_byId s) < 65535"
  shows "fst (AllocTxidLocked e s) \<noteq> 0 \<and> um_find (r_byId s) (fst (AllocTxidLocked e s)) = None \<and>
    (\<exists>n m. snd (AllocTxidLocked e s) = s\<lparr>r_draws := n, r_idSeq := m\<rparr>)"
  using Alloc_spec [OF prod.collapse [symmetric] assms] by (auto simp: taken_def)

theorem dns_alloc_txid_returns_witness:
  "length (r_byId new_resolver) < 65535 \<and> fst (AllocTxidLocked sample_env new_resolver) \<noteq> 0"
  using dns_alloc_txid_returns [of new_resolver sample_env] by (simp add: new_resolver_def)

text \<open>
  C36. An answer on a TCP fallback connection is attributed by transaction id alone: the callbacks of
  whichever query holds that id receive the address, even when the answer is for another name
  (\<open>domain\<close> is not related to the domain of query \<open>h\<close>).  \<^verbatim>\<open>FinishQuery\<close> drops its reference to
  the connection without cancelling it, so after a TCP timeout a query that reuses the id can be
  answered with the address of the earlier name.
\<close>

theorem dns_tcp_answer_by_txid_only:
  assumes tq: "\<not> tq_done (r_tqs s t)" "tq_phase (r_tqs s t) = Phase_RecvLen" "tq_recv (r_tqs s t) = []" "tq_qtype (r_tqs s t) = 1"
    and h: "um_find (r_byId s) (tq_txid (r_tqs s t)) = Some h" "cb \<in> set (pq_callbacks (r_pqs s h))"
    and reply: "labels_ok (getlines domain)" "length domain \<le> 253" "length addr = 4" "uint ttl < INT_MAX"
  shows "Deliver cb (Some (inet_ntop4 (de_ws e) addr)) \<in>
    set (r_out (TcpOnIoCompleted e now t (tcp_frame (a_reply (tq_txid (r_tqs s t)) domain 1 ttl addr)) False s))"
proof -
  let ?x = "tq_txid (r_tqs s t)" and ?reply = "a_reply (tq_txid (r_tqs s t)) domain 1 ttl addr"
  have p: "ParseResponse (de_ws e) ?reply ?x (tq_qtype (r_tqs s t)) =
      Inr \<lparr>dr_address = Some (inet_ntop4 (de_ws e) addr), dr_ttl = uint ttl, dr_truncated = False, dr_fromNetwork = True\<rparr>"
    using ParseResponse_reply [OF reply(1) _ reply(4), of 1 addr] reply(3) tq(4) by simp
  have "length ?reply = 33 + length (encode_labels (getlines domain))"
    using reply(3) by (simp add: a_reply_def be32_bytes_def)
  with length_encode_getlines [of domain] reply(2) have len: "0 < length ?reply" "length ?reply < 65536" by auto
  obtain s1 where s1: "TcpOnIoCompleted e now t (tcp_frame ?reply) False s = OnQueryResult e now ?x
      \<lparr>dr_address = Some (inet_ntop4 (de_ws e) addr), dr_ttl = uint ttl, dr_truncated = False, dr_fromNetwork = True\<rparr> True False s1"
    and l: "ledger s1 = ledger s"
    using tcp_answer_completes [OF tq(1-3) p len] by blast
  have "um_find (r_byId s1) ?x = Some h" "cb \<in> set (pq_callbacks (r_pqs s1 h))"
    using h ledger_eqD(1) [OF l] ledger_eqD(6) [OF l, of h] by simp_all
  from result_with_address [OF this(1) _ this(2), of "\<lparr>dr_address = Some (inet_ntop4 (de_ws e) addr), dr_ttl = uint ttl,
      dr_truncated = False, dr_fromNetwork = True\<rparr>" e now]
  show ?thesis unfolding s1 by simp
qed

definition reused_id_state :: resolver where
  "reused_id_state = new_resolver
     \<lparr>r_byId := [(7, 0)], r_byDomain := [(''b'', 0)], r_pqs := (\<lambda>h. blank_pq\<lparr>pq_domain := ''b'', pq_txid := 7, pq_callbacks := [2]\<rparr>),
      r_nextPq := 1, r_tqs := (\<lambda>t. blank_tq\<lparr>tq_txid := 7, tq_phase := Phase_RecvLen\<rparr>), r_nextTq := 1\<rparr>"

theorem dns_tcp_answer_by_txid_only_witness:
  "pq_domain (r_pqs reused_id_state 0) = ''b'' \<and>
   Deliver 2 (Some (inet_ntop4 sample_ws [10, 0, 0, 1])) \<in>
    set (r_out (TcpOnIoCompleted sample_env 9 0 (tcp_frame (a_reply 7 ''a'' 1 60 [10, 0, 0, 1])) False reused_id_state))"
proof -
  have "getlines ''a'' = [''a'']" by (simp add: getlines_nonempty)
  then show ?thesis
    using dns_tcp_answer_by_txid_only [of reused_id_state 0 0 2 "''a''" "[10, 0, 0, 1]" 60 sample_env 9]
    by (simp add: reused_id_state_def new_resolver_def blank_tq_def blank_pq_def sample_env_def)
qed


subsection \<open>The send window over a whole run\<close>

named_theorems win_keeps "operations that keep the send window within its limits"

abbreviation win :: "resolver \<Rightarrow> bool" where
  "win \<equiv> dns_window.window_ok"

lemma win_frame [win_keeps]:
  "win (emit as s) = win s" "win (mod_pq h f s) = win s" "win (mod_tq t g s) = win s" "win (snd (os_call e s)) = win s"
  "win (s\<lparr>r_byId := m\<rparr>) = win s" "win (s\<lparr>r_byDomain := d\<rparr>) = win s" "win (s\<lparr>r_nextPq := n\<rparr>) = win s"
  "win (s\<lparr>r_nextTq := n\<rparr>) = win s" "win (s\<lparr>r_cache := c\<rparr>) = win s" "win (s\<lparr>r_recvPosted := b\<rparr>) = win s"
  "win (s\<lparr>r_calls := n\<rparr>) = win s" "win (s\<lparr>r_started := b\<rparr>) = win s" "win (s\<lparr>r_stopping := b\<rparr>) = win s"
  "win (s\<lparr>r_udpSocket := b\<rparr>) = win s" "win (s\<lparr>r_dnsAddr := a\<rparr>) = win s" "win (s\<lparr>r_draws := n\<rparr>) = win s"
  "win (s\<lparr>r_idSeq := i\<rparr>) = win s" "win (s\<lparr>r_stuck := b\<rparr>) = win s"
  by (simp_all add: dns_window.window_ok_def emit_def mod_pq_def mod_tq_def os_call_def)

lemma win_small [win_keeps]:
  "win (CancelTimerLocked h s) = win s" "win (snd (ArmTimerLocked e h s)) = win s" "win (deliver cbs a s) = win s"
  "win (abort_query h s) = win s" "win (FinishQuery e now h r s) = win s" "win (close_udp s) = win s"
  "win (tcp_close t s) = win s" "win (snd (PostRecvMore e t s)) = win s" "win (stop_query h s) = win s"
  by (simp_all add: CancelTimerLocked_def ArmTimerLocked_def deliver_def abort_query_def FinishQuery_def close_udp_def
      tcp_close_def PostRecvMore_def stop_query_def Let_def split_def win_frame)

lemma win_TcpStart [win_keeps]: "win (snd (TcpStart e t s)) = win s"
  by (simp add: TcpStart_def Let_def split_def win_frame split: option.split)

lemma win_alloc_random: "win (snd (alloc_random e i s)) = win s"
proof -
  obtain r s' where a: "alloc_random e i s = (r, s')" by fastforce
  from alloc_random_spec [OF a] a show ?thesis by (auto simp: win_frame)
qed

lemma win_alloc_seq: "win (snd (alloc_seq i s)) = win s"
proof -
  obtain r s' where a: "alloc_seq i s = (r, s')" by fastforce
  from alloc_seq_spec [OF a] a show ?thesis by (auto simp: win_frame)
qed

lemma win_Alloc [win_keeps]: "win (snd (AllocTxidLocked e s)) = win s"
  using win_alloc_random [of e 0 s] win_alloc_seq [of 0 "snd (alloc_random e 0 s)"]
  by (auto simp: AllocTxidLocked_def win_frame split: prod.splits option.splits)

lemma win_Begin [win_keeps]: "win s \<Longrightarrow> win (BeginUdpQueryLocked e h s)"
  by (simp add: BeginUdpQueryLocked_def Let_def split_def win_frame win_small dns_window.enqueue_window split: sum.split)

lemma win_Retry [win_keeps]: "win s \<Longrightarrow> win (RetryUdpQueryLocked e h s)" "win s \<Longrightarrow> win (retry_as_AAAA e h s)"
  by (simp_all add: RetryUdpQueryLocked_def retry_as_AAAA_def Let_def split_def win_frame win_Alloc win_Begin)

lemma win_TcpFallback [win_keeps]: "win (StartTcpFallback e now h s) = win s"
  by (simp add: StartTcpFallback_def Let_def split_def win_frame win_small win_TcpStart split: sum.split)

lemma win_OnQueryResult [win_keeps]: "win s \<Longrightarrow> win (OnQueryResult e now t r ft it s)"
  by (simp add: OnQueryResult_def Let_def win_small win_Retry win_TcpFallback split: option.split)

lemma win_Tcp [win_keeps]:
  "win s \<Longrightarrow> win (TcpFail e now t s)" "win s \<Longrightarrow> win (CompleteBody e now t s)" "win s \<Longrightarrow> win (snd (ContinueRecv e now t s))"
  "win s \<Longrightarrow> win (HandleUdpResponse e now data from s)"
  by (simp_all add: TcpFail_def CompleteBody_def ContinueRecv_def HandleUdpResponse_def Let_def win_small win_frame
      win_OnQueryResult split: sum.split option.split)

lemma win_TcpOnIoCompleted [win_keeps]: "win s \<Longrightarrow> win (TcpOnIoCompleted e now t data err s)"
  by (simp add: TcpOnIoCompleted_def Let_def split_def win_frame win_Tcp split: tcp_phase.split)

lemma win_ResolveAsync [win_keeps]: "win s \<Longrightarrow> win (ResolveAsync e now domain cb u s)"
  by (simp add: ResolveAsync_def Let_def split_def win_frame win_small win_Alloc win_Begin split: option.split)

lemma win_clear: "win s \<Longrightarrow> win (s\<lparr>r_pendingSends := []\<rparr>)"
  by (simp add: dns_window.window_ok_def)

lemma win_fold: "(\<And>x s. win (f x s) = win s) \<Longrightarrow> win (fold f xs s) = win s"
  by (induction xs arbitrary: s) simp_all

lemma win_OnRecvFrom [win_keeps]: "win s \<Longrightarrow> win (OnRecvFromCompleted e now data err from s)"
  by (simp add: OnRecvFromCompleted_def Let_def split_def win_frame win_small win_Tcp win_clear win_fold win_TcpFallback)

lemma win_Stop [win_keeps]:
  assumes "win s"
  shows "win (Stop e s)"
proof -
  let ?s1 = "fold CancelTimerLocked (ids_in_order e s) (s\<lparr>r_stopping := True\<rparr>)"
  have "win ?s1" using assms by (simp add: win_fold win_small win_frame)
  then have "win (?s1\<lparr>r_byId := [], r_byDomain := [], r_pendingSends := []\<rparr>)" by (simp add: win_clear win_frame)
  with assms show ?thesis by (simp add: Stop_def Let_def win_frame win_fold win_small)
qed

lemma win_Start [win_keeps]: "win s \<Longrightarrow> win (snd (Start e s))"
  by (simp add: Start_def Let_def split_def FillDnsAddrFromServer_def if_distrib [of snd] if_distrib [of win]
      win_frame win_small split: option.split)

lemma win_step: "win s \<Longrightarrow> win (dns_step e ev s)"
  by (cases ev; cases "snd ev") (auto simp: win_keeps OnUserCompleted_def dns_window.completed_window)

lemma win_run: "win (fold (dns_step e) evs s)" if "win s"
  using that by (induction evs arbitrary: s) (simp_all add: win_step)

text \<open>
  The UDP sends of the resolver are bounded and counted: after any sequence of events
  \<^verbatim>\<open>sendsInFlight_\<close> is the number of posted sends, at most 16, and at most 4096 datagrams wait.
\<close>

theorem dns_send_window_bounded:
  "r_sendsInFlight (dns_run e evs) = length (r_inFlightSends (dns_run e evs)) \<and>
   length (r_inFlightSends (dns_run e evs)) \<le> 16 \<and> length (r_pendingSends (dns_run e evs)) \<le> 4096"
proof -
  have "win new_resolver" by (simp add: dns_window.window_ok_def new_resolver_def)
  from win_run [OF this, of e evs] show ?thesis by (simp add: dns_window.window_ok_def dns_run_def)
qed

end
