(* ===== verification/Socks5Constants.thy ===== *)
theory Socks5Constants
  imports Prelude
begin

text \<open>
  The protocol constants of \<^verbatim>\<open>server/protocol/Socks5Constants.h\<close> (RFC 1928, 1929 and 1961),
  under the source's names with the namespace as a prefix.  They unfold by simplification.
\<close>

definition kVersion :: byte where [simp]: "kVersion = 0x05"
definition kReserved :: byte where [simp]: "kReserved = 0x00"

definition AddressType_IPv4 :: byte where [simp]: "AddressType_IPv4 = 0x01"
definition AddressType_DomainName :: byte where [simp]: "AddressType_DomainName = 0x03"
definition AddressType_IPv6 :: byte where [simp]: "AddressType_IPv6 = 0x04"

definition Command_Connect :: byte where [simp]: "Command_Connect = 0x01"
definition Command_Bind :: byte where [simp]: "Command_Bind = 0x02"
definition Command_UdpAssociate :: byte where [simp]: "Command_UdpAssociate = 0x03"

definition ReplyCode_Succeeded :: byte where [simp]: "ReplyCode_Succeeded = 0x00"
definition ReplyCode_GeneralFailure :: byte where [simp]: "ReplyCode_GeneralFailure = 0x01"
definition ReplyCode_ConnectionNotAllowed :: byte where [simp]: "ReplyCode_ConnectionNotAllowed = 0x02"
definition ReplyCode_NetworkUnreachable :: byte where [simp]: "ReplyCode_NetworkUnreachable = 0x03"
definition ReplyCode_HostUnreachable :: byte where [simp]: "ReplyCode_HostUnreachable = 0x04"
definition ReplyCode_ConnectionRefused :: byte where [simp]: "ReplyCode_ConnectionRefused = 0x05"
definition ReplyCode_TtlExpired :: byte where [simp]: "ReplyCode_TtlExpired = 0x06"
definition ReplyCode_CommandNotSupported :: byte where [simp]: "ReplyCode_CommandNotSupported = 0x07"
definition ReplyCode_AddressTypeNotSupported :: byte where [simp]: "ReplyCode_AddressTypeNotSupported = 0x08"

definition AuthMethod_NoAuth :: byte where [simp]: "AuthMethod_NoAuth = 0x00"
definition AuthMethod_Gssapi :: byte where [simp]: "AuthMethod_Gssapi = 0x01"
definition AuthMethod_UsernamePassword :: byte where [simp]: "AuthMethod_UsernamePassword = 0x02"
definition AuthMethod_NoAcceptableMethods :: byte where [simp]: "AuthMethod_NoAcceptableMethods = 0xFF"

definition AuthProtocol_Version :: byte where [simp]: "AuthProtocol_Version = 0x01"
definition AuthProtocol_Success :: byte where [simp]: "AuthProtocol_Success = 0x00"
definition AuthProtocol_Failure :: byte where [simp]: "AuthProtocol_Failure = 0x01"

definition Gssapi_Version :: byte where [simp]: "Gssapi_Version = 0x01"
definition Gssapi_MsgAuth :: byte where [simp]: "Gssapi_MsgAuth = 0x01"
definition Gssapi_MsgProtection :: byte where [simp]: "Gssapi_MsgProtection = 0x02"
definition Gssapi_MsgEncapsulated :: byte where [simp]: "Gssapi_MsgEncapsulated = 0x03"
definition Gssapi_MsgAbort :: byte where [simp]: "Gssapi_MsgAbort = 0xFF"
definition Gssapi_ProtectIntegrity :: byte where [simp]: "Gssapi_ProtectIntegrity = 0x01"
definition Gssapi_ProtectConfidentiality :: byte where [simp]: "Gssapi_ProtectConfidentiality = 0x02"
definition Gssapi_ProtectSelective :: byte where [simp]: "Gssapi_ProtectSelective = 0x03"

definition UdpFrag_Standalone :: byte where [simp]: "UdpFrag_Standalone = 0x00"
definition UdpFrag_NumberMask :: byte where [simp]: "UdpFrag_NumberMask = 0x7F"
definition UdpFrag_LastFlag :: byte where [simp]: "UdpFrag_LastFlag = 0x80"

end
