(* ===== verification/UdpRelay.thy ===== *)
theory UdpRelay
  imports Socks5Constants DnsResolver
begin

text \<open>
  The UDP ASSOCIATE relay of \<^verbatim>\<open>server/protocol/UdpRelay.cpp\<close>: source filtering, the SOCKS5 UDP
  header, fragment reassembly, datagrams that wait for a name to be resolved, and the bounded
  send window.

  The state is the record \<open>relay\<close>; each member function is one function on it.  The result of the
  n-th system or IOCP call, the name of the bound socket and the iteration order of the destination
  table come from \<open>relay_env\<close>.  Steady-clock readings are arguments (milliseconds).  Calls that
  leave the relay are recorded in \<open>ur_out\<close>; the answer to a \<open>RelayResolve\<close> comes back through
  \<open>OnResolved\<close>, the callback given to \<^verbatim>\<open>DnsResolver::ResolveAsync\<close>.
\<close>

datatype relay_act =
    RelaySend bytes sockaddr_storage
  | RelayRecv
  | RelayClose
  | RelayResolve string
  | RelayPostUser nat
  | RelayStopped

record relay_env =
  ue_ws :: winsock
  ue_cfg :: netcfg
  ue_ok :: "nat \<Rightarrow> bool"
  ue_sockname :: sockaddr_storage
  ue_ord :: "EndpointKey list \<Rightarrow> EndpointKey list"

record PendingDomainPacket =
  pp_payload :: bytes
  pp_port :: u16

record FragAssembly =
  fa_destination :: sockaddr_storage
  fa_hasIpDestination :: bool
  fa_domain :: string
  fa_port :: u16
  fa_parts :: "(byte, bytes) umap"
  fa_haveLast :: bool
  fa_lastFragNum :: byte
  fa_totalBytes :: nat
  fa_updated :: int

record DnsNotify =
  dn_domain :: string
  dn_ip :: "string option"

record relay =
  ur_clientTcp :: sockaddr_storage
  ur_clientTcpLocal :: sockaddr_storage
  ur_local :: sockaddr_storage
  ur_advertised :: sockaddr_storage
  ur_actualClient :: "sockaddr_storage option"
  ur_socket :: bool
  ur_stop :: bool
  ur_onStopped :: bool
  ur_pendingSends :: "Outbound list"
  ur_inFlightSends :: "Outbound list"
  ur_sendsInFlight :: nat
  ur_dnsNotifies :: "(nat, DnsNotify) umap"
  ur_activeDestinations :: "(EndpointKey, int) umap"
  ur_pendingByDomain :: "(string, PendingDomainPacket list) umap"
  ur_dnsInFlight :: "string list"
  ur_fragAssemblies :: "(string, FragAssembly) umap"
  ur_lastActivity :: int
  ur_lastCleanup :: int
  ur_calls :: nat
  ur_nextCtx :: nat
  ur_out :: "relay_act list"

abbreviation (input) "kCleanupInterval \<equiv> (10000 :: int)"
abbreviation (input) "kFragReassemblyTimeout \<equiv> (5000 :: int)"
abbreviation (input) "kMaxAssembledUdpPayload \<equiv> (65535 :: nat)"
abbreviation (input) "kMaxUdpSendsInFlight \<equiv> (16 :: nat)"
abbreviation (input) "kMaxPendingUdpSends \<equiv> (1024 :: nat)"
abbreviation (input) "kMaxPendingDomains \<equiv> (256 :: nat)"
abbreviation (input) "kMaxPacketsPerDomain \<equiv> (64 :: nat)"
abbreviation (input) "kMaxFragmentAssemblies \<equiv> (256 :: nat)"
abbreviation (input) "kMaxActiveDestinations \<equiv> (4096 :: nat)"

definition UdpIdleTimeout :: "netcfg \<Rightarrow> int" where
  "UdpIdleTimeout c = (if UdpAssociateIdleTimeoutMs c > 0 then UdpAssociateIdleTimeoutMs c else 120000)"

definition new_UdpRelay :: "sockaddr_storage \<Rightarrow> sockaddr_storage \<Rightarrow> bool \<Rightarrow> int \<Rightarrow> relay" where
  "new_UdpRelay clientTcp clientTcpLocal onStopped now =
    \<lparr>ur_clientTcp = clientTcp, ur_clientTcpLocal = clientTcpLocal, ur_local = AddrNone, ur_advertised = AddrNone,
     ur_actualClient = None, ur_socket = False, ur_stop = False, ur_onStopped = onStopped, ur_pendingSends = [],
     ur_inFlightSends = [], ur_sendsInFlight = 0, ur_dnsNotifies = [], ur_activeDestinations = [],
     ur_pendingByDomain = [], ur_dnsInFlight = [], ur_fragAssemblies = [], ur_lastActivity = now,
     ur_lastCleanup = now, ur_calls = 0, ur_nextCtx = 0, ur_out = []\<rparr>"

definition relay_emit :: "relay_act list \<Rightarrow> relay \<Rightarrow> relay" where
  "relay_emit as s = s\<lparr>ur_out := ur_out s @ as\<rparr>"

definition relay_call :: "relay_env \<Rightarrow> relay \<Rightarrow> bool \<times> relay" where
  "relay_call e s = (ue_ok e (ur_calls s), s\<lparr>ur_calls := Suc (ur_calls s)\<rparr>)"


section \<open>Starting and stopping\<close>

definition relay_close :: "relay \<Rightarrow> relay" where
  "relay_close s = (if ur_socket s then relay_emit [RelayClose] (s\<lparr>ur_socket := False\<rparr>) else s)"

definition tryBind :: "relay_env \<Rightarrow> sockaddr_storage \<Rightarrow> relay \<Rightarrow> bool \<times> relay" where
  "tryBind e addrTemplate s =
     (if ss_family addrTemplate \<noteq> AF_INET \<and> ss_family addrTemplate \<noteq> AF_INET6 then (False, s)
      else
        let (created, s1) = relay_call e (relay_close s)
        in if \<not> created then (False, s1)
           else
             let (bound, s2) = relay_call e (s1\<lparr>ur_socket := True\<rparr>)
             in if \<not> bound then (False, relay_close s2) else (True, s2))"

definition any_address :: "sockaddr_storage \<Rightarrow> sockaddr_storage" where
  "any_address client =
     (if ss_family client = AF_INET then AddrIn 0 (replicate 4 0) else AddrIn6 0 0 (replicate 16 0) 0)"

definition BindRelaySocket :: "relay_env \<Rightarrow> relay \<Rightarrow> bool \<times> relay" where
  "BindRelaySocket e s =
     (let (ok1, s1) = tryBind e (ur_clientTcpLocal s) s
      in if ok1 then (True, s1)
         else
           let (ok2, s2) =
             (case FillOutputBindAddress (ue_ws e) 0 (ue_cfg e) of
                None \<Rightarrow> (False, s1)
              | Some output \<Rightarrow> tryBind e output s1)
           in if ok2 then (True, s2) else tryBind e (any_address (ur_clientTcp s2)) s2)"

definition PostNextRecv :: "relay_env \<Rightarrow> relay \<Rightarrow> bool \<times> relay" where
  "PostNextRecv e s =
     (if ur_stop s \<or> \<not> ur_socket s then (False, s)
      else let (ok, s1) = relay_call e s in (ok, if ok then relay_emit [RelayRecv] s1 else s1))"

definition advertise :: "relay_env \<Rightarrow> relay \<Rightarrow> relay" where
  "advertise e s =
     (let local = ue_sockname e
      in s\<lparr>ur_local := local,
           ur_advertised := (if IsAnyAddress (IPToString (ue_ws e) local)
                             then set_port (get_port local) (ur_clientTcpLocal s) else local)\<rparr>)"

definition UdpRelay_Start :: "relay_env \<Rightarrow> relay \<Rightarrow> bool \<times> relay" where
  "UdpRelay_Start e s =
     (let (bound, s1) = BindRelaySocket e s
      in if \<not> bound then (False, s1)
         else
           let (assoc, s2) = relay_call e (advertise e s1)
           in if \<not> assoc then (False, relay_close s2) else PostNextRecv e s2)"

definition UdpRelay_Stop :: "bool \<Rightarrow> relay \<Rightarrow> relay" where
  "UdpRelay_Stop notifySession s =
     (if ur_stop s then s
      else
        let s1 = relay_close (s\<lparr>ur_stop := True\<rparr>);
            s2 = s1\<lparr>ur_pendingSends := [], ur_fragAssemblies := [], ur_pendingByDomain := [], ur_dnsInFlight := []\<rparr>
        in if notifySession \<and> ur_onStopped s2 then relay_emit [RelayStopped] (s2\<lparr>ur_onStopped := False\<rparr>) else s2)"


section \<open>Sending\<close>

function relay_pump :: "relay_env \<Rightarrow> relay \<Rightarrow> relay" where
  "relay_pump e s =
     (if ur_sendsInFlight s < kMaxUdpSendsInFlight \<and> ur_pendingSends s \<noteq> [] \<and> \<not> ur_stop s \<and> ur_socket s then
        let out = hd (ur_pendingSends s);
            (ok, s1) = relay_call e s
        in if \<not> ok then s1
           else relay_pump e
             (relay_emit [RelaySend (ob_data out) (ob_to out)]
                (s1\<lparr>ur_pendingSends := tl (ur_pendingSends s), ur_inFlightSends := ur_inFlightSends s @ [out],
                    ur_sendsInFlight := ur_sendsInFlight s + 1\<rparr>))
      else s)"
  by pat_completeness auto
termination
  by (relation "measure (\<lambda>(e, s). length (ur_pendingSends s))") (auto simp: relay_call_def relay_emit_def)

declare relay_pump.simps [simp del]

definition EnqueueSendLocked :: "relay_env \<Rightarrow> bytes \<times> sockaddr_storage \<Rightarrow> relay \<Rightarrow> relay" where
  "EnqueueSendLocked e m s =
     (if length (ur_pendingSends s) \<ge> kMaxPendingUdpSends then s
      else relay_pump e
        (s\<lparr>ur_pendingSends := ur_pendingSends s @ [\<lparr>ob_ctx = ur_nextCtx s, ob_data = fst m, ob_to = snd m\<rparr>],
           ur_nextCtx := Suc (ur_nextCtx s)\<rparr>))"

definition OnSendCompleted :: "relay_env \<Rightarrow> nat \<Rightarrow> relay \<Rightarrow> relay" where
  "OnSendCompleted e ctx s =
     (case erase_ctx ctx (ur_inFlightSends s) of
        None \<Rightarrow> s
      | Some rest \<Rightarrow>
          let s1 = s\<lparr>ur_inFlightSends := rest\<rparr>;
              s2 = (if ur_sendsInFlight s1 > 0 then s1\<lparr>ur_sendsInFlight := ur_sendsInFlight s1 - 1\<rparr> else s1)
          in if \<not> ur_stop s2 then relay_pump e s2 else s2)"

definition ForwardPayload :: "relay_env \<Rightarrow> int \<Rightarrow> bytes \<Rightarrow> sockaddr_storage \<Rightarrow> relay \<Rightarrow> relay" where
  "ForwardPayload e now payload destination s =
     (let key = EndpointKey_From destination;
          active = (if um_find (ur_activeDestinations s) key = None \<and>
                       length (ur_activeDestinations s) \<ge> kMaxActiveDestinations
                    then um_evict (ue_ord e) 1 (ur_activeDestinations s) else ur_activeDestinations s);
          s1 = s\<lparr>ur_activeDestinations := um_set key now active\<rparr>
      in EnqueueSendLocked e (payload, destination) s1)"

section \<open>Datagrams from the client\<close>

text \<open>
  \<open>DispatchClientPayload\<close>: a datagram for an address is forwarded, one for a name waits for its
  resolution.  \<open>pendingByDomain_[domain]\<close> creates the queue when it is missing, so the size that
  is compared with the limit counts it.
\<close>

definition DispatchClientPayload ::
  "relay_env \<Rightarrow> int \<Rightarrow> sockaddr_storage option \<Rightarrow> string \<Rightarrow> u16 \<Rightarrow> bytes \<Rightarrow> relay \<Rightarrow> relay" where
  "DispatchClientPayload e now ipDestination domain port payload s =
     (case ipDestination of
        Some destination \<Rightarrow> ForwardPayload e now payload destination s
      | None \<Rightarrow>
          if domain = [] then s
          else
            let table = (if um_find (ur_pendingByDomain s) domain = None
                         then um_set domain [] (ur_pendingByDomain s) else ur_pendingByDomain s);
                queue = (case um_find table domain of None \<Rightarrow> [] | Some q \<Rightarrow> q)
            in if queue = [] \<and> length table > kMaxPendingDomains \<or> length queue \<ge> kMaxPacketsPerDomain then
                 s\<lparr>ur_pendingByDomain := (if queue = [] then um_erase domain table else table)\<rparr>
               else
                 let s1 = s\<lparr>ur_pendingByDomain := um_set domain (queue @ [\<lparr>pp_payload = payload, pp_port = port\<rparr>]) table\<rparr>
                 in if domain \<in> set (ur_dnsInFlight s1) then s1
                    else relay_emit [RelayResolve domain] (s1\<lparr>ur_dnsInFlight := domain # ur_dnsInFlight s1\<rparr>))"

text \<open>The callback passed to \<^verbatim>\<open>ResolveAsync\<close>: it posts the answer back to the relay.\<close>

definition OnResolved :: "relay_env \<Rightarrow> string \<Rightarrow> string option \<Rightarrow> relay \<Rightarrow> relay" where
  "OnResolved e domain ip s =
     (if ur_stop s then s
      else
        let ctx = ur_nextCtx s;
            s1 = s\<lparr>ur_nextCtx := Suc ctx, ur_dnsNotifies := um_set ctx \<lparr>dn_domain = domain, dn_ip = ip\<rparr> (ur_dnsNotifies s)\<rparr>;
            (ok, s2) = relay_call e s1
        in if ok then relay_emit [RelayPostUser ctx] s2
           else s2\<lparr>ur_dnsNotifies := um_erase ctx (ur_dnsNotifies s2),
                   ur_dnsInFlight := removeAll domain (ur_dnsInFlight s2),
                   ur_pendingByDomain := um_erase domain (ur_pendingByDomain s2)\<rparr>)"

record assembled =
  as_ip :: "sockaddr_storage option"
  as_domain :: string
  as_port :: u16
  as_payload :: bytes

text \<open>The loop over fragments \<open>1 .. lastFragNum\<close>: \<open>None\<close> when one is missing.\<close>

fun total_of_parts :: "(byte, bytes) umap \<Rightarrow> byte list \<Rightarrow> nat \<Rightarrow> nat option" where
  "total_of_parts parts [] acc = Some acc"
| "total_of_parts parts (i # is) acc =
     (case um_find parts i of
        None \<Rightarrow> None
      | Some part \<Rightarrow>
          if acc + length part > kMaxAssembledUdpPayload then Some (acc + length part)
          else total_of_parts parts is (acc + length part))"

definition frag_numbers :: "byte \<Rightarrow> byte list" where
  "frag_numbers lastNum = map word_of_nat [1..<Suc (unat lastNum)]"

definition join_parts :: "(byte, bytes) umap \<Rightarrow> byte list \<Rightarrow> bytes" where
  "join_parts parts is = concat (map (\<lambda>i. case um_find parts i of None \<Rightarrow> [] | Some p \<Rightarrow> p) is)"

definition new_assembly :: "int \<Rightarrow> sockaddr_storage option \<Rightarrow> string \<Rightarrow> u16 \<Rightarrow> FragAssembly" where
  "new_assembly now ipDestination domain port =
     \<lparr>fa_destination = (case ipDestination of None \<Rightarrow> AddrNone | Some a \<Rightarrow> a),
      fa_hasIpDestination = (ipDestination \<noteq> None),
      fa_domain = (case ipDestination of None \<Rightarrow> domain | Some a \<Rightarrow> []),
      fa_port = port, fa_parts = [], fa_haveLast = False, fa_lastFragNum = 0, fa_totalBytes = 0, fa_updated = now\<rparr>"

text \<open>Storing one fragment and, when all are there, taking the datagram out: the part of
  \<^verbatim>\<open>ProcessFragment\<close> below the table lookup.  \<open>None\<close> erases the assembly.\<close>

definition store_fragment :: "int \<Rightarrow> byte \<Rightarrow> bool \<Rightarrow> bytes \<Rightarrow> FragAssembly \<Rightarrow> FragAssembly option" where
  "store_fragment now fragNum isLast payload a =
     (let oldSize = (case um_find (fa_parts a) fragNum of None \<Rightarrow> 0 | Some p \<Rightarrow> length p);
          newSize = length payload
      in if newSize > kMaxAssembledUdpPayload \<or> fa_totalBytes a - oldSize > kMaxAssembledUdpPayload - newSize then None
         else
           let a1 = a\<lparr>fa_updated := now, fa_parts := um_set fragNum payload (fa_parts a),
                      fa_totalBytes := fa_totalBytes a - oldSize + newSize\<rparr>
           in Some (if isLast then a1\<lparr>fa_haveLast := True, fa_lastFragNum := fragNum\<rparr> else a1))"

definition ProcessFragment ::
  "int \<Rightarrow> byte \<Rightarrow> string \<Rightarrow> sockaddr_storage option \<Rightarrow> string \<Rightarrow> u16 \<Rightarrow> bytes \<Rightarrow> relay \<Rightarrow> assembled option \<times> relay" where
  "ProcessFragment now frag key ipDestination domain port payload s =
     (let fragNum = frag AND UdpFrag_NumberMask;
          isLast = (frag AND UdpFrag_LastFlag \<noteq> 0)
      in if fragNum = 0 then (None, s)
         else if fragNum = 1 \<and> um_find (ur_fragAssemblies s) key = None \<and>
                 length (ur_fragAssemblies s) \<ge> kMaxFragmentAssemblies then (None, s)
         else if fragNum \<noteq> 1 \<and> um_find (ur_fragAssemblies s) key = None then (None, s)
         else
           let s1 = (if fragNum = 1
                     then s\<lparr>ur_fragAssemblies := um_set key (new_assembly now ipDestination domain port) (ur_fragAssemblies s)\<rparr>
                     else s)
           in (case um_find (ur_fragAssemblies s1) key of
                 None \<Rightarrow> (None, s1)
               | Some a \<Rightarrow>
                   (case store_fragment now fragNum isLast payload a of
                      None \<Rightarrow> (None, s1\<lparr>ur_fragAssemblies := um_erase key (ur_fragAssemblies s1)\<rparr>)
                    | Some a1 \<Rightarrow>
                        let s2 = s1\<lparr>ur_fragAssemblies := um_set key a1 (ur_fragAssemblies s1)\<rparr>;
                            s3 = s2\<lparr>ur_fragAssemblies := um_erase key (ur_fragAssemblies s2)\<rparr>
                        in if \<not> fa_haveLast a1 then (None, s2)
                           else (case total_of_parts (fa_parts a1) (frag_numbers (fa_lastFragNum a1)) 0 of
                                   None \<Rightarrow> (None, s2)
                                 | Some acc \<Rightarrow>
                                     if acc > kMaxAssembledUdpPayload then (None, s3)
                                     else (Some \<lparr>as_ip = (if fa_hasIpDestination a1 then Some (fa_destination a1) else None),
                                                 as_domain = fa_domain a1, as_port = fa_port a1,
                                                 as_payload = join_parts (fa_parts a1) (frag_numbers (fa_lastFragNum a1))\<rparr>, s3)))))"

record udp_header =
  uh_frag :: byte
  uh_ip :: "sockaddr_storage option"
  uh_domain :: string
  uh_port :: u16
  uh_key :: string
  uh_payload :: bytes

text \<open>The header part of \<^verbatim>\<open>HandleClientPacket\<close>; reads are checked as in the DNS parser.\<close>

definition parse_client_header :: "winsock \<Rightarrow> bytes \<Rightarrow> dns_exn + udp_header option" where
  "parse_client_header ws data =
     (if length data < 4 then Inr None
      else ebind (rd8 data 2) (\<lambda>frag. ebind (rd8 data 3) (\<lambda>atyp.
        if atyp = AddressType_IPv4 then
          (if length data < 4 + 6 then Inr None
           else ebind (rd_block data 4 4) (\<lambda>a. ebind (ReadU16 data 8) (\<lambda>port.
             Inr (Some \<lparr>uh_frag = frag, uh_ip = Some (AddrIn port a), uh_domain = [], uh_port = port,
                        uh_key = EndpointToString ws (Some (AddrIn port a)), uh_payload = drop 10 data\<rparr>))))
        else if atyp = AddressType_IPv6 then
          (if length data < 4 + 18 then Inr None
           else ebind (rd_block data 4 16) (\<lambda>a. ebind (ReadU16 data 20) (\<lambda>port.
             Inr (Some \<lparr>uh_frag = frag, uh_ip = Some (AddrIn6 port 0 a 0), uh_domain = [], uh_port = port,
                        uh_key = EndpointToString ws (Some (AddrIn6 port 0 a 0)), uh_payload = drop 22 data\<rparr>))))
        else if atyp = AddressType_DomainName then
          (if length data < 4 + 1 then Inr None
           else ebind (rd8 data 4) (\<lambda>len.
             if len = 0 \<or> length data < 5 + unat len + 2 then Inr None
             else ebind (rd_block data 5 (unat len)) (\<lambda>d. ebind (ReadU16 data (5 + unat len)) (\<lambda>port.
               let domain = string_of_bytes d
               in Inr (Some \<lparr>uh_frag = frag, uh_ip = None, uh_domain = domain, uh_port = port,
                             uh_key = ''d:'' @ domain @ '':'' @ to_string (unat port),
                             uh_payload = drop (5 + unat len + 2) data\<rparr>)))))
        else Inr None)))"

definition HandleClientPacket :: "relay_env \<Rightarrow> int \<Rightarrow> bytes \<Rightarrow> relay \<Rightarrow> relay" where
  "HandleClientPacket e now data s =
     (if ur_actualClient s = None then s
      else case parse_client_header (ue_ws e) data of
        Inl _ \<Rightarrow> s
      | Inr None \<Rightarrow> s
      | Inr (Some h) \<Rightarrow>
          if uh_frag h = UdpFrag_Standalone
          then DispatchClientPayload e now (uh_ip h) (uh_domain h) (uh_port h) (uh_payload h) s
          else (case ProcessFragment now (uh_frag h) (uh_key h) (uh_ip h) (uh_domain h) (uh_port h) (uh_payload h) s of
                  (None, s1) \<Rightarrow> s1
                | (Some a, s1) \<Rightarrow> DispatchClientPayload e now (as_ip a) (as_domain a) (as_port a) (as_payload a) s1))"


section \<open>Datagrams from a destination\<close>

fun response_header :: "sockaddr_storage \<Rightarrow> bytes" where
  "response_header (AddrIn port a) = [0, 0, 0, AddressType_IPv4] @ a @ [hi8 port, lo8 port]"
| "response_header (AddrIn6 port f a sc) = [0, 0, 0, AddressType_IPv6] @ a @ [hi8 port, lo8 port]"
| "response_header AddrNone = [0, 0, 0, AddressType_IPv6] @ replicate 18 0"

definition HandleServerResponse :: "relay_env \<Rightarrow> bytes \<Rightarrow> sockaddr_storage \<Rightarrow> relay \<Rightarrow> relay" where
  "HandleServerResponse e data source s =
     (case ur_actualClient s of
        None \<Rightarrow> s
      | Some client \<Rightarrow>
          if um_find (ur_activeDestinations s) (EndpointKey_From source) = None then s
          else EnqueueSendLocked e (response_header source @ data, client) s)"

definition HandlePacket :: "relay_env \<Rightarrow> int \<Rightarrow> bytes \<Rightarrow> sockaddr_storage \<Rightarrow> relay \<Rightarrow> relay" where
  "HandlePacket e now data remote s =
     (let dispatch = (\<lambda>client s1.
            if EndpointKey_eq (EndpointKey_From remote) (EndpointKey_From client)
            then HandleClientPacket e now data s1 else HandleServerResponse e data remote s1)
      in (case ur_actualClient s of
            Some client \<Rightarrow> dispatch client s
          | None \<Rightarrow>
              if IPToString (ue_ws e) remote = IPToString (ue_ws e) (ur_clientTcp s)
              then dispatch remote (s\<lparr>ur_actualClient := Some remote\<rparr>)
              else s))"

definition CleanupState :: "relay_env \<Rightarrow> int \<Rightarrow> relay \<Rightarrow> relay" where
  "CleanupState e now s =
     s\<lparr>ur_activeDestinations := filter (\<lambda>(k, t). \<not> now - t > UdpIdleTimeout (ue_cfg e)) (ur_activeDestinations s),
       ur_fragAssemblies := filter (\<lambda>(k, a). \<not> now - fa_updated a > kFragReassemblyTimeout) (ur_fragAssemblies s)\<rparr>"

section \<open>Names that have been resolved\<close>

lemma pendingByDomain_pump [simp]: "ur_pendingByDomain (relay_pump e s) = ur_pendingByDomain s"
proof (induction e s rule: relay_pump.induct)
  case (1 e s)
  show ?case
  proof (cases "ur_sendsInFlight s < 16 \<and> ur_pendingSends s \<noteq> [] \<and> \<not> ur_stop s \<and> ur_socket s")
    case True
    with 1 show ?thesis
      by (subst relay_pump.simps) (auto simp: relay_call_def Let_def relay_emit_def)
  qed (subst relay_pump.simps, auto)
qed

lemma pendingByDomain_Enqueue [simp]: "ur_pendingByDomain (EnqueueSendLocked e m s) = ur_pendingByDomain s"
  by (simp add: EnqueueSendLocked_def)

lemma pendingByDomain_Forward [simp]: "ur_pendingByDomain (ForwardPayload e now p d s) = ur_pendingByDomain s"
  by (simp add: ForwardPayload_def Let_def)

definition forward_batch :: "relay_env \<Rightarrow> int \<Rightarrow> sockaddr_storage \<Rightarrow> PendingDomainPacket list \<Rightarrow> relay \<Rightarrow> relay" where
  "forward_batch e now destination batch s =
     fold (\<lambda>p. ForwardPayload e now (pp_payload p) (set_port (pp_port p) destination)) batch s"

lemma pendingByDomain_batch [simp]: "ur_pendingByDomain (forward_batch e now d batch s) = ur_pendingByDomain s"
  unfolding forward_batch_def by (induction batch arbitrary: s) simp_all

function OnDnsNotify_loop :: "relay_env \<Rightarrow> int \<Rightarrow> DnsNotify \<Rightarrow> relay \<Rightarrow> relay" where
  "OnDnsNotify_loop e now n s =
     (case um_find (ur_pendingByDomain s) (dn_domain n) of
        None \<Rightarrow> s\<lparr>ur_dnsInFlight := removeAll (dn_domain n) (ur_dnsInFlight s)\<rparr>
      | Some [] \<Rightarrow> s\<lparr>ur_dnsInFlight := removeAll (dn_domain n) (ur_dnsInFlight s)\<rparr>
      | Some (p # ps) \<Rightarrow>
          let s1 = s\<lparr>ur_pendingByDomain := um_set (dn_domain n) [] (ur_pendingByDomain s)\<rparr>
          in (case dn_ip n of
                None \<Rightarrow> s1\<lparr>ur_pendingByDomain := um_erase (dn_domain n) (ur_pendingByDomain s1),
                           ur_dnsInFlight := removeAll (dn_domain n) (ur_dnsInFlight s1)\<rparr>
              | Some ip \<Rightarrow>
                  (case ParseIP (ue_ws e) ip of
                     None \<Rightarrow> OnDnsNotify_loop e now n s1
                   | Some (destination, family) \<Rightarrow>
                       OnDnsNotify_loop e now n (forward_batch e now destination (p # ps) s1))))"
  by pat_completeness auto
termination
  by (relation "measure (\<lambda>(e, now, n, s). case um_find (ur_pendingByDomain s) (dn_domain n) of None \<Rightarrow> 0 | Some q \<Rightarrow> length q)")
    auto

declare OnDnsNotify_loop.simps [simp del]

definition OnDnsNotify :: "relay_env \<Rightarrow> int \<Rightarrow> DnsNotify \<Rightarrow> relay \<Rightarrow> relay" where
  "OnDnsNotify e now n s = (if ur_stop s then s else OnDnsNotify_loop e now n s)"


section \<open>Completions\<close>

definition OnUserDone :: "relay_env \<Rightarrow> int \<Rightarrow> nat \<Rightarrow> relay \<Rightarrow> relay" where
  "OnUserDone e now ctx s =
     (case um_find (ur_dnsNotifies s) ctx of
        None \<Rightarrow> s
      | Some n \<Rightarrow>
          let s1 = s\<lparr>ur_dnsNotifies := um_erase ctx (ur_dnsNotifies s)\<rparr>
          in if \<not> ur_stop s1 then OnDnsNotify e now n s1 else s1)"

text \<open>The receive completion; \<open>later\<close> is the clock when the packet has been handled.\<close>

definition OnRecvDone :: "relay_env \<Rightarrow> int \<Rightarrow> int \<Rightarrow> bytes \<Rightarrow> bool \<Rightarrow> sockaddr_storage \<Rightarrow> relay \<Rightarrow> relay" where
  "OnRecvDone e now later data error remote s =
     (if ur_stop s then s
      else
        let s1 = (if \<not> error \<and> data \<noteq> [] then
                    let s2 = HandlePacket e now data remote (s\<lparr>ur_lastActivity := now\<rparr>)
                    in if later - ur_lastCleanup s2 > kCleanupInterval
                       then (CleanupState e later s2)\<lparr>ur_lastCleanup := later\<rparr> else s2
                  else s)
        in if later - ur_lastActivity s1 > UdpIdleTimeout (ue_cfg e) then UdpRelay_Stop True s1
           else
             let (ok, s3) = PostNextRecv e s1
             in if ok then s3 else UdpRelay_Stop True s3)"

datatype relay_event =
    RvStart
  | RvStop bool
  | RvResolved string "string option"
  | RvUser nat
  | RvSendTo nat
  | RvRecvFrom int bytes bool sockaddr_storage

fun relay_step :: "relay_env \<Rightarrow> int \<times> relay_event \<Rightarrow> relay \<Rightarrow> relay" where
  "relay_step e (now, RvStart) s = snd (UdpRelay_Start e s)"
| "relay_step e (now, RvStop notify) s = UdpRelay_Stop notify s"
| "relay_step e (now, RvResolved domain ip) s = OnResolved e domain ip s"
| "relay_step e (now, RvUser ctx) s = OnUserDone e now ctx s"
| "relay_step e (now, RvSendTo ctx) s = OnSendCompleted e ctx s"
| "relay_step e (now, RvRecvFrom later data error remote) s = OnRecvDone e now later data error remote s"

definition relay_run :: "relay_env \<Rightarrow> (int \<times> relay_event) list \<Rightarrow> relay \<Rightarrow> relay" where
  "relay_run e evs s = fold (relay_step e) evs s"

end
