(* ===== verification/UdpRelayLaws.thy ===== *)
theory UdpRelayLaws
  imports UdpRelay
begin

text \<open>
  What the UDP relay guarantees: the send window, the limits of every table, the reassembly
  of fragments, the header round trip, and two behaviours of the code that its
  documentation does not promise (names that keep their table slot, an idle limit that only a
  receive can trip).
\<close>

section \<open>The send window\<close>

lemma relay_pump_step:
  "ur_sendsInFlight s < kMaxUdpSendsInFlight \<Longrightarrow> ur_pendingSends s = x # xs \<Longrightarrow> \<not> ur_stop s \<Longrightarrow> ur_socket s \<Longrightarrow>
   ue_ok e (ur_calls s) \<Longrightarrow>
   relay_pump e s = relay_pump e (relay_emit [RelaySend (ob_data x) (ob_to x)]
     (s\<lparr>ur_calls := Suc (ur_calls s), ur_pendingSends := xs, ur_inFlightSends := ur_inFlightSends s @ [x],
        ur_sendsInFlight := ur_sendsInFlight s + 1\<rparr>))"
  by (subst relay_pump.simps) (simp add: relay_call_def)

lemma relay_pump_moves:
  "\<exists>k. k \<le> length (ur_pendingSends s) \<and> (0 < k \<longrightarrow> ur_sendsInFlight s + k \<le> kMaxUdpSendsInFlight) \<and>
     ur_sendsInFlight (relay_pump e s) = ur_sendsInFlight s + k \<and>
     ur_inFlightSends (relay_pump e s) = ur_inFlightSends s @ take k (ur_pendingSends s) \<and>
     ur_pendingSends (relay_pump e s) = drop k (ur_pendingSends s)"
proof (induction "length (ur_pendingSends s)" arbitrary: s)
  case 0
  then show ?case by (intro exI [of _ 0]) (subst relay_pump.simps, simp)+
next
  case (Suc n)
  then obtain x xs where xs: "ur_pendingSends s = x # xs" by (cases "ur_pendingSends s") auto
  show ?case
  proof (cases "ur_sendsInFlight s < 16 \<and> \<not> ur_stop s \<and> ur_socket s \<and> ue_ok e (ur_calls s)")
    case False
    then show ?thesis
      by (intro exI [of _ 0]) (subst relay_pump.simps, auto simp: relay_call_def)+
  next
    case True
    let ?s = "relay_emit [RelaySend (ob_data x) (ob_to x)]
     (s\<lparr>ur_calls := Suc (ur_calls s), ur_pendingSends := xs, ur_inFlightSends := ur_inFlightSends s @ [x],
        ur_sendsInFlight := ur_sendsInFlight s + 1\<rparr>)"
    have n: "n = length (ur_pendingSends ?s)" using Suc.hyps(2) xs by (simp add: relay_emit_def)
    from Suc.hyps(1) [OF n] obtain k where
      k: "k \<le> length xs" "0 < k \<longrightarrow> ur_sendsInFlight s + 1 + k \<le> 16"
      "ur_sendsInFlight (relay_pump e ?s) = ur_sendsInFlight s + 1 + k"
      "ur_inFlightSends (relay_pump e ?s) = ur_inFlightSends s @ x # take k xs"
      "ur_pendingSends (relay_pump e ?s) = drop k xs"
      by (auto simp: relay_emit_def)
    show ?thesis
      using True k xs by (intro exI [of _ "Suc k"]) (auto simp: relay_pump_step)
  qed
qed

interpretation relay_window: send_window ur_pendingSends ur_inFlightSends ur_sendsInFlight 16 1024
  "relay_pump e" "EnqueueSendLocked e" "\<lambda>m s x. ob_data x = fst m \<and> ob_to x = snd m" "OnSendCompleted e" for e
proof
  show "(ur_pendingSends (EnqueueSendLocked e m s), ur_inFlightSends (EnqueueSendLocked e m s),
         ur_sendsInFlight (EnqueueSendLocked e m s)) = (ur_pendingSends s, ur_inFlightSends s, ur_sendsInFlight s) \<or>
       (length (ur_pendingSends s) < 1024 \<and>
        (\<exists>s1 x. EnqueueSendLocked e m s = relay_pump e s1 \<and> (ob_data x = fst m \<and> ob_to x = snd m) \<and>
                ur_pendingSends s1 = ur_pendingSends s @ [x] \<and> ur_inFlightSends s1 = ur_inFlightSends s \<and>
                ur_sendsInFlight s1 = ur_sendsInFlight s))" for m s
  proof (cases "length (ur_pendingSends s) \<ge> 1024")
    case False
    let ?x = "\<lparr>ob_ctx = ur_nextCtx s, ob_data = fst m, ob_to = snd m\<rparr>"
    from False show ?thesis
      by (intro disjI2 conjI exI [of _ "s\<lparr>ur_pendingSends := ur_pendingSends s @ [?x], ur_nextCtx := Suc (ur_nextCtx s)\<rparr>"]
          exI [of _ ?x]) (simp_all add: EnqueueSendLocked_def)
  qed (simp add: EnqueueSendLocked_def)
  show "case erase_ctx c (ur_inFlightSends s) of
          None \<Rightarrow> (ur_pendingSends (OnSendCompleted e c s), ur_inFlightSends (OnSendCompleted e c s),
                   ur_sendsInFlight (OnSendCompleted e c s)) = (ur_pendingSends s, ur_inFlightSends s, ur_sendsInFlight s)
        | Some rest \<Rightarrow> (\<exists>s1. (OnSendCompleted e c s = s1 \<or> OnSendCompleted e c s = relay_pump e s1) \<and>
                           ur_pendingSends s1 = ur_pendingSends s \<and> ur_inFlightSends s1 = rest \<and>
                           ur_sendsInFlight s1 = ur_sendsInFlight s - 1)" for c s
  proof (cases "erase_ctx c (ur_inFlightSends s)")
    case (Some rest)
    then show ?thesis
      by (auto simp: OnSendCompleted_def Let_def
          intro!: exI [of _ "if ur_sendsInFlight s > 0
            then s\<lparr>ur_inFlightSends := rest, ur_sendsInFlight := ur_sendsInFlight s - 1\<rparr> else s\<lparr>ur_inFlightSends := rest\<rparr>"])
  qed (simp add: OnSendCompleted_def)
qed (rule relay_pump_moves)


section \<open>Fragment assemblies\<close>

definition parts_size :: "(byte, bytes) umap \<Rightarrow> nat" where
  "parts_size parts = sum_list (map (\<lambda>p. length (snd p)) parts)"

definition part_len :: "(byte, bytes) umap \<Rightarrow> byte \<Rightarrow> nat" where
  "part_len parts i = (case um_find parts i of None \<Rightarrow> 0 | Some p \<Rightarrow> length p)"

definition assembly_ok :: "FragAssembly \<Rightarrow> bool" where
  "assembly_ok a \<longleftrightarrow> um_wf (fa_parts a) \<and> fa_totalBytes a = parts_size (fa_parts a) \<and>
     fa_totalBytes a \<le> kMaxAssembledUdpPayload \<and>
     (fa_haveLast a \<longrightarrow> 0 < unat (fa_lastFragNum a) \<and> unat (fa_lastFragNum a) < 128)"

lemma parts_size_set: "parts_size (um_set i p m) + part_len m i = parts_size m + length p"
  by (induction m) (auto simp: parts_size_def part_len_def)

lemma part_len_le: "part_len m i \<le> parts_size m"
  by (induction m) (auto simp: parts_size_def part_len_def)

lemma parts_size_sum: "um_wf m \<Longrightarrow> parts_size m = (\<Sum>i\<in>fst ` set m. part_len m i)"
proof (induction m)
  case (Cons kv m)
  obtain k v where kv: "kv = (k, v)" by fastforce
  from Cons.prems have k: "k \<notin> fst ` set m" "um_wf m" by (auto simp: um_wf_def kv)
  then have "part_len ((k, v) # m) i = part_len m i" if "i \<in> fst ` set m" for i
    using that by (auto simp: part_len_def)
  then have "(\<Sum>i\<in>fst ` set m. part_len ((k, v) # m) i) = (\<Sum>i\<in>fst ` set m. part_len m i)"
    by (intro sum.cong) auto
  with Cons.IH k show ?case
    by (simp add: kv) (simp add: parts_size_def part_len_def)
qed (simp add: parts_size_def)

lemma join_parts_length: "length (join_parts m is) = sum_list (map (part_len m) is)"
  by (induction "is") (auto simp: join_parts_def part_len_def split: option.splits)

lemma join_parts_le:
  assumes "um_wf m" and "distinct is"
  shows "length (join_parts m is) \<le> parts_size m"
proof -
  have "length (join_parts m is) = (\<Sum>i\<in>set is. part_len m i)"
    using assms(2) by (simp add: join_parts_length sum_list_distinct_conv_sum_set)
  also have "\<dots> = (\<Sum>i\<in>set is \<inter> fst ` set m. part_len m i)"
    by (rule sum.mono_neutral_right) (auto simp: part_len_def map_of_eq_None_iff split: option.splits dest: map_of_SomeD intro: rev_image_eqI)
  also have "\<dots> \<le> (\<Sum>i\<in>fst ` set m. part_len m i)" by (rule sum_mono2) auto
  finally show ?thesis by (simp add: parts_size_sum [OF assms(1)])
qed

lemma total_of_parts_eq:
  "acc + length (join_parts parts is) \<le> kMaxAssembledUdpPayload \<Longrightarrow>
   total_of_parts parts is acc =
     (if \<forall>i\<in>set is. um_find parts i \<noteq> None then Some (acc + length (join_parts parts is)) else None)"
  by (induction "is" arbitrary: acc) (auto simp: join_parts_def split: option.splits)

lemma frag_numbers_distinct: "distinct (frag_numbers n)"
proof -
  have "inj_on (word_of_nat :: nat \<Rightarrow> byte) {1..<Suc (unat n)}"
  proof (rule inj_onI)
    fix x y assume "x \<in> {1..<Suc (unat n)}" "y \<in> {1..<Suc (unat n)}" "(word_of_nat x :: byte) = word_of_nat y"
    moreover from this have "x < 256" "y < 256" using unat_byte_less [of n] by (simp_all del: unat_byte_less)
    ultimately show "x = y" by (simp add: word_of_nat_eq_iff take_bit_nat_eq_self)
  qed
  then show ?thesis by (simp add: frag_numbers_def distinct_map del: upt_Suc)
qed

lemma store_fragment_ok:
  assumes "assembly_ok a" and "store_fragment now i l p a = Some a'" and "0 < unat i" and "unat i < 128"
  shows "assembly_ok a'"
proof -
  have old: "part_len (fa_parts a) i \<le> fa_totalBytes a"
    using assms(1) part_len_le [of "fa_parts a" i] by (simp add: assembly_ok_def)
  have le: "length p \<le> 65535" "fa_totalBytes a - part_len (fa_parts a) i \<le> 65535 - length p"
    using assms(2) by (auto simp: store_fragment_def Let_def part_len_def split: if_splits)
  have a': "fa_parts a' = um_set i p (fa_parts a)" "fa_totalBytes a' = fa_totalBytes a - part_len (fa_parts a) i + length p"
    "fa_haveLast a' \<longrightarrow> fa_lastFragNum a' = i \<or> fa_haveLast a \<and> fa_lastFragNum a' = fa_lastFragNum a"
    using assms(2) by (auto simp: store_fragment_def Let_def part_len_def split: if_splits)
  have "fa_totalBytes a' = parts_size (fa_parts a')"
    using assms(1) old parts_size_set [of i p "fa_parts a"] by (simp add: a' assembly_ok_def)
  moreover have "fa_totalBytes a' \<le> 65535" using le by (simp add: a')
  ultimately show ?thesis
    using assms a'(3) by (auto simp: assembly_ok_def a'(1))
qed

text \<open>The size check inside the final loop can never fail.\<close>

lemma assembly_total:
  assumes "assembly_ok a"
  shows "total_of_parts (fa_parts a) (frag_numbers n) 0 =
    (if \<forall>i\<in>set (frag_numbers n). um_find (fa_parts a) i \<noteq> None
     then Some (length (join_parts (fa_parts a) (frag_numbers n))) else None)"
    and "length (join_parts (fa_parts a) (frag_numbers n)) \<le> kMaxAssembledUdpPayload"
proof -
  show le: "length (join_parts (fa_parts a) (frag_numbers n)) \<le> kMaxAssembledUdpPayload"
    using join_parts_le [OF _ frag_numbers_distinct, of "fa_parts a" n] assms by (simp add: assembly_ok_def)
  then show "total_of_parts (fa_parts a) (frag_numbers n) 0 =
    (if \<forall>i\<in>set (frag_numbers n). um_find (fa_parts a) i \<noteq> None
     then Some (length (join_parts (fa_parts a) (frag_numbers n))) else None)"
    using total_of_parts_eq [of 0 "fa_parts a" "frag_numbers n"] by simp
qed

section \<open>Reassembly of a fragmented datagram\<close>

definition frag_byte :: "nat \<Rightarrow> bool \<Rightarrow> byte" where
  "frag_byte i isLast = (if isLast then word_of_nat i OR UdpFrag_LastFlag else word_of_nat i)"

lemma small_byte_mask:
  assumes "i < 128"
  shows "(word_of_nat i :: byte) AND 0x7F = word_of_nat i" and "(word_of_nat i :: byte) AND 0x80 = 0"
proof -
  have m: "(0x7F :: byte) = mask 7" by (simp add: mask_eq_exp_minus_1)
  show a: "(word_of_nat i :: byte) AND 0x7F = word_of_nat i"
    unfolding m take_bit_eq_mask [symmetric] using assms by (simp add: take_bit_of_nat take_bit_nat_eq_self)
  have "(word_of_nat i :: byte) AND 0x80 = word_of_nat i AND (0x7F AND 0x80)"
    using a by (metis and.assoc)
  then show "(word_of_nat i :: byte) AND 0x80 = 0" by simp
qed

lemma frag_byte_fields:
  assumes "0 < i" and "i < 128"
  shows "frag_byte i l AND UdpFrag_NumberMask = word_of_nat i" and "(frag_byte i l AND UdpFrag_LastFlag \<noteq> 0) = l"
    and "unat (word_of_nat i :: byte) = i" and "(word_of_nat i :: byte) \<noteq> 0"
proof -
  show u: "unat (word_of_nat i :: byte) = i" using assms by (simp add: unat_of_nat take_bit_nat_eq_self)
  then show "(word_of_nat i :: byte) \<noteq> 0" using assms(1) by auto
  show "frag_byte i l AND UdpFrag_NumberMask = word_of_nat i" "(frag_byte i l AND UdpFrag_LastFlag \<noteq> 0) = l"
    using small_byte_mask [OF assms(2)] by (simp_all add: frag_byte_def bit.conj_disj_distrib2)
qed

text \<open>The fragments \<open>i, i+1, \<dots>\<close> of a datagram arrive in order; the last one carries the flag.\<close>

fun feed_fragments ::
  "int \<Rightarrow> string \<Rightarrow> sockaddr_storage option \<Rightarrow> string \<Rightarrow> u16 \<Rightarrow> nat \<Rightarrow> bytes list \<Rightarrow> relay \<Rightarrow> assembled option \<times> relay" where
  "feed_fragments now key ip domain port i [] s = (None, s)"
| "feed_fragments now key ip domain port i (p # ps) s =
     (let (r, s1) = ProcessFragment now (frag_byte i (ps = [])) key ip domain port p s
      in if ps = [] then (r, s1) else feed_fragments now key ip domain port (Suc i) ps s1)"

text \<open>\<open>partial\<close>: the assembly after the fragments \<open>qs\<close>.\<close>

definition partial :: "int \<Rightarrow> sockaddr_storage option \<Rightarrow> string \<Rightarrow> u16 \<Rightarrow> bytes list \<Rightarrow> FragAssembly \<Rightarrow> bool" where
  "partial now ip domain port qs a \<longleftrightarrow>
     assembly_ok a \<and> \<not> fa_haveLast a \<and> fa_totalBytes a = length (concat qs) \<and>
     fa_hasIpDestination a = (ip \<noteq> None) \<and> (ip \<noteq> None \<longrightarrow> ip = Some (fa_destination a)) \<and>
     (ip = None \<longrightarrow> fa_domain a = domain) \<and> (ip \<noteq> None \<longrightarrow> fa_domain a = []) \<and> fa_port a = port \<and>
     (\<forall>i::byte. um_find (fa_parts a) i = (if 0 < unat i \<and> unat i \<le> length qs then Some (qs ! (unat i - 1)) else None))"

lemma partial_new: "partial now ip domain port [] (new_assembly now ip domain port)"
  by (auto simp: partial_def new_assembly_def assembly_ok_def parts_size_def split: option.splits)

lemma partial_store:
  assumes a: "partial now ip domain port qs a" and n: "Suc (length qs) < 128"
    and room: "length (concat qs) + length p \<le> kMaxAssembledUdpPayload"
  defines "i \<equiv> (word_of_nat (Suc (length qs)) :: byte)"
  shows "\<exists>a'. store_fragment now i False p a = Some a' \<and> partial now ip domain port (qs @ [p]) a'"
    and "\<exists>a'. store_fragment now i True p a = Some a' \<and> partial now ip domain port (qs @ [p]) (a'\<lparr>fa_haveLast := False\<rparr>) \<and>
           assembly_ok a' \<and> fa_haveLast a' \<and> fa_lastFragNum a' = i"
proof -
  have u: "unat i = Suc (length qs)" using n by (simp add: i_def unat_of_nat take_bit_nat_eq_self del: of_nat_Suc)
  then have old: "um_find (fa_parts a) i = None" and tot: "fa_totalBytes a = length (concat qs)"
    using a by (simp_all add: partial_def)
  let ?a = "a\<lparr>fa_updated := now, fa_parts := um_set i p (fa_parts a), fa_totalBytes := fa_totalBytes a + length p\<rparr>"
  have f: "store_fragment now i False p a = Some ?a"
    and t: "store_fragment now i True p a = Some (?a\<lparr>fa_haveLast := True, fa_lastFragNum := i\<rparr>)"
    using tot room old by (simp_all add: store_fragment_def Let_def)
  have ok: "assembly_ok ?a" "assembly_ok (?a\<lparr>fa_haveLast := True, fa_lastFragNum := i\<rparr>)"
    using store_fragment_ok [OF _ f] store_fragment_ok [OF _ t] a u n by (auto simp: partial_def)
  have parts: "um_find (um_set i p (fa_parts a)) j =
      (if 0 < unat j \<and> unat j \<le> Suc (length qs) then Some ((qs @ [p]) ! (unat j - 1)) else None)" for j
  proof (cases "j = i")
    case False
    then have "unat j \<noteq> Suc (length qs)" using u by (metis word_unat_eq_iff)
    with False a show ?thesis by (auto simp: partial_def nth_append)
  qed (simp add: u)
  have p: "partial now ip domain port (qs @ [p]) ?a"
    using a ok(1) parts unfolding partial_def by simp
  with f show "\<exists>a'. store_fragment now i False p a = Some a' \<and> partial now ip domain port (qs @ [p]) a'" by blast
  have eq: "?a\<lparr>fa_haveLast := True, fa_lastFragNum := i, fa_haveLast := False\<rparr> = ?a\<lparr>fa_lastFragNum := i, fa_haveLast := False\<rparr>"
    by simp
  have "partial now ip domain port (qs @ [p]) (?a\<lparr>fa_haveLast := True, fa_lastFragNum := i\<rparr>\<lparr>fa_haveLast := False\<rparr>)"
    using p by (simp add: partial_def assembly_ok_def)
  with t ok(2) show "\<exists>a'. store_fragment now i True p a = Some a' \<and> partial now ip domain port (qs @ [p]) (a'\<lparr>fa_haveLast := False\<rparr>) \<and>
           assembly_ok a' \<and> fa_haveLast a' \<and> fa_lastFragNum a' = i" by force
qed

lemma join_all:
  assumes "\<And>i::byte. um_find m i = (if 0 < unat i \<and> unat i \<le> length qs then Some (qs ! (unat i - 1)) else None)"
    and "length qs < 128"
  shows "join_parts m (frag_numbers (word_of_nat (length qs))) = concat qs"
    and "\<forall>i\<in>set (frag_numbers (word_of_nat (length qs))). um_find m i \<noteq> None"
proof -
  have u: "unat (word_of_nat k :: byte) = k" if "k \<le> length qs" for k
    using that assms(2) by (simp add: unat_of_nat take_bit_nat_eq_self)
  have "map (\<lambda>k. case um_find m (word_of_nat k) of None \<Rightarrow> [] | Some p \<Rightarrow> p) [1..<Suc (length qs)] = qs"
  proof (rule nth_equalityI)
    fix k assume "k < length (map (\<lambda>k. case um_find m (word_of_nat k) of None \<Rightarrow> [] | Some p \<Rightarrow> p) [1..<Suc (length qs)])"
    then show "map (\<lambda>k. case um_find m (word_of_nat k) of None \<Rightarrow> [] | Some p \<Rightarrow> p) [1..<Suc (length qs)] ! k = qs ! k"
      using u [of "Suc k"] by (simp add: assms(1) del: upt_Suc of_nat_Suc)
  qed (simp del: upt_Suc)
  then show "join_parts m (frag_numbers (word_of_nat (length qs))) = concat qs"
    by (simp add: join_parts_def frag_numbers_def u comp_def del: upt_Suc)
  show "\<forall>i\<in>set (frag_numbers (word_of_nat (length qs))). um_find m i \<noteq> None"
    using u by (auto simp: frag_numbers_def assms(1))
qed

lemma feed_next:
  assumes a: "um_find (ur_fragAssemblies s) key = Some a" "partial now ip domain port qs a" and qs: "qs \<noteq> []"
    and n: "Suc (length qs) < 128" and room: "length (concat qs) + length p \<le> kMaxAssembledUdpPayload"
  shows "\<exists>s' a'. ProcessFragment now (frag_byte (Suc (length qs)) False) key ip domain port p s = (None, s') \<and>
           um_find (ur_fragAssemblies s') key = Some a' \<and> partial now ip domain port (qs @ [p]) a'"
    and "\<exists>s'. ProcessFragment now (frag_byte (Suc (length qs)) True) key ip domain port p s =
           (Some \<lparr>as_ip = ip, as_domain = (if ip = None then domain else []), as_port = port, as_payload = concat (qs @ [p])\<rparr>, s') \<and>
           um_find (ur_fragAssemblies s') key = None"
proof -
  let ?i = "word_of_nat (Suc (length qs)) :: byte"
  note b = frag_byte_fields [of "Suc (length qs)", OF zero_less_Suc n]
  have ne1: "?i \<noteq> 1" using b(3) qs by (metis length_0_conv nat.inject unsigned_1 One_nat_def)
  obtain a' where a': "store_fragment now ?i False p a = Some a'" "partial now ip domain port (qs @ [p]) a'"
    using partial_store(1) [OF a(2) n room] by blast
  then have "\<not> fa_haveLast a'" by (simp add: partial_def)
  with a a' show "\<exists>s' a'. ProcessFragment now (frag_byte (Suc (length qs)) False) key ip domain port p s = (None, s') \<and>
           um_find (ur_fragAssemblies s') key = Some a' \<and> partial now ip domain port (qs @ [p]) a'"
    unfolding ProcessFragment_def b(1,2) by (simp add: b(4) ne1 Let_def del: of_nat_Suc)
  obtain c where c: "store_fragment now ?i True p a = Some c" "partial now ip domain port (qs @ [p]) (c\<lparr>fa_haveLast := False\<rparr>)"
    "assembly_ok c" "fa_haveLast c" "fa_lastFragNum c = word_of_nat (length (qs @ [p]))"
    using partial_store(2) [OF a(2) n room] by auto
  note j = join_all [of "fa_parts c" "qs @ [p]"]
  have parts: "um_find (fa_parts c) i =
      (if 0 < unat i \<and> unat i \<le> length (qs @ [p]) then Some ((qs @ [p]) ! (unat i - 1)) else None)" for i
    using c(2) by (simp add: partial_def)
  have jo: "join_parts (fa_parts c) (frag_numbers (fa_lastFragNum c)) = concat (qs @ [p])"
    "\<forall>i\<in>set (frag_numbers (fa_lastFragNum c)). um_find (fa_parts c) i \<noteq> None"
    using j [OF parts] n unfolding c(5) by simp_all
  have tot: "total_of_parts (fa_parts c) (frag_numbers (fa_lastFragNum c)) 0 = Some (length (concat (qs @ [p])))"
    using assembly_total(1) [OF c(3)] jo by simp
  have fields: "(if fa_hasIpDestination c then Some (fa_destination c) else None) = ip" "fa_port c = port"
    "fa_domain c = (if ip = None then domain else [])"
    using c(2) by (auto simp: partial_def)
  show "\<exists>s'. ProcessFragment now (frag_byte (Suc (length qs)) True) key ip domain port p s =
           (Some \<lparr>as_ip = ip, as_domain = (if ip = None then domain else []), as_port = port, as_payload = concat (qs @ [p])\<rparr>, s') \<and>
           um_find (ur_fragAssemblies s') key = None"
    using a(1) room fields
    unfolding ProcessFragment_def b(1,2) by (simp add: b(4) ne1 Let_def c(1,4) tot jo(1) del: of_nat_Suc)
qed

lemma feed_fragments_rest:
  "um_find (ur_fragAssemblies s) key = Some a \<Longrightarrow> partial now ip domain port qs a \<Longrightarrow> qs \<noteq> [] \<Longrightarrow> ps \<noteq> [] \<Longrightarrow>
   length qs + length ps < 128 \<Longrightarrow> length (concat qs) + length (concat ps) \<le> kMaxAssembledUdpPayload \<Longrightarrow>
   \<exists>s'. feed_fragments now key ip domain port (Suc (length qs)) ps s =
     (Some \<lparr>as_ip = ip, as_domain = (if ip = None then domain else []), as_port = port, as_payload = concat (qs @ ps)\<rparr>, s') \<and>
     um_find (ur_fragAssemblies s') key = None"
proof (induction ps arbitrary: qs s a)
  case (Cons p ps)
  show ?case
  proof (cases "ps = []")
    case True
    with feed_next(2) [OF Cons.prems(1-3), of p] Cons.prems show ?thesis by auto
  next
    case False
    have "Suc (length qs) < 128" "length (concat qs) + length p \<le> kMaxAssembledUdpPayload"
      using Cons.prems(5,6) by auto
    from feed_next(1) [OF Cons.prems(1-3) this] obtain s' a' where
      s': "ProcessFragment now (frag_byte (Suc (length qs)) False) key ip domain port p s = (None, s')"
      "um_find (ur_fragAssemblies s') key = Some a'" "partial now ip domain port (qs @ [p]) a'"
      by blast
    have "\<exists>t. feed_fragments now key ip domain port (Suc (length (qs @ [p]))) ps s' =
       (Some \<lparr>as_ip = ip, as_domain = (if ip = None then domain else []), as_port = port, as_payload = concat ((qs @ [p]) @ ps)\<rparr>, t) \<and>
       um_find (ur_fragAssemblies t) key = None"
      using Cons.prems(5,6) by (intro Cons.IH [OF s'(2,3) _ False]) auto
    with False s'(1) show ?thesis by simp
  qed
qed simp

lemma feed_first:
  assumes room: "um_find (ur_fragAssemblies s) key \<noteq> None \<or> length (ur_fragAssemblies s) < kMaxFragmentAssemblies"
    and p: "length p \<le> kMaxAssembledUdpPayload"
  shows "\<exists>s' a'. ProcessFragment now (frag_byte 1 False) key ip domain port p s = (None, s') \<and>
           um_find (ur_fragAssemblies s') key = Some a' \<and> partial now ip domain port [p] a'"
    and "\<exists>s'. ProcessFragment now (frag_byte 1 True) key ip domain port p s =
           (Some \<lparr>as_ip = ip, as_domain = (if ip = None then domain else []), as_port = port, as_payload = p\<rparr>, s') \<and>
           um_find (ur_fragAssemblies s') key = None"
proof -
  note b = frag_byte_fields [of 1, simplified]
  have new: "partial now ip domain port [] (new_assembly now ip domain port)" by (rule partial_new)
  obtain a' where a': "store_fragment now 1 False p (new_assembly now ip domain port) = Some a'" "partial now ip domain port [p] a'"
    using partial_store(1) [OF new, of p] p by auto
  then have "\<not> fa_haveLast a'" by (simp add: partial_def)
  with a' room show "\<exists>s' a'. ProcessFragment now (frag_byte 1 False) key ip domain port p s = (None, s') \<and>
           um_find (ur_fragAssemblies s') key = Some a' \<and> partial now ip domain port [p] a'"
    by (auto simp: ProcessFragment_def b Let_def)
  obtain c where c: "store_fragment now 1 True p (new_assembly now ip domain port) = Some c"
    "partial now ip domain port [p] (c\<lparr>fa_haveLast := False\<rparr>)" "assembly_ok c" "fa_haveLast c" "fa_lastFragNum c = 1"
    using partial_store(2) [OF new, of p] p by auto
  have parts: "um_find (fa_parts c) i = (if 0 < unat i \<and> unat i \<le> length [p] then Some ([p] ! (unat i - 1)) else None)" for i
    using c(2) by (simp add: partial_def)
  have jo: "join_parts (fa_parts c) (frag_numbers 1) = p" "\<forall>i\<in>set (frag_numbers 1). um_find (fa_parts c) i \<noteq> None"
    using join_all [OF parts] by simp_all
  have tot: "total_of_parts (fa_parts c) (frag_numbers 1) 0 = Some (length p)"
    using assembly_total(1) [OF c(3)] jo by simp
  have fields: "(if fa_hasIpDestination c then Some (fa_destination c) else None) = ip" "fa_port c = port"
    "fa_domain c = (if ip = None then domain else [])"
    using c(2) by (auto simp: partial_def)
  show "\<exists>s'. ProcessFragment now (frag_byte 1 True) key ip domain port p s =
           (Some \<lparr>as_ip = ip, as_domain = (if ip = None then domain else []), as_port = port, as_payload = p\<rparr>, s') \<and>
           um_find (ur_fragAssemblies s') key = None"
    using room p fields by (auto simp: ProcessFragment_def b Let_def c(1,4,5) tot jo(1))
qed

lemma feed_fragments_all:
  assumes room: "um_find (ur_fragAssemblies s) key \<noteq> None \<or> length (ur_fragAssemblies s) < kMaxFragmentAssemblies"
    and ps: "ps \<noteq> []" "length ps < 128" "length (concat ps) \<le> kMaxAssembledUdpPayload"
  shows "\<exists>s'. feed_fragments now key ip domain port 1 ps s =
     (Some \<lparr>as_ip = ip, as_domain = (if ip = None then domain else []), as_port = port, as_payload = concat ps\<rparr>, s') \<and>
     um_find (ur_fragAssemblies s') key = None"
proof -
  obtain p rest where p: "ps = p # rest" using ps(1) by (cases ps) auto
  then have lp: "length p \<le> kMaxAssembledUdpPayload" using ps(3) by simp
  show ?thesis
  proof (cases "rest = []")
    case True
    with feed_first(2) [OF room lp] show ?thesis by (simp add: p)
  next
    case False
    obtain s' a' where s': "ProcessFragment now (frag_byte 1 False) key ip domain port p s = (None, s')"
      "um_find (ur_fragAssemblies s') key = Some a'" "partial now ip domain port [p] a'"
      using feed_first(1) [OF room lp] by blast
    have "\<exists>t. feed_fragments now key ip domain port (Suc (length [p])) rest s' =
       (Some \<lparr>as_ip = ip, as_domain = (if ip = None then domain else []), as_port = port, as_payload = concat ([p] @ rest)\<rparr>, t) \<and>
       um_find (ur_fragAssemblies t) key = None"
      using ps p by (intro feed_fragments_rest [OF s'(2,3) _ False]) auto
    with False s'(1) show ?thesis by (simp add: p)
  qed
qed

section \<open>The limits of every table\<close>

definition tables_ok :: "relay \<Rightarrow> bool" where
  "tables_ok s \<longleftrightarrow>
     um_wf (ur_fragAssemblies s) \<and> length (ur_fragAssemblies s) \<le> kMaxFragmentAssemblies \<and>
     (\<forall>(k, a)\<in>set (ur_fragAssemblies s). assembly_ok a) \<and>
     um_wf (ur_pendingByDomain s) \<and> length (ur_pendingByDomain s) \<le> kMaxPendingDomains \<and>
     (\<forall>(d, q)\<in>set (ur_pendingByDomain s). length q \<le> kMaxPacketsPerDomain) \<and>
     um_wf (ur_activeDestinations s) \<and> length (ur_activeDestinations s) \<le> kMaxActiveDestinations"

definition relay_ok :: "relay \<Rightarrow> bool" where
  "relay_ok s \<longleftrightarrow> relay_window.window_ok s \<and> tables_ok s"

text \<open>\<open>tables\<close>: the part of the state the limits are about.\<close>

definition tables ::
  "relay \<Rightarrow> (string, FragAssembly) umap \<times> (string, PendingDomainPacket list) umap \<times> (EndpointKey, int) umap" where
  "tables s = (ur_fragAssemblies s, ur_pendingByDomain s, ur_activeDestinations s)"

lemma tables_ok_cong: "tables s' = tables s \<Longrightarrow> tables_ok s' = tables_ok s"
  by (simp add: tables_ok_def tables_def)

lemma um_set_in: "(k, v) \<in> set (um_set k' v' m) \<Longrightarrow> (k, v) = (k', v') \<or> (k, v) \<in> set m"
  by (induction m) (auto split: if_splits)

lemma um_erase_in: "x \<in> set (um_erase k m) \<Longrightarrow> x \<in> set m"
  by (auto simp: AList.delete_eq)

lemma um_find_Some_in: "um_find m k = Some v \<Longrightarrow> (k, v) \<in> set m"
  by (rule map_of_SomeD)

lemma tables_pump [simp]: "tables (relay_pump e s) = tables s"
proof (induction e s rule: relay_pump.induct)
  case (1 e s)
  show ?case
  proof (cases "ur_sendsInFlight s < 16 \<and> ur_pendingSends s \<noteq> [] \<and> \<not> ur_stop s \<and> ur_socket s")
    case True
    with 1 show ?thesis
      by (subst relay_pump.simps) (auto simp: relay_call_def Let_def relay_emit_def tables_def)
  qed (subst relay_pump.simps, auto)
qed

lemma tables_Enqueue [simp]: "tables (EnqueueSendLocked e m s) = tables s"
  by (simp add: EnqueueSendLocked_def tables_def [of "_\<lparr>ur_pendingSends := _, ur_nextCtx := _\<rparr>"] tables_def [of s])

lemma tables_OnSendCompleted [simp]: "tables (OnSendCompleted e c s) = tables s"
  by (auto simp: OnSendCompleted_def Let_def split: option.split) (simp_all add: tables_def)

lemma window_frame:
  "relay_window.window_ok (s\<lparr>ur_activeDestinations := a\<rparr>) = relay_window.window_ok s"
  "relay_window.window_ok (s\<lparr>ur_pendingByDomain := b\<rparr>) = relay_window.window_ok s"
  "relay_window.window_ok (s\<lparr>ur_fragAssemblies := f\<rparr>) = relay_window.window_ok s"
  "relay_window.window_ok (s\<lparr>ur_dnsInFlight := d\<rparr>) = relay_window.window_ok s"
  "relay_window.window_ok (s\<lparr>ur_dnsNotifies := n\<rparr>) = relay_window.window_ok s"
  "relay_window.window_ok (s\<lparr>ur_nextCtx := k\<rparr>) = relay_window.window_ok s"
  "relay_window.window_ok (s\<lparr>ur_actualClient := c\<rparr>) = relay_window.window_ok s"
  "relay_window.window_ok (s\<lparr>ur_lastActivity := t\<rparr>) = relay_window.window_ok s"
  "relay_window.window_ok (s\<lparr>ur_lastCleanup := t\<rparr>) = relay_window.window_ok s"
  "relay_window.window_ok (s\<lparr>ur_socket := b'\<rparr>) = relay_window.window_ok s"
  "relay_window.window_ok (s\<lparr>ur_stop := b'\<rparr>) = relay_window.window_ok s"
  "relay_window.window_ok (s\<lparr>ur_onStopped := b'\<rparr>) = relay_window.window_ok s"
  "relay_window.window_ok (relay_emit as s) = relay_window.window_ok s"
  "relay_window.window_ok (snd (relay_call e s)) = relay_window.window_ok s"
  by (simp_all add: relay_window.window_ok_def relay_emit_def relay_call_def)

lemma tables_frame [simp]:
  "tables (s\<lparr>ur_dnsInFlight := d\<rparr>) = tables s" "tables (s\<lparr>ur_dnsNotifies := n\<rparr>) = tables s"
  "tables (s\<lparr>ur_nextCtx := k\<rparr>) = tables s" "tables (s\<lparr>ur_actualClient := c\<rparr>) = tables s"
  "tables (s\<lparr>ur_lastActivity := t\<rparr>) = tables s" "tables (s\<lparr>ur_lastCleanup := t\<rparr>) = tables s"
  "tables (s\<lparr>ur_socket := b\<rparr>) = tables s" "tables (s\<lparr>ur_stop := b\<rparr>) = tables s" "tables (s\<lparr>ur_onStopped := b\<rparr>) = tables s"
  "tables (relay_emit as s) = tables s" "tables (snd (relay_call e s)) = tables s" "tables (relay_close s) = tables s"
  by (simp_all add: tables_def relay_emit_def relay_call_def relay_close_def)

lemma relay_ok_frame [simp]:
  "relay_ok (s\<lparr>ur_dnsInFlight := d\<rparr>) = relay_ok s" "relay_ok (s\<lparr>ur_dnsNotifies := n\<rparr>) = relay_ok s"
  "relay_ok (s\<lparr>ur_nextCtx := k\<rparr>) = relay_ok s" "relay_ok (s\<lparr>ur_actualClient := c\<rparr>) = relay_ok s"
  "relay_ok (s\<lparr>ur_lastActivity := t\<rparr>) = relay_ok s" "relay_ok (s\<lparr>ur_lastCleanup := t\<rparr>) = relay_ok s"
  "relay_ok (s\<lparr>ur_socket := b\<rparr>) = relay_ok s" "relay_ok (s\<lparr>ur_stop := b\<rparr>) = relay_ok s"
  "relay_ok (s\<lparr>ur_onStopped := b\<rparr>) = relay_ok s" "relay_ok (relay_emit as s) = relay_ok s"
  "relay_ok (snd (relay_call e s)) = relay_ok s" "relay_ok (relay_close s) = relay_ok s"
  unfolding relay_ok_def
  by (simp_all add: window_frame tables_ok_cong [OF tables_frame(1)] tables_ok_cong [OF tables_frame(2)]
      tables_ok_cong [OF tables_frame(3)] tables_ok_cong [OF tables_frame(4)] tables_ok_cong [OF tables_frame(5)]
      tables_ok_cong [OF tables_frame(6)] tables_ok_cong [OF tables_frame(7)] tables_ok_cong [OF tables_frame(8)]
      tables_ok_cong [OF tables_frame(9)] tables_ok_cong [OF tables_frame(10)] tables_ok_cong [OF tables_frame(11)]
      tables_ok_cong [OF tables_frame(12)] relay_close_def)

lemma Enqueue_ok: "relay_ok s \<Longrightarrow> relay_ok (EnqueueSendLocked e m s)"
  by (simp add: relay_ok_def relay_window.enqueue_window tables_ok_cong [OF tables_Enqueue])

lemma OnSendCompleted_ok: "relay_ok s \<Longrightarrow> relay_ok (OnSendCompleted e c s)"
  by (simp add: relay_ok_def relay_window.completed_window tables_ok_cong [OF tables_OnSendCompleted])

lemma Forward_ok:
  assumes "iter_ok (ue_ord e)" and "relay_ok s"
  shows "relay_ok (ForwardPayload e now p d s)"
proof -
  let ?k = "EndpointKey_From d" and ?m = "ur_activeDestinations s"
  let ?m1 = "if um_find ?m ?k = None \<and> length ?m \<ge> 4096 then um_evict (ue_ord e) 1 ?m else ?m"
  have wf: "um_wf ?m" "length ?m \<le> 4096" using assms(2) by (simp_all add: relay_ok_def tables_ok_def)
  have "length (um_set ?k now ?m1) \<le> 4096"
    using wf um_size_evict [OF wf(1) assms(1), of 1] by (auto simp: um_size_set)
  then have "relay_ok (s\<lparr>ur_activeDestinations := um_set ?k now ?m1\<rparr>)"
    using assms(2) wf by (simp add: relay_ok_def tables_ok_def window_frame)
  then show ?thesis by (simp add: ForwardPayload_def Let_def Enqueue_ok)
qed

lemma Dispatch_ok:
  assumes "iter_ok (ue_ord e)" and "relay_ok s"
  shows "relay_ok (DispatchClientPayload e now ip domain port payload s)"
proof (cases ip)
  case (Some a)
  with assms show ?thesis by (simp add: DispatchClientPayload_def Forward_ok)
next
  case None
  let ?m = "ur_pendingByDomain s"
  let ?t = "if um_find ?m domain = None then um_set domain [] ?m else ?m"
  let ?q = "case um_find ?t domain of None \<Rightarrow> [] | Some q \<Rightarrow> q"
  let ?new = "um_set domain (?q @ [\<lparr>pp_payload = payload, pp_port = port\<rparr>]) ?t"
  have m: "um_wf ?m" "length ?m \<le> 256" "\<And>d q. (d, q) \<in> set ?m \<Longrightarrow> length q \<le> 64"
    using assms(2) by (auto simp: relay_ok_def tables_ok_def)
  have pend: "relay_ok (s\<lparr>ur_pendingByDomain := m'\<rparr>)"
    if "um_wf m'" "length m' \<le> 256" "\<And>d q. (d, q) \<in> set m' \<Longrightarrow> length q \<le> 64" for m'
    using assms(2) that by (auto simp: relay_ok_def tables_ok_def window_frame)
  have t: "um_wf ?t" "\<And>d q. (d, q) \<in> set ?t \<Longrightarrow> length q \<le> 64"
    using m by (auto dest!: um_set_in split: if_splits)
  have drop: "relay_ok (s\<lparr>ur_pendingByDomain := (if ?q = [] then um_erase domain ?t else ?t)\<rparr>)"
  proof (rule pend)
    have "length (um_erase domain (um_set domain [] ?m)) \<le> length ?m" if "um_find ?m domain = None"
      using that m(1) um_mset_erase [of "um_set domain [] ?m" domain "[]"] um_size_set [of domain "[]" ?m]
      by (metis Suc_leI Suc_le_mono fun_upd_same le_refl size_add_mset size_mset um_wf_set update_conv')
    then show "length (if ?q = [] then um_erase domain ?t else ?t) \<le> 256"
      using m(2) le_trans [OF um_size_erase_le [of domain ?m] m(2)] by (auto split: option.splits)
  qed (use t in \<open>auto dest: um_erase_in split: if_splits\<close>)
  have keep: "relay_ok (s\<lparr>ur_pendingByDomain := ?new\<rparr>)"
    if "\<not> (?q = [] \<and> length ?t > 256 \<or> length ?q \<ge> 64)"
  proof (rule pend)
    have "um_find ?t domain \<noteq> None" by simp
    then have "length ?new = length ?t" by (simp add: um_size_set)
    moreover have "length ?t \<le> 256" if "?q \<noteq> []" using that m(2) by (auto split: if_splits)
    ultimately show "length ?new \<le> 256" using that by fastforce
  qed (use t that m(3) in \<open>auto dest!: um_set_in split: if_splits\<close>)
  show ?thesis
    using assms(2) drop keep None by (simp add: DispatchClientPayload_def Let_def del: length_greater_0_conv)
qed

lemma fragNum_range: "(f AND UdpFrag_NumberMask) \<noteq> 0 \<Longrightarrow> 0 < unat (f AND UdpFrag_NumberMask) \<and> unat (f AND UdpFrag_NumberMask) < 128"
proof -
  have "f AND 0x7F \<le> 0x7F" by (rule word_and_le1)
  then have "unat (f AND 0x7F) \<le> 127" by (simp add: word_le_nat_alt)
  moreover assume "(f AND UdpFrag_NumberMask) \<noteq> 0"
  ultimately show ?thesis by (simp add: unat_gt_0)
qed

lemma new_assembly_ok: "assembly_ok (new_assembly now ip domain port)"
  using partial_new [of now ip domain port] by (simp add: partial_def)

lemma ProcessFragment_ok:
  assumes "relay_ok s"
  shows "relay_ok (snd (ProcessFragment now f key ip domain port payload s))"
proof -
  let ?i = "f AND UdpFrag_NumberMask" and ?m = "ur_fragAssemblies s"
  have m: "um_wf ?m" "length ?m \<le> 256" "\<And>k a. (k, a) \<in> set ?m \<Longrightarrow> assembly_ok a"
    using assms by (auto simp: relay_ok_def tables_ok_def)
  have frag: "relay_ok (s\<lparr>ur_fragAssemblies := m'\<rparr>)"
    if "um_wf m'" "length m' \<le> 256" "\<And>k a. (k, a) \<in> set m' \<Longrightarrow> assembly_ok a" for m'
    using assms that by (auto simp: relay_ok_def tables_ok_def window_frame)
  let ?m1 = "if ?i = 1 then um_set key (new_assembly now ip domain port) ?m else ?m"
  have step: "relay_ok (s\<lparr>ur_fragAssemblies := um_set key a1 ?m1\<rparr>)" "relay_ok (s\<lparr>ur_fragAssemblies := um_erase key (um_set key a1 ?m1)\<rparr>)"
      "relay_ok (s\<lparr>ur_fragAssemblies := um_erase key ?m1\<rparr>)"
    if i: "?i \<noteq> 0" "\<not> (?i = 1 \<and> um_find ?m key = None \<and> length ?m \<ge> 256)"
      and a: "um_find ?m1 key = Some a" "store_fragment now ?i l payload a = Some a1 \<or> a1 = a" for a a1 l
  proof -
    have m1: "um_wf ?m1" "length ?m1 \<le> 256" "\<And>k b. (k, b) \<in> set ?m1 \<Longrightarrow> assembly_ok b"
      using m i new_assembly_ok by (auto simp: um_size_set dest!: um_set_in split: if_splits)
    have oka: "assembly_ok a" using m1(3) um_find_Some_in [OF a(1)] by blast
    then have ok1: "assembly_ok a1" using a(2) store_fragment_ok fragNum_range [OF i(1)] by blast
    let ?m2 = "um_set key a1 ?m1"
    have m2: "um_wf ?m2" "length ?m2 \<le> 256" "\<And>k b. (k, b) \<in> set ?m2 \<Longrightarrow> assembly_ok b"
      using m1 a(1) ok1 by (auto simp: um_size_set dest!: um_set_in)
    show "relay_ok (s\<lparr>ur_fragAssemblies := ?m2\<rparr>)" using m2 by (rule frag)
    have er: "relay_ok (s\<lparr>ur_fragAssemblies := um_erase key m'\<rparr>)"
      if "um_wf m'" "length m' \<le> 256" "\<And>k a. (k, a) \<in> set m' \<Longrightarrow> assembly_ok a" for m'
      using that le_trans [OF um_size_erase_le that(2)] by (intro frag) (auto dest: um_erase_in)
    show "relay_ok (s\<lparr>ur_fragAssemblies := um_erase key ?m2\<rparr>)" using m2 by (rule er)
    show "relay_ok (s\<lparr>ur_fragAssemblies := um_erase key ?m1\<rparr>)" using m1 by (rule er)
  qed
  have s1: "(if ?i = 1 then s\<lparr>ur_fragAssemblies := um_set key (new_assembly now ip domain port) (ur_fragAssemblies s)\<rparr> else s)
      = s\<lparr>ur_fragAssemblies := ?m1\<rparr>" by simp
  show ?thesis
  proof (cases "?i = 0 \<or> ?i = 1 \<and> um_find ?m key = None \<and> length ?m \<ge> 256 \<or> ?i \<noteq> 1 \<and> um_find ?m key = None")
    case True
    with assms show ?thesis by (auto simp: ProcessFragment_def Let_def)
  next
    case False
    then obtain a where a: "um_find ?m1 key = Some a" by (cases "?i = 1") auto
    have i: "?i \<noteq> 0" "\<not> (?i = 1 \<and> um_find ?m key = None \<and> length ?m \<ge> 256)" using False by auto
    show ?thesis
    proof (cases "store_fragment now ?i (f AND UdpFrag_LastFlag \<noteq> 0) payload a")
      case None
      have "relay_ok (s\<lparr>ur_fragAssemblies := um_erase key ?m1\<rparr>)" by (rule step(3) [OF i a disjI2 [OF refl]])
      with assms False a None show ?thesis
        unfolding ProcessFragment_def Let_def s1 by (cases "?i = 1") simp_all
    next
      case (Some a1)
      have "relay_ok (s\<lparr>ur_fragAssemblies := um_set key a1 ?m1\<rparr>)"
        "relay_ok (s\<lparr>ur_fragAssemblies := um_erase key (um_set key a1 ?m1)\<rparr>)"
        using step(1,2) [OF i a disjI1 [OF Some]] by auto
      with assms False a Some show ?thesis
        unfolding ProcessFragment_def Let_def s1 by (cases "?i = 1") (simp_all split: option.split)
    qed
  qed
qed

lemma Handle_ok:
  assumes "iter_ok (ue_ord e)" and "relay_ok s"
  shows "relay_ok (HandleClientPacket e now data s)" "relay_ok (HandleServerResponse e data src s)"
proof -
  have "relay_ok s1" if "ProcessFragment now f key ip domain port p s = (r, s1)" for f key ip domain port p r s1
    using ProcessFragment_ok [OF assms(2), of now f key ip domain port p] that by simp
  then show "relay_ok (HandleClientPacket e now data s)"
    using assms by (auto simp: HandleClientPacket_def Dispatch_ok split: sum.split option.split prod.split)
  show "relay_ok (HandleServerResponse e data src s)"
    using assms(2) by (simp add: HandleServerResponse_def Enqueue_ok split: option.split)
qed

lemma HandlePacket_ok: "iter_ok (ue_ord e) \<Longrightarrow> relay_ok s \<Longrightarrow> relay_ok (HandlePacket e now data remote s)"
  by (simp add: HandlePacket_def Let_def Handle_ok split: option.split)

lemma Cleanup_ok: "relay_ok s \<Longrightarrow> relay_ok (CleanupState e now s)"
  by (auto simp: relay_ok_def tables_ok_def CleanupState_def window_frame intro: le_trans [OF length_filter_le])

lemma Stop_ok: "relay_ok s \<Longrightarrow> relay_ok (UdpRelay_Stop b s)"
proof -
  assume ok: "relay_ok s"
  let ?s1 = "relay_close (s\<lparr>ur_stop := True\<rparr>)"
  have "relay_ok ?s1" using ok by simp
  then have "relay_ok (?s1\<lparr>ur_pendingSends := [], ur_fragAssemblies := [], ur_pendingByDomain := [], ur_dnsInFlight := []\<rparr>)"
    by (simp add: relay_ok_def tables_ok_def relay_window.window_ok_def)
  with ok show ?thesis by (simp add: UdpRelay_Stop_def Let_def)
qed

lemma pend_erase_ok: "relay_ok s \<Longrightarrow> relay_ok (s\<lparr>ur_pendingByDomain := um_erase d (ur_pendingByDomain s)\<rparr>)"
  by (auto simp: relay_ok_def tables_ok_def window_frame intro: le_trans [OF um_size_erase_le] dest!: um_erase_in)

lemma pend_clear_ok:
  "relay_ok s \<Longrightarrow> um_find (ur_pendingByDomain s) d = Some q \<Longrightarrow> relay_ok (s\<lparr>ur_pendingByDomain := um_set d [] (ur_pendingByDomain s)\<rparr>)"
  by (auto simp: relay_ok_def tables_ok_def window_frame um_size_set dest!: um_set_in)

lemma batch_ok: "iter_ok (ue_ord e) \<Longrightarrow> relay_ok s \<Longrightarrow> relay_ok (forward_batch e now d batch s)"
  unfolding forward_batch_def by (induction batch arbitrary: s) (simp_all add: Forward_ok)

lemma OnDnsNotify_loop_ok:
  "iter_ok (ue_ord e) \<Longrightarrow> relay_ok s \<Longrightarrow> relay_ok (OnDnsNotify_loop e now n s)"
proof (induction e now n s rule: OnDnsNotify_loop.induct)
  case (1 e now n s)
  show ?case
  proof (cases "um_find (ur_pendingByDomain s) (dn_domain n)")
    case None
    with "1.prems" show ?thesis by (subst OnDnsNotify_loop.simps) simp
  next
    case (Some q)
    let ?s1 = "s\<lparr>ur_pendingByDomain := um_set (dn_domain n) [] (ur_pendingByDomain s)\<rparr>"
    have s1: "relay_ok ?s1" using pend_clear_ok [OF "1.prems"(2) Some] .
    show ?thesis
    proof (cases q)
      case Nil
      with Some "1.prems" show ?thesis by (subst OnDnsNotify_loop.simps) simp
    next
      case (Cons p ps)
      note IH = "1.IH" [OF Some Cons refl]
      show ?thesis
      proof (cases "dn_ip n")
        case None
        with Some Cons pend_erase_ok [OF s1, of "dn_domain n"] show ?thesis
          by (subst OnDnsNotify_loop.simps) simp
      next
        case (Some ip)
        with \<open>um_find _ _ = Some q\<close> Cons IH(1) [OF Some] IH(2) [OF Some] s1 "1.prems"(1) batch_ok [OF "1.prems"(1) s1]
        show ?thesis
          by (subst OnDnsNotify_loop.simps) (auto simp: Let_def split: option.split)
      qed
    qed
  qed
qed

lemma relay_Start_ok: "relay_ok s \<Longrightarrow> relay_ok (snd (UdpRelay_Start e s))"
proof -
  have tb: "relay_ok (snd (tryBind e a s)) = relay_ok s" for a s
    by (simp add: tryBind_def Let_def split_def)
  have br: "relay_ok (snd (BindRelaySocket e s)) = relay_ok s" for s
    using tb by (simp add: BindRelaySocket_def Let_def split_def split: option.split)
  have ad: "relay_ok (advertise e s) = relay_ok s" for s
    by (simp add: advertise_def relay_ok_def tables_ok_def relay_window.window_ok_def Let_def)
  assume "relay_ok s"
  with br [of s] show ?thesis
    by (simp add: UdpRelay_Start_def PostNextRecv_def Let_def split_def ad)
qed

lemma OnRecvDone_ok:
  assumes "iter_ok (ue_ord e)" and "relay_ok s"
  shows "relay_ok (OnRecvDone e now later data err remote s)"
proof -
  have post: "relay_ok (snd (PostNextRecv e s1)) = relay_ok s1" for s1
    by (simp add: PostNextRecv_def split_def Let_def)
  let ?s2 = "HandlePacket e now data remote (s\<lparr>ur_lastActivity := now\<rparr>)"
  have "relay_ok ?s2" using assms by (simp add: HandlePacket_ok)
  then show ?thesis
    using assms by (simp add: OnRecvDone_def Let_def split_def Stop_ok Cleanup_ok post)
qed

lemma OnResolved_ok: "relay_ok s \<Longrightarrow> relay_ok (OnResolved e d ip s)"
proof -
  assume ok: "relay_ok s"
  let ?s2 = "snd (relay_call e (s\<lparr>ur_nextCtx := Suc (ur_nextCtx s),
    ur_dnsNotifies := um_set (ur_nextCtx s) \<lparr>dn_domain = d, dn_ip = ip\<rparr> (ur_dnsNotifies s)\<rparr>))"
  have s2: "relay_ok ?s2" using ok by simp
  from pend_erase_ok [OF s2, of d]
  have "relay_ok (?s2\<lparr>ur_dnsNotifies := n, ur_dnsInFlight := i, ur_pendingByDomain := um_erase d (ur_pendingByDomain ?s2)\<rparr>)" for n i
    by (simp add: relay_ok_def tables_ok_def relay_window.window_ok_def)
  with ok s2 show ?thesis by (simp add: OnResolved_def Let_def split_def)
qed

lemma relay_step_ok: "iter_ok (ue_ord e) \<Longrightarrow> relay_ok s \<Longrightarrow> relay_ok (relay_step e ev s)"
  by (cases ev; cases "snd ev")
    (auto simp: relay_Start_ok Stop_ok OnResolved_ok OnSendCompleted_ok OnRecvDone_ok OnUserDone_def Let_def
      OnDnsNotify_def OnDnsNotify_loop_ok split: option.split)

lemma relay_run_ok: "iter_ok (ue_ord e) \<Longrightarrow> relay_ok s \<Longrightarrow> relay_ok (relay_run e evs s)"
  unfolding relay_run_def by (induction evs arbitrary: s) (simp_all add: relay_step_ok)

lemma new_relay_ok: "relay_ok (new_UdpRelay c l b now)"
  by (simp add: new_UdpRelay_def relay_ok_def tables_ok_def relay_window.window_ok_def)

section \<open>Headers\<close>

lemma parse_client_header_safe: "parse_client_header ws data \<noteq> Inl OutOfBounds"
  by (auto simp: parse_client_header_def rd8_def rd_block_def ReadU16_def Let_def)

lemma response_header_parses:
  assumes "addr_wf src" and "src \<noteq> AddrNone"
  shows "\<exists>h. parse_client_header ws (response_header src @ data) = Inr (Some h) \<and>
    uh_frag h = UdpFrag_Standalone \<and> uh_payload h = data \<and> uh_port h = get_port src \<and>
    (case src of AddrIn6 p f a sc \<Rightarrow> uh_ip h = Some (AddrIn6 p 0 a 0) | _ \<Rightarrow> uh_ip h = Some src)"
proof (cases src)
  case (AddrIn p a)
  let ?d = "response_header src @ data"
  have len: "length a = 4" using assms(1) AddrIn by simp
  then have "?d ! 8 = hi8 p" "?d ! 9 = lo8 p" "take 4 (drop 4 ?d) = a" "drop 10 ?d = data" "?d ! 2 = 0" "?d ! 3 = 1"
    by (simp_all add: AddrIn nth_append)
  with len show ?thesis
    by (simp add: parse_client_header_def AddrIn rd8_def rd_block_def ReadU16_def)
next
  case (AddrIn6 p f a sc)
  let ?d = "response_header src @ data"
  have len: "length a = 16" using assms(1) AddrIn6 by simp
  then have "?d ! 20 = hi8 p" "?d ! 21 = lo8 p" "take 16 (drop 4 ?d) = a" "drop 22 ?d = data" "?d ! 2 = 0" "?d ! 3 = 4"
    by (simp_all add: AddrIn6 nth_append)
  with len show ?thesis
    by (simp add: parse_client_header_def AddrIn6 rd8_def rd_block_def ReadU16_def)
qed (use assms in simp)

lemma domain_key_inject:
  "''d:'' @ d @ '':'' @ to_string m = ''d:'' @ d' @ '':'' @ to_string n \<longleftrightarrow> d = d' \<and> m = n"
proof
  assume "''d:'' @ d @ '':'' @ to_string m = ''d:'' @ d' @ '':'' @ to_string n"
  then have "d @ CHR '':'' # to_string m = d' @ CHR '':'' # to_string n" by simp
  from append_sep_inject [OF this] show "d = d' \<and> m = n"
    using to_string_isdigit [of "CHR '':''"] by auto
qed simp


section \<open>Once stopped\<close>

definition sends :: "relay \<Rightarrow> relay_act list" where
  "sends s = filter (\<lambda>a. case a of RelaySend d t \<Rightarrow> True | _ \<Rightarrow> False) (ur_out s)"

lemma stopped_pump: "ur_stop s \<Longrightarrow> relay_pump e s = s"
  by (subst relay_pump.simps) simp

lemma stopped_step:
  assumes "ur_stop s" and "snd ev \<noteq> RvStart"
  shows "sends (relay_step e ev s) = sends s \<and> ur_stop (relay_step e ev s)"
  using assms
  by (cases ev; cases "snd ev")
    (auto simp: UdpRelay_Stop_def OnResolved_def OnUserDone_def OnSendCompleted_def OnRecvDone_def Let_def sends_def
      split: option.split)

lemma stopped_run:
  "ur_stop s \<Longrightarrow> RvStart \<notin> snd ` set evs \<Longrightarrow> sends (relay_run e evs s) = sends s \<and> ur_stop (relay_run e evs s)"
proof (induction evs arbitrary: s)
  case (Cons ev evs)
  then have "sends (relay_step e ev s) = sends s" "ur_stop (relay_step e ev s)"
    using stopped_step [of s ev e] by auto
  with Cons show ?case by (auto simp: relay_run_def)
qed (simp add: relay_run_def)


section \<open>Names and their table slots\<close>

lemma stop_pump [simp]: "ur_stop (relay_pump e s) = ur_stop s"
proof (induction e s rule: relay_pump.induct)
  case (1 e s)
  show ?case
  proof (cases "ur_sendsInFlight s < 16 \<and> ur_pendingSends s \<noteq> [] \<and> \<not> ur_stop s \<and> ur_socket s")
    case True
    with 1 show ?thesis
      by (subst relay_pump.simps) (auto simp: relay_call_def Let_def relay_emit_def)
  qed (subst relay_pump.simps, auto)
qed

lemma stop_Enqueue [simp]: "ur_stop (EnqueueSendLocked e m s) = ur_stop s"
  by (simp add: EnqueueSendLocked_def)

lemma stop_Forward [simp]: "ur_stop (ForwardPayload e now p d s) = ur_stop s"
  by (simp add: ForwardPayload_def Let_def)

lemma activity_pump [simp]: "ur_lastActivity (relay_pump e s) = ur_lastActivity s"
proof (induction e s rule: relay_pump.induct)
  case (1 e s)
  show ?case
  proof (cases "ur_sendsInFlight s < 16 \<and> ur_pendingSends s \<noteq> [] \<and> \<not> ur_stop s \<and> ur_socket s")
    case True
    with 1 show ?thesis
      by (subst relay_pump.simps) (auto simp: relay_call_def Let_def relay_emit_def)
  qed (subst relay_pump.simps, auto)
qed

lemma HandlePacket_activity: "ur_lastActivity (HandlePacket e now data remote s) = ur_lastActivity s"
proof -
  have en: "ur_lastActivity (EnqueueSendLocked e m s) = ur_lastActivity s" for m s
    by (simp add: EnqueueSendLocked_def)
  have ps: "ur_lastActivity (snd (ProcessFragment now f k i d p pl s')) = ur_lastActivity s'" for f k i d p pl s'
    by (simp add: ProcessFragment_def Let_def split: option.split)
  then have ps': "ProcessFragment now f k i d p pl s' = (r, s1) \<Longrightarrow> ur_lastActivity s1 = ur_lastActivity s'" for f k i d p pl s' r s1
    by (metis snd_conv)
  have dp: "ur_lastActivity (DispatchClientPayload e now i d p pl s') = ur_lastActivity s'" for i d p pl s'
    by (simp add: DispatchClientPayload_def ForwardPayload_def Let_def relay_emit_def en split: option.split)
  have hc: "ur_lastActivity (HandleClientPacket e now data s') = ur_lastActivity s'" for s'
    by (auto simp: HandleClientPacket_def dp ps' split: sum.split option.split prod.split)
  show ?thesis by (simp add: HandlePacket_def HandleServerResponse_def Let_def hc en split: option.split)
qed

lemma Notify_leaves_empty:
  assumes "um_find (ur_pendingByDomain s) (dn_domain n) = Some (p # ps)" and "dn_ip n = Some ip"
  shows "ur_pendingByDomain (OnDnsNotify_loop e now n s) = um_set (dn_domain n) [] (ur_pendingByDomain s)"
proof -
  have again: "ur_pendingByDomain (OnDnsNotify_loop e now n s') = ur_pendingByDomain s'"
    if "um_find (ur_pendingByDomain s') (dn_domain n) = Some []" for s'
    using that by (subst OnDnsNotify_loop.simps) simp
  show ?thesis
    using assms by (subst OnDnsNotify_loop.simps) (simp add: Let_def again split: option.split)
qed

lemma stop_batch [simp]: "ur_stop (forward_batch e now d batch s) = ur_stop s"
  unfolding forward_batch_def by (induction batch arbitrary: s) simp_all

section \<open>Properties of the relay\<close>

definition sample_relay_env :: relay_env where
  "sample_relay_env = \<lparr>ue_ws = sample_ws, ue_cfg = default_netcfg, ue_ok = (\<lambda>n. True),
     ue_sockname = AddrIn 5000 [10, 0, 0, 1], ue_ord = (\<lambda>ks. ks)\<rparr>"

definition sample_relay :: relay where
  "sample_relay = new_UdpRelay (AddrIn 40000 [10, 0, 0, 2]) (AddrIn 1080 [10, 0, 0, 1]) True 0"

text \<open>
  C28. Whatever datagrams, DNS answers and completions arrive in whatever order, a relay keeps its tables
  within their limits: at most 256 fragment assemblies, each with \<^verbatim>\<open>totalBytes\<close> equal to the sum of
  its parts and at most 65535, at most 256 pending names of at most 64 datagrams, at most 4096
  destinations, at most 1024 waiting and 16 posted sends, with the counter equal to the posted ones.
\<close>

theorem relay_limits_hold:
  assumes "iter_ok (ue_ord e)"
  shows "tables_ok (relay_run e evs (new_UdpRelay client local notify now)) \<and>
    ur_sendsInFlight (relay_run e evs (new_UdpRelay client local notify now)) =
      length (ur_inFlightSends (relay_run e evs (new_UdpRelay client local notify now))) \<and>
    length (ur_inFlightSends (relay_run e evs (new_UdpRelay client local notify now))) \<le> 16 \<and>
    length (ur_pendingSends (relay_run e evs (new_UdpRelay client local notify now))) \<le> 1024"
  using relay_run_ok [OF assms new_relay_ok] by (simp add: relay_ok_def relay_window.window_ok_def)

theorem relay_limits_hold_witness:
  "iter_ok (ue_ord sample_relay_env) \<and>
   tables_ok (relay_run sample_relay_env [(0, RvStart), (1, RvRecvFrom 1 [0, 0, 0, 3, 1, 97, 0, 80, 9] False (AddrIn 40001 [10, 0, 0, 2]))]
     (new_UdpRelay (AddrIn 40000 [10, 0, 0, 2]) (AddrIn 1080 [10, 0, 0, 1]) True 0))"
  using relay_limits_hold [of sample_relay_env
    "[(0, RvStart), (1, RvRecvFrom 1 [0, 0, 0, 3, 1, 97, 0, 80, 9] False (AddrIn 40001 [10, 0, 0, 2]))]"
    "AddrIn 40000 [10, 0, 0, 2]" "AddrIn 1080 [10, 0, 0, 1]" True 0]
  by (simp add: sample_relay_env_def)

text \<open>
  C29. Fragments that arrive in order are put together: a datagram cut into at most 127 fragments
  of at most 65535 bytes in all comes out of the last \<^verbatim>\<open>ProcessFragment\<close> as the concatenation of
  the fragments, with the destination of the first one, and its assembly is released; whatever
  was left over under the same key before does not get in.
\<close>

theorem relay_fragments_reassemble:
  assumes "um_find (ur_fragAssemblies s) key \<noteq> None \<or> length (ur_fragAssemblies s) < 256"
    and "ps \<noteq> []" and "length ps < 128" and "length (concat ps) \<le> 65535"
  shows "fst (feed_fragments now key ip domain port 1 ps s) =
      Some \<lparr>as_ip = ip, as_domain = (if ip = None then domain else []), as_port = port, as_payload = concat ps\<rparr> \<and>
    um_find (ur_fragAssemblies (snd (feed_fragments now key ip domain port 1 ps s))) key = None"
  using feed_fragments_all [OF assms, of now ip domain port] by auto

theorem relay_fragments_reassemble_witness:
  "fst (feed_fragments 0 ''d:a:80'' None ''a'' 80 1 [[1, 2], [3], [4, 5]] sample_relay) =
     Some \<lparr>as_ip = None, as_domain = ''a'', as_port = 80, as_payload = [1, 2, 3, 4, 5]\<rparr>"
  using relay_fragments_reassemble [of sample_relay "''d:a:80''" "[[1, 2], [3], [4, 5]]" 0 None "''a''" 80]
  by (simp add: sample_relay_def new_UdpRelay_def)

text \<open>
  C30. The header put in front of an answer and the header read from the client are inverse: a client that sends
  a relayed answer back unchanged addresses the endpoint it came from, with the same payload, as
  a standalone datagram.  No read of the header parser leaves the datagram.
\<close>

theorem relay_header_roundtrip:
  assumes "addr_wf src" and "src \<noteq> AddrNone"
  shows "(\<exists>h. parse_client_header ws (response_header src @ data) = Inr (Some h) \<and>
      uh_frag h = UdpFrag_Standalone \<and> uh_payload h = data \<and> uh_port h = get_port src \<and>
      (case src of AddrIn6 p f a sc \<Rightarrow> uh_ip h = Some (AddrIn6 p 0 a 0) | _ \<Rightarrow> uh_ip h = Some src)) \<and>
    parse_client_header ws other \<noteq> Inl OutOfBounds"
  using response_header_parses [OF assms] parse_client_header_safe by blast

theorem relay_header_roundtrip_witness:
  "\<exists>h. parse_client_header sample_ws (response_header (AddrIn 53 [8, 8, 8, 8]) @ [1, 2, 3]) = Inr (Some h) \<and>
     uh_ip h = Some (AddrIn 53 [8, 8, 8, 8]) \<and> uh_payload h = [1, 2, 3]"
  using relay_header_roundtrip [of "AddrIn 53 [8, 8, 8, 8]" sample_ws "[1, 2, 3]" "[]"] by auto

text \<open>
  After \<^verbatim>\<open>Stop\<close> the relay is silent: no later event posts a datagram or restarts it, and the
  session is told at most once.
\<close>

theorem relay_stop_is_final:
  assumes "RvStart \<notin> snd ` set evs"
  shows "sends (relay_run e evs (UdpRelay_Stop b s)) = sends (UdpRelay_Stop b s) \<and>
    ur_stop (relay_run e evs (UdpRelay_Stop b s)) \<and> UdpRelay_Stop b' (UdpRelay_Stop b s) = UdpRelay_Stop b s"
proof -
  have st: "ur_stop (UdpRelay_Stop b s)"
    by (simp add: UdpRelay_Stop_def relay_close_def relay_emit_def Let_def)
  with stopped_run [OF st assms] show ?thesis by (simp add: UdpRelay_Stop_def [of b'])
qed

theorem relay_stop_is_final_witness:
  "ur_stop (relay_run sample_relay_env [(5, RvRecvFrom 5 [0, 0, 0, 1] False (AddrIn 40000 [10, 0, 0, 2])), (6, RvSendTo 0)]
     (UdpRelay_Stop True sample_relay))"
  using relay_stop_is_final [of "[(5, RvRecvFrom 5 [0, 0, 0, 1] False (AddrIn 40000 [10, 0, 0, 2])), (6, RvSendTo 0)]"] by simp

text \<open>
  C37. A name that has been resolved keeps its slot in \<^verbatim>\<open>pendingByDomain_\<close>: after a successful answer
  the queue is empty but its entry stays, and once 256 names hold entries every datagram for a
  further name is dropped without any attempt to resolve it.
\<close>

theorem relay_resolved_name_keeps_slot:
  assumes "\<not> ur_stop s" and "um_find (ur_pendingByDomain s) (dn_domain n) = Some (p # ps)" and "dn_ip n = Some ip"
    and "length (ur_pendingByDomain full) = 256" and "um_find (ur_pendingByDomain full) domain = None"
    and "um_wf (ur_pendingByDomain full)" and "domain \<noteq> []"
  shows "um_find (ur_pendingByDomain (OnDnsNotify e now n s)) (dn_domain n) = Some [] \<and>
    DispatchClientPayload e now None domain port payload full = full"
proof
  show "um_find (ur_pendingByDomain (OnDnsNotify e now n s)) (dn_domain n) = Some []"
    using assms(1) Notify_leaves_empty [OF assms(2,3)] by (simp add: OnDnsNotify_def)
  have "um_erase domain (um_set domain [] m) = m" if "um_find m domain = None" for m :: "(string, PendingDomainPacket list) umap"
    using that by (induction m) (auto simp: um_erase_absent split: if_splits)
  then show "DispatchClientPayload e now None domain port payload full = full"
    using assms(4-7) by (simp add: DispatchClientPayload_def Let_def um_size_set)
qed

theorem relay_resolved_name_keeps_slot_witness:
  "DispatchClientPayload sample_relay_env 0 None ''new'' 80 [1]
     (sample_relay\<lparr>ur_pendingByDomain := map (\<lambda>i. (to_string i, [])) [0..<256]\<rparr>) =
   sample_relay\<lparr>ur_pendingByDomain := map (\<lambda>i. (to_string i, [])) [0..<256]\<rparr>"
proof -
  let ?m = "map (\<lambda>i. (to_string i, [] :: PendingDomainPacket list)) [0..<256]"
  let ?s = "sample_relay\<lparr>ur_pendingByDomain := [(''a'', [\<lparr>pp_payload = [1], pp_port = 80\<rparr>])]\<rparr>"
  have ne: "''new'' = to_string i \<Longrightarrow> False" for i
  proof -
    assume "''new'' = to_string i"
    then have "CHR ''n'' \<in> set (to_string i)" by (metis list.set_intros(1))
    from to_string_isdigit [OF this] show False by (simp add: isdigit_c_def)
  qed
  have "''new'' \<notin> fst ` set ?m" by (auto dest: ne)
  then have "um_find ?m ''new'' = None" by (rule map_of_eq_None_iff [THEN iffD2])
  moreover have "um_wf ?m" by (simp add: um_wf_def comp_def distinct_map inj_on_def)
  ultimately show ?thesis
    using relay_resolved_name_keeps_slot [of ?s "\<lparr>dn_domain = ''a'', dn_ip = Some ''x''\<rparr>" "\<lparr>pp_payload = [1], pp_port = 80\<rparr>" "[]" "''x''"
        "sample_relay\<lparr>ur_pendingByDomain := ?m\<rparr>" "''new''" sample_relay_env 0 80 "[1]"]
    by (simp add: sample_relay_def new_UdpRelay_def)
qed

text \<open>
  The idle limit of the relay is only looked at in the receive completion, right after the activity stamp has
  been renewed by the datagram received: a datagram handled within the limit never trips it,
  and the events that are not receives never stop the relay.  A relay on which nothing arrives
  is therefore not stopped by its idle limit.
\<close>

theorem relay_idle_only_on_receive:
  assumes "\<not> ur_stop s"
  shows "(later - now \<le> UdpIdleTimeout (ue_cfg e) \<and> \<not> err \<and> data \<noteq> [] \<and>
      fst (PostNextRecv e (let s2 = HandlePacket e now data remote (s\<lparr>ur_lastActivity := now\<rparr>)
         in if later - ur_lastCleanup s2 > 10000 then (CleanupState e later s2)\<lparr>ur_lastCleanup := later\<rparr> else s2))
     \<longrightarrow> \<not> ur_stop (OnRecvDone e now later data err remote s)) \<and>
    \<not> ur_stop (OnResolved e domain ip s) \<and> \<not> ur_stop (OnUserDone e now ctx s) \<and> \<not> ur_stop (OnSendCompleted e ctx s)"
proof -
  have loop: "ur_stop (OnDnsNotify_loop e now n s') = ur_stop s'" for n s'
  proof (induction e now n s' rule: OnDnsNotify_loop.induct)
    case (1 e now n s)
    then show ?case
      by (subst OnDnsNotify_loop.simps) (auto simp: Let_def split: option.split list.split)
  qed
  have ps: "ur_stop (snd (ProcessFragment now f k i d p pl s')) = ur_stop s'" for f k i d p pl s'
    by (simp add: ProcessFragment_def Let_def split: option.split)
  then have ps': "ProcessFragment now f k i d p pl s' = (r, s1) \<Longrightarrow> ur_stop s1 = ur_stop s'" for f k i d p pl s' r s1
    by (metis snd_conv)
  have dp: "ur_stop (DispatchClientPayload e now i d p pl s') = ur_stop s'" for i d p pl s'
    by (simp add: DispatchClientPayload_def Let_def relay_emit_def split: option.split)
  have hc: "ur_stop (HandleClientPacket e now data s') = ur_stop s'" for s'
    by (auto simp: HandleClientPacket_def dp ps' split: sum.split option.split prod.split)
  have hp: "ur_stop (HandlePacket e now data remote s') = ur_stop s' \<and> ur_lastActivity (HandlePacket e now data remote s') = ur_lastActivity s'" for s'
    using hc HandlePacket_activity by (simp add: HandlePacket_def HandleServerResponse_def Let_def split: option.split)
  have "\<not> ur_stop (OnRecvDone e now later data err remote s)"
    if "later - now \<le> UdpIdleTimeout (ue_cfg e)" "\<not> err" "data \<noteq> []"
      "fst (PostNextRecv e (let s2 = HandlePacket e now data remote (s\<lparr>ur_lastActivity := now\<rparr>)
         in if later - ur_lastCleanup s2 > 10000 then (CleanupState e later s2)\<lparr>ur_lastCleanup := later\<rparr> else s2))"
    using that assms hp
    by (auto simp: OnRecvDone_def Let_def split_def CleanupState_def PostNextRecv_def relay_call_def relay_emit_def)
  moreover have "\<not> ur_stop (OnResolved e domain ip s)"
    using assms by (simp add: OnResolved_def Let_def relay_call_def relay_emit_def)
  moreover have "\<not> ur_stop (OnUserDone e now ctx s)"
    using assms loop by (simp add: OnUserDone_def OnDnsNotify_def Let_def split: option.split)
  moreover have "\<not> ur_stop (OnSendCompleted e ctx s)"
    using assms by (simp add: OnSendCompleted_def Let_def split: option.split)
  ultimately show ?thesis by blast
qed

theorem relay_idle_only_on_receive_witness:
  "\<not> ur_stop sample_relay \<and> \<not> ur_stop (OnSendCompleted sample_relay_env 0 sample_relay)"
proof -
  have st: "\<not> ur_stop sample_relay" by (simp add: sample_relay_def new_UdpRelay_def)
  from relay_idle_only_on_receive [OF this] st show ?thesis by blast
qed

end
