(* ===== verification/GssapiContext.thy ===== *)
theory GssapiContext
  imports Socks5Constants
begin

text \<open>
  The GSS-API acceptor of \<^verbatim>\<open>server/protocol/GssapiContext.cpp\<close> over Windows SSPI.  SSPI is not
  part of the repository: its answers are the fields of the parameter \<open>sspi\<close>, each a function of
  the number of the call, because a security context is stateful.  \<^verbatim>\<open>EncryptMessage\<close> yields the three
  buffers (token, data, padding) it leaves behind; \<^verbatim>\<open>DecryptMessage\<close> the data buffer.
\<close>

datatype sec_status = SEC_E_OK | SEC_I_CONTINUE_NEEDED | SEC_I_COMPLETE_NEEDED | SEC_I_COMPLETE_AND_CONTINUE | SEC_E_OTHER

datatype AcceptStatus = ContinueNeeded | Complete | Failed

record accept_answer =
  aa_status :: sec_status
  aa_valid :: bool
  aa_attrs :: u32
  aa_token :: bytes

record sspi =
  sspi_acquire :: "nat \<Rightarrow> bool"
  sspi_package :: "nat \<Rightarrow> nat option"
  sspi_accept :: "nat \<Rightarrow> bool \<Rightarrow> bytes \<Rightarrow> accept_answer"
  sspi_complete :: "nat \<Rightarrow> bool"
  sspi_name :: "nat \<Rightarrow> string option"
  sspi_sizes :: "nat \<Rightarrow> (nat \<times> nat) option"
  sspi_encrypt :: "nat \<Rightarrow> bool \<Rightarrow> bytes \<Rightarrow> (bytes \<times> bytes \<times> bytes) option"
  sspi_decrypt :: "nat \<Rightarrow> bytes \<Rightarrow> bytes option"

record gss =
  gs_haveCredentials :: bool
  gs_haveContext :: bool
  gs_complete :: bool
  gs_contextAttrs :: u32
  gs_protectionLevel :: byte
  gs_clientName :: string
  gs_packageInfo :: "nat option"
  gs_calls :: nat

abbreviation (input) "ULONG_MAX \<equiv> (4294967295 :: nat)"
abbreviation (input) "SIZE_MAX \<equiv> (18446744073709551615 :: nat)"
abbreviation (input) "ASC_RET_CONFIDENTIALITY \<equiv> (0x10 :: u32)"
abbreviation (input) "ASC_RET_INTEGRITY \<equiv> (0x20000 :: u32)"

definition new_GssapiContext :: gss where
  "new_GssapiContext = \<lparr>gs_haveCredentials = False, gs_haveContext = False, gs_complete = False, gs_contextAttrs = 0,
     gs_protectionLevel = 1, gs_clientName = [], gs_packageInfo = None, gs_calls = 0\<rparr>"

definition tick :: "gss \<Rightarrow> gss" where
  "tick g = g\<lparr>gs_calls := Suc (gs_calls g)\<rparr>"

definition Gss_Reset :: "gss \<Rightarrow> gss" where
  "Gss_Reset g = g\<lparr>gs_haveContext := False, gs_haveCredentials := False, gs_packageInfo := None, gs_complete := False,
     gs_contextAttrs := 0, gs_clientName := [], gs_protectionLevel := 1\<rparr>"

definition EnsurePackageInfo :: "sspi \<Rightarrow> gss \<Rightarrow> bool \<times> gss" where
  "EnsurePackageInfo w g =
     (if gs_packageInfo g \<noteq> None then (True, g)
      else
        let info = sspi_package w (gs_calls g)
        in (info \<noteq> None, (tick g)\<lparr>gs_packageInfo := info\<rparr>))"

definition AcquireDefaultCredentials :: "sspi \<Rightarrow> gss \<Rightarrow> bool \<times> gss" where
  "AcquireDefaultCredentials w g =
     (let g1 = Gss_Reset g;
          ok = sspi_acquire w (gs_calls g1);
          g2 = tick g1
      in if \<not> ok then (False, g2) else EnsurePackageInfo w (g2\<lparr>gs_haveCredentials := True\<rparr>))"

text \<open>\<^verbatim>\<open>clientName_\<close> is the name without its terminating NUL, as after \<^verbatim>\<open>pop_back\<close>; an absent
  or empty name leaves it as it is.\<close>

definition query_name :: "sspi \<Rightarrow> gss \<Rightarrow> gss" where
  "query_name w g =
     (case sspi_name w (gs_calls g) of
        None \<Rightarrow> tick g
      | Some name \<Rightarrow> if name = [] then tick g else (tick g)\<lparr>gs_clientName := name\<rparr>)"

definition AcceptToken :: "sspi \<Rightarrow> bytes \<Rightarrow> gss \<Rightarrow> AcceptStatus \<times> bytes \<times> gss" where
  "AcceptToken w input g =
     (if length input > ULONG_MAX then (Failed, [], g)
      else
        let (ready, g1) = (if gs_haveCredentials g then (True, g) else AcquireDefaultCredentials w g)
        in if \<not> ready then (Failed, [], g1)
           else
             let ans = sspi_accept w (gs_calls g1) (gs_haveContext g1) input;
                 g2 = tick g1;
                 needs = (aa_status ans = SEC_I_COMPLETE_NEEDED \<or> aa_status ans = SEC_I_COMPLETE_AND_CONTINUE);
                 completed = (needs \<longrightarrow> sspi_complete w (gs_calls g2));
                 g3 = (if needs then tick g2 else g2);
                 st = (if needs then (if aa_status ans = SEC_I_COMPLETE_NEEDED then SEC_E_OK else SEC_I_CONTINUE_NEEDED)
                       else aa_status ans)
             in if \<not> completed then (Failed, [], Gss_Reset (g3\<lparr>gs_haveContext := aa_valid ans\<rparr>))
                else if st \<noteq> SEC_E_OK \<and> st \<noteq> SEC_I_CONTINUE_NEEDED then
                  (Failed, [], Gss_Reset (g3\<lparr>gs_haveContext := aa_valid ans\<rparr>))
                else
                  let g4 = g3\<lparr>gs_haveContext := True, gs_contextAttrs := aa_attrs ans\<rparr>
                  in if st = SEC_E_OK then (Complete, aa_token ans, query_name w (g4\<lparr>gs_complete := True\<rparr>))
                     else (ContinueNeeded, aa_token ans, g4))"

definition Wrap :: "sspi \<Rightarrow> bytes \<Rightarrow> bool \<Rightarrow> gss \<Rightarrow> bytes option \<times> gss" where
  "Wrap w input confidentiality g =
     (if \<not> gs_haveContext g \<or> \<not> gs_complete g \<or> length input > ULONG_MAX then (None, g)
      else
        (case sspi_sizes w (gs_calls g) of
           None \<Rightarrow> (None, tick g)
         | Some (trailer, block) \<Rightarrow>
             let g1 = tick g
             in if length input > SIZE_MAX - (trailer + block) then (None, g1)
                else (case sspi_encrypt w (gs_calls g1) confidentiality input of
                        None \<Rightarrow> (None, tick g1)
                      | Some (tok, dat, pad) \<Rightarrow> (Some (tok @ dat @ pad), tick g1))))"

definition Unwrap :: "sspi \<Rightarrow> bytes \<Rightarrow> gss \<Rightarrow> bytes option \<times> gss" where
  "Unwrap w input g =
     (if \<not> gs_haveContext g \<or> \<not> gs_complete g \<or> input = [] \<or> length input > ULONG_MAX then (None, g)
      else
        (case sspi_decrypt w (gs_calls g) input of
           None \<Rightarrow> (None, tick g)
         | Some dat \<Rightarrow> (if dat = [] then None else Some dat, tick g)))"

definition ConfidentialityAvailable :: "gss \<Rightarrow> bool" where
  "ConfidentialityAvailable g \<longleftrightarrow> gs_contextAttrs g AND ASC_RET_CONFIDENTIALITY \<noteq> 0"

definition IntegrityAvailable :: "gss \<Rightarrow> bool" where
  "IntegrityAvailable g \<longleftrightarrow> gs_contextAttrs g AND ASC_RET_INTEGRITY \<noteq> 0"


section \<open>Invariant and protocol of the context\<close>

definition gss_ok :: "gss \<Rightarrow> bool" where
  "gss_ok g \<longleftrightarrow> (gs_complete g \<longrightarrow> gs_haveContext g) \<and> (gs_haveContext g \<longrightarrow> gs_haveCredentials g) \<and>
     (gs_contextAttrs g \<noteq> 0 \<longrightarrow> gs_haveContext g)"

lemma gss_ok_tick [simp]: "gss_ok (tick g) = gss_ok g"
  by (simp add: gss_ok_def tick_def)

lemma gss_ok_new [simp]: "gss_ok new_GssapiContext" "gss_ok (Gss_Reset g)"
  by (simp_all add: gss_ok_def new_GssapiContext_def Gss_Reset_def)

lemma Acquire_ok: "gss_ok (snd (AcquireDefaultCredentials w g)) \<and>
    (fst (AcquireDefaultCredentials w g) \<longrightarrow> gs_haveCredentials (snd (AcquireDefaultCredentials w g))) \<and>
    \<not> gs_haveContext (snd (AcquireDefaultCredentials w g))"
  by (simp add: AcquireDefaultCredentials_def EnsurePackageInfo_def Gss_Reset_def tick_def gss_ok_def Let_def)

lemma AcceptToken_ok:
  assumes "gss_ok g"
  shows "gss_ok (snd (snd (AcceptToken w input g))) \<and>
    (fst (AcceptToken w input g) = Complete \<longrightarrow> gs_complete (snd (snd (AcceptToken w input g)))) \<and>
    (fst (AcceptToken w input g) = Failed \<longrightarrow>
       fst (snd (AcceptToken w input g)) = [] \<and>
       (snd (snd (AcceptToken w input g)) = g \<or> \<not> gs_complete (snd (snd (AcceptToken w input g)))))"
proof (cases "length input > ULONG_MAX")
  case True
  with assms show ?thesis by (simp add: AcceptToken_def)
next
  case False
  obtain ready g1 where r: "(if gs_haveCredentials g then (True, g) else AcquireDefaultCredentials w g) = (ready, g1)"
    by fastforce
  have g1: "gss_ok g1" "ready \<longrightarrow> gs_haveCredentials g1" "\<not> ready \<longrightarrow> \<not> gs_complete g1"
    using assms r Acquire_ok [of w g] by (auto simp: gss_ok_def split: if_splits)
  show ?thesis
  proof (cases ready)
    case True
    with r False g1 show ?thesis
      unfolding AcceptToken_def
      by (auto simp: Let_def Gss_Reset_def query_name_def tick_def gss_ok_def split: option.splits)
  next
    case nr: False
    with r False g1 show ?thesis by (simp add: AcceptToken_def)
  qed
qed

lemma Wrap_keeps:
  "gs_complete (snd (Wrap w input c g)) = gs_complete g" "gs_haveContext (snd (Wrap w input c g)) = gs_haveContext g"
  "gs_protectionLevel (snd (Wrap w input c g)) = gs_protectionLevel g" "gss_ok (snd (Wrap w input c g)) = gss_ok g"
  by (auto simp: Wrap_def Let_def tick_def gss_ok_def split: option.splits)

lemma Unwrap_keeps:
  "gs_complete (snd (Unwrap w input g)) = gs_complete g" "gs_haveContext (snd (Unwrap w input g)) = gs_haveContext g"
  "gs_protectionLevel (snd (Unwrap w input g)) = gs_protectionLevel g" "gss_ok (snd (Unwrap w input g)) = gss_ok g"
  by (auto simp: Unwrap_def Let_def tick_def gss_ok_def split: option.splits)

lemma Unwrap_nonempty: "fst (Unwrap w input g) = Some p \<Longrightarrow> p \<noteq> [] \<and> gs_complete g"
  by (auto simp: Unwrap_def Let_def split: if_splits option.splits)

end
