(* ===== verification/Socks5Session.thy ===== *)
theory Socks5Session
  imports UdpRelay GssapiContext
begin

text \<open>
  The SOCKS5 session of \<^verbatim>\<open>server/protocol/Socks5Session.cpp\<close>: method negotiation, user name and
  GSS-API authentication, the request, name resolution, the outgoing connection, the relay
  with its two bounded send queues, the timers, and the orderly close.

  The state is the record \<open>session\<close>; one function per member function, composed as in the source.
  A completion is an event; the data a receive delivered come with it, and \<open>OnIoCompleted\<close>
  dispatches on the context.  Every call that leaves the session is appended to \<open>ss_out\<close>.  The
  answers of the operating system, of IOCP and of SSPI come from \<open>session_env\<close>.  The UDP relay is
  the model of \<open>UdpRelay\<close>.  Logging is left out.
\<close>

datatype SessionState =
    Handshake | Auth | GssapiAuth | GssapiProtect | Request
  | Resolving | Connecting | Relaying | UdpAssociate | Closing

datatype StreamTag = Client | Dest

datatype sockopt =
    SO_SNDBUF int | SO_RCVBUF int | SO_SNDTIMEO u32 | SO_RCVTIMEO u32 | TCP_NODELAY bool
  | SO_LINGER bool u16 | SO_KEEPALIVE bool | KEEPALIVE_VALS u32 u32 | TCP_KEEPCNT u32

datatype session_act =
    SRecv StreamTag
  | SSend StreamTag bytes
  | SConnect sockaddr_storage
  | SConfigure StreamTag "sockopt list"
  | SShutdownSend StreamTag
  | SShutdownBoth StreamTag
  | SCloseSocket StreamTag
  | SSchedule u64 int
  | SCancel nat
  | SResolve string
  | SPostUser
  | SRelayStop
  | SSessionClosed bool

record StreamIo =
  si_sendQueue :: "bytes list"
  si_sendFrontOffset :: nat
  si_sending :: bool
  si_reading :: bool
  si_peerClosed :: bool
  si_relayReadPaused :: bool

record session_env =
  se_ws :: winsock
  se_cfg :: netcfg
  se_sspi :: sspi
  se_relay :: relay_env
  se_ok :: "nat \<Rightarrow> bool"
  se_timer :: "nat \<Rightarrow> nat"
  se_clock :: "nat \<Rightarrow> int"
  se_local :: "nat \<Rightarrow> sockaddr_storage"

text \<open>\<open>ss_crashed\<close> is not a member of the class: it records that the code has used a null pointer.\<close>

record session =
  ss_client :: bool
  ss_dest :: bool
  ss_clientEp :: sockaddr_storage
  ss_clientLocalEp :: sockaddr_storage
  ss_state :: SessionState
  ss_closed :: bool
  ss_closeAfterFlush :: bool
  ss_clientIo :: StreamIo
  ss_destIo :: StreamIo
  ss_connectMeta :: string
  ss_connectTimerId :: nat
  ss_idleTimerId :: nat
  ss_connectTimerGeneration :: u64
  ss_idleTimerGeneration :: u64
  ss_pendingHost :: string
  ss_pendingPort :: u16
  ss_dnsResult :: "string option"
  ss_ingest :: bytes
  ss_udpRelay :: "relay option"
  ss_slotHeld :: bool
  ss_gssapi :: "gss option"
  ss_gssProtectActive :: bool
  ss_gssRequestUnwrapped :: bool
  ss_crashed :: bool
  ss_calls :: nat
  ss_out :: "session_act list"

abbreviation (input) "kMaxRelayQueueDepth \<equiv> (32 :: nat)"
abbreviation (input) "kMaxProtocolBuffered \<equiv> (1048576 :: nat)"
abbreviation (input) "kGssRelayChunk \<equiv> (16384 :: nat)"
abbreviation (input) "kTimerConnect \<equiv> (2 :: u64)"
abbreviation (input) "kTimerIdle \<equiv> (3 :: u64)"

definition new_StreamIo :: StreamIo where
  "new_StreamIo = \<lparr>si_sendQueue = [], si_sendFrontOffset = 0, si_sending = False, si_reading = False,
     si_peerClosed = False, si_relayReadPaused = False\<rparr>"

definition session_emit :: "session_act list \<Rightarrow> session \<Rightarrow> session" where
  "session_emit as s = s\<lparr>ss_out := ss_out s @ as\<rparr>"

definition session_call :: "session_env \<Rightarrow> session \<Rightarrow> bool \<times> session" where
  "session_call e s = (se_ok e (ss_calls s), s\<lparr>ss_calls := Suc (ss_calls s)\<rparr>)"

fun get_io :: "StreamTag \<Rightarrow> session \<Rightarrow> StreamIo" where
  "get_io Client s = ss_clientIo s"
| "get_io Dest s = ss_destIo s"

fun mod_io :: "StreamTag \<Rightarrow> (StreamIo \<Rightarrow> StreamIo) \<Rightarrow> session \<Rightarrow> session" where
  "mod_io Client f s = s\<lparr>ss_clientIo := f (ss_clientIo s)\<rparr>"
| "mod_io Dest f s = s\<lparr>ss_destIo := f (ss_destIo s)\<rparr>"

fun sock :: "StreamTag \<Rightarrow> session \<Rightarrow> bool" where
  "sock Client s = ss_client s"
| "sock Dest s = ss_dest s"

declare mod_io.simps [simp del]

lemma mod_io_fields [simp]:
  "ss_client (mod_io t f s) = ss_client s" "ss_dest (mod_io t f s) = ss_dest s"
  "ss_clientEp (mod_io t f s) = ss_clientEp s" "ss_clientLocalEp (mod_io t f s) = ss_clientLocalEp s"
  "ss_state (mod_io t f s) = ss_state s" "ss_closed (mod_io t f s) = ss_closed s"
  "ss_closeAfterFlush (mod_io t f s) = ss_closeAfterFlush s" "ss_connectMeta (mod_io t f s) = ss_connectMeta s"
  "ss_connectTimerId (mod_io t f s) = ss_connectTimerId s" "ss_idleTimerId (mod_io t f s) = ss_idleTimerId s"
  "ss_connectTimerGeneration (mod_io t f s) = ss_connectTimerGeneration s"
  "ss_idleTimerGeneration (mod_io t f s) = ss_idleTimerGeneration s"
  "ss_pendingHost (mod_io t f s) = ss_pendingHost s" "ss_pendingPort (mod_io t f s) = ss_pendingPort s"
  "ss_dnsResult (mod_io t f s) = ss_dnsResult s" "ss_ingest (mod_io t f s) = ss_ingest s"
  "ss_udpRelay (mod_io t f s) = ss_udpRelay s" "ss_slotHeld (mod_io t f s) = ss_slotHeld s"
  "ss_gssapi (mod_io t f s) = ss_gssapi s" "ss_gssProtectActive (mod_io t f s) = ss_gssProtectActive s"
  "ss_gssRequestUnwrapped (mod_io t f s) = ss_gssRequestUnwrapped s" "ss_calls (mod_io t f s) = ss_calls s"
  "ss_out (mod_io t f s) = ss_out s"
  by (cases t; simp add: mod_io.simps)+

lemma mod_io_get [simp]:
  "get_io t (mod_io t f s) = f (get_io t s)" "t' \<noteq> t \<Longrightarrow> get_io t' (mod_io t f s) = get_io t' s"
  "sock t' (mod_io t f s) = sock t' s"
  by (cases t; cases t'; simp add: mod_io.simps)+

lemma mod_io_streams [simp]:
  "ss_clientIo (mod_io Client f s) = f (ss_clientIo s)" "ss_destIo (mod_io Client f s) = ss_destIo s"
  "ss_destIo (mod_io Dest f s) = f (ss_destIo s)" "ss_clientIo (mod_io Dest f s) = ss_clientIo s"
  by (simp_all add: mod_io.simps)

fun other_end :: "StreamTag \<Rightarrow> StreamTag" where
  "other_end Client = Dest"
| "other_end Dest = Client"

definition protocol_state :: "SessionState \<Rightarrow> bool" where
  "protocol_state st \<longleftrightarrow> st \<in> {Handshake, Auth, GssapiAuth, GssapiProtect, Request}"


section \<open>Comparison of credentials and socket options\<close>

definition byte_at :: "string \<Rightarrow> nat \<Rightarrow> u32" where
  "byte_at s i = (if i < length s then word_of_nat (of_char (s ! i)) else 0)"

definition ConstantTimeEqual :: "string \<Rightarrow> string \<Rightarrow> bool" where
  "ConstantTimeEqual lhs rhs =
     (let start = word_of_nat (length lhs) XOR word_of_nat (length rhs) :: u32
      in foldl (\<lambda>difference i. difference OR (byte_at lhs i XOR byte_at rhs i)) start
           [0..<max (length lhs) (length rhs)] = 0)"

definition ConfigureSocket :: "netcfg \<Rightarrow> sockopt list" where
  "ConfigureSocket c =
     [SO_SNDBUF (SendBufferSize c), SO_RCVBUF (ReceiveBufferSize c)]
     @ (if SendTimeoutMs c > 0 then [SO_SNDTIMEO (word_of_int (SendTimeoutMs c))] else [])
     @ (if ReceiveTimeoutMs c > 0 then [SO_RCVTIMEO (word_of_int (ReceiveTimeoutMs c))] else [])
     @ [TCP_NODELAY (NoDelay c),
        SO_LINGER (LingerEnabled c) (word_of_int (if LingerTimeoutSec c > 0 then LingerTimeoutSec c else 0)),
        SO_KEEPALIVE (KeepAlive c)]
     @ (if KeepAlive c then
          KEEPALIVE_VALS (word_of_int (if TcpKeepAliveTime c > 0 then TcpKeepAliveTime c else 60) * 1000)
                         (word_of_int (if TcpKeepAliveInterval c > 0 then TcpKeepAliveInterval c else 10) * 1000)
          # (if TcpKeepAliveRetryCount c > 0 then [TCP_KEEPCNT (word_of_int (TcpKeepAliveRetryCount c))] else [])
        else [])"

definition new_Socks5Session :: "session_env \<Rightarrow> sockaddr_storage \<Rightarrow> sockaddr_storage \<Rightarrow> bool \<Rightarrow> session" where
  "new_Socks5Session e clientEp clientLocalEp slotHeld =
     \<lparr>ss_client = True, ss_dest = False, ss_clientEp = clientEp, ss_clientLocalEp = clientLocalEp,
      ss_state = Handshake, ss_closed = False, ss_closeAfterFlush = False, ss_clientIo = new_StreamIo,
      ss_destIo = new_StreamIo, ss_connectMeta = [], ss_connectTimerId = 0, ss_idleTimerId = 0,
      ss_connectTimerGeneration = 0, ss_idleTimerGeneration = 0, ss_pendingHost = [], ss_pendingPort = 0,
      ss_dnsResult = None, ss_ingest = [], ss_udpRelay = None, ss_slotHeld = slotHeld, ss_gssapi = None,
      ss_gssProtectActive = False, ss_gssRequestUnwrapped = False, ss_crashed = False, ss_calls = 0,
      ss_out = [SConfigure Client (ConfigureSocket (se_cfg e))]\<rparr>"


section \<open>Timers and closing\<close>

definition timer_key :: "u64 \<Rightarrow> u64 \<Rightarrow> u64" where
  "timer_key generation kind = push_bit 8 generation OR kind"

definition CancelIdleTimer :: "session \<Rightarrow> session" where
  "CancelIdleTimer s =
     (let s1 = s\<lparr>ss_idleTimerGeneration := ss_idleTimerGeneration s + 1\<rparr>
      in if ss_idleTimerId s1 \<noteq> 0 then session_emit [SCancel (ss_idleTimerId s1)] (s1\<lparr>ss_idleTimerId := 0\<rparr>) else s1)"

definition CancelConnectTimer :: "session \<Rightarrow> session" where
  "CancelConnectTimer s =
     (let s1 = s\<lparr>ss_connectTimerGeneration := ss_connectTimerGeneration s + 1\<rparr>
      in if ss_connectTimerId s1 \<noteq> 0 then session_emit [SCancel (ss_connectTimerId s1)] (s1\<lparr>ss_connectTimerId := 0\<rparr>) else s1)"

definition ArmIdleTimer :: "session_env \<Rightarrow> session \<Rightarrow> session" where
  "ArmIdleTimer e s =
     (let s1 = CancelIdleTimer s
      in if IdleTimeoutMs (se_cfg e) \<le> 0 then s1
         else if ss_state s1 \<in> {Relaying, UdpAssociate, Resolving, Connecting} then s1
         else
           let generation = ss_idleTimerGeneration s1 + 1
           in session_emit [SSchedule (timer_key generation kTimerIdle) (IdleTimeoutMs (se_cfg e))]
                (s1\<lparr>ss_idleTimerGeneration := generation, ss_idleTimerId := se_timer e (ss_calls s1),
                    ss_calls := Suc (ss_calls s1)\<rparr>))"

definition ArmConnectTimer :: "session_env \<Rightarrow> session \<Rightarrow> bool \<times> session" where
  "ArmConnectTimer e s =
     (let s1 = CancelConnectTimer s
      in if ConnectTimeoutMs (se_cfg e) \<le> 0 then (True, s1)
         else
           let generation = ss_connectTimerGeneration s1 + 1;
               timer = se_timer e (ss_calls s1)
           in (timer \<noteq> 0,
               session_emit [SSchedule (timer_key generation kTimerConnect) (ConnectTimeoutMs (se_cfg e))]
                 (s1\<lparr>ss_connectTimerGeneration := generation, ss_connectTimerId := timer, ss_calls := Suc (ss_calls s1)\<rparr>)))"

definition close_dest :: "session \<Rightarrow> session" where
  "close_dest s = (if ss_dest s then session_emit [SCloseSocket Dest] (s\<lparr>ss_dest := False\<rparr>) else s)"

definition Close :: "session \<Rightarrow> session" where
  "Close s =
     (if ss_closed s then s
      else
        let s1 = (CancelIdleTimer (CancelConnectTimer (s\<lparr>ss_closed := True\<rparr>)))\<lparr>ss_closeAfterFlush := False\<rparr>;
            s2 = (if ss_udpRelay s1 \<noteq> None then session_emit [SRelayStop] (s1\<lparr>ss_udpRelay := None\<rparr>) else s1);
            s3 = (if ss_client s2 then session_emit [SShutdownBoth Client, SCloseSocket Client] (s2\<lparr>ss_client := False\<rparr>) else s2);
            s4 = (if ss_dest s3 then session_emit [SShutdownBoth Dest, SCloseSocket Dest] (s3\<lparr>ss_dest := False\<rparr>) else s3)
        in session_emit [SSessionClosed (ss_slotHeld s4)] s4)"

text \<open>The destructor: it closes what is left, without telling the server.\<close>

definition destroy_Socks5Session :: "session \<Rightarrow> session" where
  "destroy_Socks5Session s =
     (let s1 = CancelIdleTimer (CancelConnectTimer (s\<lparr>ss_closed := True\<rparr>));
          s2 = (if ss_udpRelay s1 \<noteq> None then session_emit [SRelayStop] (s1\<lparr>ss_udpRelay := None\<rparr>) else s1);
          s3 = (if ss_client s2 then session_emit [SCloseSocket Client] (s2\<lparr>ss_client := False\<rparr>) else s2)
      in close_dest s3)"

definition client_flushed :: "session \<Rightarrow> bool" where
  "client_flushed s \<longleftrightarrow> si_sendQueue (ss_clientIo s) = [] \<and> \<not> si_sending (ss_clientIo s)"

definition RequestCloseAfterFlush :: "session \<Rightarrow> session" where
  "RequestCloseAfterFlush s =
     (let s1 = s\<lparr>ss_closeAfterFlush := True\<rparr> in if client_flushed s1 then Close s1 else s1)"

definition OnUdpRelayStopped :: "session \<Rightarrow> session" where
  "OnUdpRelayStopped s = (if ss_closed s then s else Close s)"

definition BeginClientRead :: "session_env \<Rightarrow> session \<Rightarrow> bool \<times> session" where
  "BeginClientRead e s =
     (if ss_closed s \<or> si_reading (ss_clientIo s) then (False, s)
      else
        let (ok, s1) = session_call e (mod_io Client (\<lambda>io. io\<lparr>si_reading := True\<rparr>) s)
        in if ok then (True, session_emit [SRecv Client] s1)
           else (False, Close (mod_io Client (\<lambda>io. io\<lparr>si_reading := False\<rparr>) s1)))"

definition Session_Start :: "session_env \<Rightarrow> session \<Rightarrow> bool \<times> session" where
  "Session_Start e s =
     (let (assoc, s1) = session_call e s
      in if \<not> assoc then (False, s1)
         else BeginClientRead e (ArmIdleTimer e (s1\<lparr>ss_state := Handshake\<rparr>)))"


section \<open>Sending\<close>

definition PumpSend :: "session_env \<Rightarrow> StreamTag \<Rightarrow> session \<Rightarrow> session" where
  "PumpSend e tag s =
     (if \<not> sock tag s then s
      else
        let io = get_io tag s
        in if si_sending io \<or> si_sendQueue io = [] then s
           else
             let data = drop (si_sendFrontOffset io) (hd (si_sendQueue io));
                 (ok, s1) = session_call e (mod_io tag (\<lambda>io. io\<lparr>si_sending := True\<rparr>) s)
             in if ok then session_emit [SSend tag data] s1
                else Close (mod_io tag (\<lambda>io. io\<lparr>si_sending := False\<rparr>) s1))"

definition QueueClientSendRaw :: "session_env \<Rightarrow> bytes \<Rightarrow> session \<Rightarrow> session" where
  "QueueClientSendRaw e data s =
     PumpSend e Client (mod_io Client (\<lambda>io. io\<lparr>si_sendQueue := si_sendQueue io @ [data]\<rparr>) s)"

definition QueueDestSend :: "session_env \<Rightarrow> bytes \<Rightarrow> session \<Rightarrow> session" where
  "QueueDestSend e data s =
     PumpSend e Dest (mod_io Dest (\<lambda>io. io\<lparr>si_sendQueue := si_sendQueue io @ [data]\<rparr>) s)"

definition gss_frame :: "byte \<Rightarrow> bytes \<Rightarrow> bytes" where
  "gss_frame mtyp token =
     [Gssapi_Version, mtyp, hi8 (word_of_nat (length token)), lo8 (word_of_nat (length token))] @ token"

definition SendGssFrame :: "session_env \<Rightarrow> byte \<Rightarrow> bytes \<Rightarrow> session \<Rightarrow> session" where
  "SendGssFrame e mtyp token s = QueueClientSendRaw e (gss_frame mtyp token) s"

definition SendGssAbort :: "session_env \<Rightarrow> session \<Rightarrow> session" where
  "SendGssAbort e s = QueueClientSendRaw e [Gssapi_Version, Gssapi_MsgAbort] s"

definition wrap_confidential :: "gss \<Rightarrow> bool" where
  "wrap_confidential g \<longleftrightarrow> gs_protectionLevel g = Gssapi_ProtectConfidentiality \<or>
     (gs_protectionLevel g = Gssapi_ProtectSelective \<and> ConfidentialityAvailable g)"

definition WrapAndQueueClient :: "session_env \<Rightarrow> bytes \<Rightarrow> session \<Rightarrow> bool \<times> session" where
  "WrapAndQueueClient e cleartext s =
     (case ss_gssapi s of
        None \<Rightarrow> (False, s)
      | Some g \<Rightarrow>
          (case Wrap (se_sspi e) cleartext (wrap_confidential g) g of
             (None, g1) \<Rightarrow> (False, s\<lparr>ss_gssapi := Some g1\<rparr>)
           | (Some token, g1) \<Rightarrow>
               let s1 = s\<lparr>ss_gssapi := Some g1\<rparr>
               in if length token > 65535 then (False, s1)
                  else (True, SendGssFrame e Gssapi_MsgEncapsulated token s1)))"

definition QueueClientSend :: "session_env \<Rightarrow> bytes \<Rightarrow> session \<Rightarrow> session" where
  "QueueClientSend e data s =
     (if ss_gssProtectActive s \<and> ss_state s \<noteq> Relaying \<and> ss_state s \<noteq> UdpAssociate then
        let (ok, s1) = WrapAndQueueClient e data s in if ok then s1 else Close s1
      else QueueClientSendRaw e data s)"

fun reply_address :: "sockaddr_storage option \<Rightarrow> bytes" where
  "reply_address None = AddressType_IPv4 # replicate 6 0"
| "reply_address (Some (AddrIn port a)) = AddressType_IPv4 # a @ [hi8 port, lo8 port]"
| "reply_address (Some (AddrIn6 port f a sc)) = AddressType_IPv6 # a @ [hi8 port, lo8 port]"
| "reply_address (Some AddrNone) = AddressType_IPv6 # replicate 18 0"

definition SendSocksReply :: "session_env \<Rightarrow> byte \<Rightarrow> sockaddr_storage option \<Rightarrow> session \<Rightarrow> session" where
  "SendSocksReply e replyCode bound s =
     QueueClientSend e ([kVersion, replyCode, kReserved] @ reply_address bound) s"

definition FailAndClose :: "session_env \<Rightarrow> byte \<Rightarrow> session \<Rightarrow> session" where
  "FailAndClose e replyCode s =
     (if ss_closed s \<or> ss_state s = Closing then s
      else
        let s1 = close_dest (CancelIdleTimer (CancelConnectTimer (s\<lparr>ss_state := Closing\<rparr>)))
        in RequestCloseAfterFlush (SendSocksReply e replyCode None s1))"

section \<open>GSS-API framing\<close>

datatype gss_read = NeedMore | ProtocolError | Frame bytes

definition TryReadGssFrame :: "byte \<Rightarrow> bytes \<Rightarrow> gss_read \<times> bytes" where
  "TryReadGssFrame expectedMtyp ingest =
     (if length ingest < 2 then (NeedMore, ingest)
      else if ingest ! 0 \<noteq> Gssapi_Version then (ProtocolError, ingest)
      else
        let mtyp = ingest ! 1
        in if mtyp = Gssapi_MsgAbort then (ProtocolError, drop 2 ingest)
           else if mtyp \<noteq> expectedMtyp then (ProtocolError, ingest)
           else if length ingest < 4 then (NeedMore, ingest)
           else
             let len = unat (be16 (ingest ! 2) (ingest ! 3))
             in if length ingest < 4 + len then (NeedMore, ingest)
                else (Frame (take len (drop 4 ingest)), drop (4 + len) ingest))"

lemma TryReadGssFrame_shrinks: "TryReadGssFrame m ingest = (Frame t, rest) \<Longrightarrow> length rest < length ingest"
  by (auto simp: TryReadGssFrame_def Let_def split: if_splits)

lemma ingest_Close [simp]: "ss_ingest (Close s) = ss_ingest s"
  by (simp add: Close_def CancelIdleTimer_def CancelConnectTimer_def session_emit_def Let_def)

lemma ingest_PumpSend [simp]: "ss_ingest (PumpSend e t s) = ss_ingest s"
  by (simp add: PumpSend_def Let_def split_def session_emit_def) (simp add: session_call_def)

lemma ingest_QueueDestSend [simp]: "ss_ingest (QueueDestSend e d s) = ss_ingest s"
  by (simp add: QueueDestSend_def)

function ProcessGssRelayInput :: "session_env \<Rightarrow> session \<Rightarrow> bool \<times> session" where
  "ProcessGssRelayInput e s =
     (if ss_ingest s = [] then (True, s)
      else
        (case TryReadGssFrame Gssapi_MsgEncapsulated (ss_ingest s) of
           (NeedMore, rest) \<Rightarrow> (True, s\<lparr>ss_ingest := rest\<rparr>)
         | (ProtocolError, rest) \<Rightarrow> (False, s\<lparr>ss_ingest := rest\<rparr>)
         | (Frame token, rest) \<Rightarrow>
             (case ss_gssapi s of
                None \<Rightarrow> (False, s\<lparr>ss_ingest := rest\<rparr>)
              | Some g \<Rightarrow>
                  (case Unwrap (se_sspi e) token g of
                     (None, g1) \<Rightarrow> (False, s\<lparr>ss_ingest := rest, ss_gssapi := Some g1\<rparr>)
                   | (Some clear, g1) \<Rightarrow>
                       let s1 = s\<lparr>ss_ingest := rest, ss_gssapi := Some g1\<rparr>
                       in ProcessGssRelayInput e (if clear \<noteq> [] then QueueDestSend e clear s1 else s1)))))"
  by pat_completeness auto
termination
  by (relation "measure (\<lambda>(e, s). length (ss_ingest s))") (auto dest: TryReadGssFrame_shrinks [OF sym])

declare ProcessGssRelayInput.simps [simp del]

definition EnsureCleartextRequestIngest :: "session_env \<Rightarrow> session \<Rightarrow> bool \<times> session" where
  "EnsureCleartextRequestIngest e s =
     (if \<not> ss_gssProtectActive s \<or> ss_gssRequestUnwrapped s then (True, s)
      else
        (case TryReadGssFrame Gssapi_MsgEncapsulated (ss_ingest s) of
           (NeedMore, rest) \<Rightarrow> (True, s\<lparr>ss_ingest := rest\<rparr>)
         | (ProtocolError, rest) \<Rightarrow> (False, s\<lparr>ss_ingest := rest\<rparr>)
         | (Frame token, rest) \<Rightarrow>
             (case ss_gssapi s of
                None \<Rightarrow> (False, s\<lparr>ss_ingest := rest\<rparr>)
              | Some g \<Rightarrow>
                  (case Unwrap (se_sspi e) token g of
                     (None, g1) \<Rightarrow> (False, s\<lparr>ss_ingest := rest, ss_gssapi := Some g1\<rparr>)
                   | (Some clear, g1) \<Rightarrow>
                       (True, s\<lparr>ss_ingest := clear @ rest, ss_gssapi := Some g1, ss_gssRequestUnwrapped := True\<rparr>)))))"


section \<open>The relay\<close>

definition TryPostRelayRead :: "session_env \<Rightarrow> StreamTag \<Rightarrow> session \<Rightarrow> bool \<times> session" where
  "TryPostRelayRead e receiver s =
     (if ss_state s \<noteq> Relaying \<or> ss_closed s then (False, s)
      else
        let recvIo = get_io receiver s;
            sendIo = get_io (other_end receiver) s
        in if si_reading recvIo \<or> si_peerClosed recvIo \<or> si_relayReadPaused recvIo \<or> \<not> sock receiver s then (False, s)
           else if length (si_sendQueue sendIo) \<ge> kMaxRelayQueueDepth then
             (False, mod_io receiver (\<lambda>io. io\<lparr>si_relayReadPaused := True\<rparr>) s)
           else
             let (ok, s1) = session_call e (mod_io receiver (\<lambda>io. io\<lparr>si_reading := True\<rparr>) s)
             in if ok then (True, session_emit [SRecv receiver] s1)
                else (False, Close (mod_io receiver (\<lambda>io. io\<lparr>si_reading := False\<rparr>) s1)))"

definition MaybeResumeRelayRead :: "session_env \<Rightarrow> StreamTag \<Rightarrow> session \<Rightarrow> session" where
  "MaybeResumeRelayRead e receiver s =
     (if ss_state s \<noteq> Relaying \<or> ss_closed s then s
      else if \<not> si_relayReadPaused (get_io receiver s) then s
      else if length (si_sendQueue (get_io (other_end receiver) s)) \<ge> kMaxRelayQueueDepth then s
      else snd (TryPostRelayRead e receiver (mod_io receiver (\<lambda>io. io\<lparr>si_relayReadPaused := False\<rparr>) s)))"

text \<open>The parts of at most 16 KiB in which a chunk from the destination is wrapped.\<close>

function gss_chunks :: "bytes \<Rightarrow> bytes list" where
  "gss_chunks data = (if data = [] then [] else take kGssRelayChunk data # gss_chunks (drop kGssRelayChunk data))"
  by pat_completeness auto
termination by (relation "measure length") auto

declare gss_chunks.simps [simp del]

fun wrap_all :: "session_env \<Rightarrow> bytes list \<Rightarrow> session \<Rightarrow> bool \<times> session" where
  "wrap_all e [] s = (True, s)"
| "wrap_all e (part # parts) s =
     (case WrapAndQueueClient e part s of
        (False, s1) \<Rightarrow> (False, s1)
      | (True, s1) \<Rightarrow> wrap_all e parts s1)"

definition OnRelayData :: "session_env \<Rightarrow> StreamTag \<Rightarrow> bytes \<Rightarrow> session \<Rightarrow> session" where
  "OnRelayData e from chunk s =
     (case from of
        Client \<Rightarrow>
          if ss_gssProtectActive s then
            if length chunk > kMaxProtocolBuffered \<or> length (ss_ingest s) > kMaxProtocolBuffered - length chunk then Close s
            else
              let (ok, s1) = ProcessGssRelayInput e (s\<lparr>ss_ingest := ss_ingest s @ chunk\<rparr>)
              in if \<not> ok then Close s1 else snd (TryPostRelayRead e Client s1)
          else snd (TryPostRelayRead e Client (QueueDestSend e chunk s))
      | Dest \<Rightarrow>
          if ss_gssProtectActive s then
            let (ok, s1) = wrap_all e (gss_chunks chunk) s
            in if \<not> ok then Close s1 else snd (TryPostRelayRead e Dest s1)
          else snd (TryPostRelayRead e Dest (QueueClientSendRaw e chunk s)))"

definition StartRelay :: "session_env \<Rightarrow> session \<Rightarrow> session" where
  "StartRelay e s =
     (let s1 = CancelIdleTimer (s\<lparr>ss_state := Relaying\<rparr>);
          (ok, s2) =
            (if ss_ingest s1 = [] then (True, s1)
             else if ss_gssProtectActive s1 then ProcessGssRelayInput e s1
             else (True, QueueDestSend e (ss_ingest s1) (s1\<lparr>ss_ingest := []\<rparr>)))
      in if \<not> ok then Close s2
         else
           let s3 = (if \<not> si_reading (ss_clientIo s2) then snd (BeginClientRead e s2) else s2);
               (posted, s4) =
                 (let (called, s5) = session_call e (mod_io Dest (\<lambda>io. io\<lparr>si_reading := True\<rparr>) s3)
                  in (called \<and> ss_dest s3, s5))
           in if posted then session_emit [SRecv Dest] s4
              else Close (mod_io Dest (\<lambda>io. io\<lparr>si_reading := False\<rparr>) s4))"

definition pop_sent :: "nat \<Rightarrow> StreamIo \<Rightarrow> StreamIo" where
  "pop_sent bytes io =
     (case si_sendQueue io of
        [] \<Rightarrow> io
      | front # rest \<Rightarrow>
          let off = si_sendFrontOffset io + bytes
          in if off \<ge> length front then io\<lparr>si_sendQueue := rest, si_sendFrontOffset := 0\<rparr>
             else io\<lparr>si_sendFrontOffset := off\<rparr>)"

definition OnClientSend :: "session_env \<Rightarrow> nat \<Rightarrow> bool \<Rightarrow> session \<Rightarrow> session" where
  "OnClientSend e bytes error s =
     (let s1 = mod_io Client (\<lambda>io. io\<lparr>si_sending := False\<rparr>) s
      in if error then Close s1
         else
           let s2 = PumpSend e Client (mod_io Client (pop_sent bytes) s1)
           in if ss_closeAfterFlush s2 \<and> client_flushed s2 then Close s2
              else MaybeResumeRelayRead e Dest s2)"

definition OnDestSend :: "session_env \<Rightarrow> nat \<Rightarrow> bool \<Rightarrow> session \<Rightarrow> session" where
  "OnDestSend e bytes error s =
     (let s1 = mod_io Dest (\<lambda>io. io\<lparr>si_sending := False\<rparr>) s
      in if error then Close s1
         else MaybeResumeRelayRead e Client (PumpSend e Dest (mod_io Dest (pop_sent bytes) s1)))"

definition OnDestRecv :: "session_env \<Rightarrow> bytes \<Rightarrow> bool \<Rightarrow> session \<Rightarrow> session" where
  "OnDestRecv e data error s =
     (if error \<or> data = [] then
        let s1 = mod_io Dest (\<lambda>io. io\<lparr>si_peerClosed := True\<rparr>) s;
            s2 = (if ss_client s1 then session_emit [SShutdownSend Client] s1 else s1)
        in if si_peerClosed (ss_clientIo s2) then Close s2 else s2
      else OnRelayData e Dest data s)"


section \<open>Connecting\<close>

definition ConnectToHost :: "session_env \<Rightarrow> string \<Rightarrow> string \<Rightarrow> u16 \<Rightarrow> session \<Rightarrow> bool \<times> session" where
  "ConnectToHost e address destinationIP port s =
     (case ParseIP (se_ws e) destinationIP of
        None \<Rightarrow> (False, FailAndClose e ReplyCode_HostUnreachable s)
      | Some (sa, destFamily) \<Rightarrow>
          let destStorage = set_port port sa;
              (created, s1) = session_call e s
          in if \<not> created then (False, FailAndClose e ReplyCode_GeneralFailure (s1\<lparr>ss_dest := False\<rparr>))
             else
               let s2 = session_emit [SConfigure Dest (ConfigureSocket (se_cfg e))] (s1\<lparr>ss_dest := True\<rparr>);
                   (bound, s3) =
                     (case FillOutputBindAddress (se_ws e) 0 (se_cfg e) of
                        None \<Rightarrow> (False, s2)
                      | Some bindAddr \<Rightarrow> session_call e s2)
               in if \<not> bound then (False, FailAndClose e ReplyCode_NetworkUnreachable (close_dest s3))
                  else
                    let (assoc, s4) = session_call e s3
                    in if \<not> assoc then (False, FailAndClose e ReplyCode_GeneralFailure (close_dest s4))
                       else
                         let s5 = (CancelIdleTimer (s4\<lparr>ss_state := Connecting\<rparr>))
                                    \<lparr>ss_connectMeta := address @ [CHR 0x0A] @ destinationIP @ [CHR 0x0A] @ to_string (unat port)\<rparr>;
                             (posted, s6) = session_call e s5
                         in if \<not> posted then (False, FailAndClose e ReplyCode_GeneralFailure (close_dest s6))
                            else
                              let (armed, s7) = ArmConnectTimer e (session_emit [SConnect destStorage] s6)
                              in if \<not> armed then (False, FailAndClose e ReplyCode_GeneralFailure s7) else (True, s7))"

definition StartConnect :: "session_env \<Rightarrow> string \<Rightarrow> u16 \<Rightarrow> session \<Rightarrow> bool \<times> session" where
  "StartConnect e address port s =
     (if ParseIP (se_ws e) address \<noteq> None then ConnectToHost e address address port s
      else (True, session_emit [SResolve address]
              (CancelIdleTimer (s\<lparr>ss_state := Resolving, ss_pendingHost := address, ss_pendingPort := port, ss_dnsResult := None\<rparr>))))"

text \<open>The callback given to \<^verbatim>\<open>ResolveAsync\<close>.\<close>

definition OnDnsAnswer :: "session_env \<Rightarrow> string option \<Rightarrow> session \<Rightarrow> session" where
  "OnDnsAnswer e ip s =
     (if ss_closed s then s
      else
        let (ok, s1) = session_call e (s\<lparr>ss_dnsResult := ip\<rparr>)
        in if ok then session_emit [SPostUser] s1 else Close s1)"

definition OnDnsResolved :: "session_env \<Rightarrow> session \<Rightarrow> session" where
  "OnDnsResolved e s =
     (if ss_closed s \<or> ss_state s \<noteq> Resolving then s
      else case ss_dnsResult s of
        None \<Rightarrow> FailAndClose e ReplyCode_HostUnreachable s
      | Some destinationIP \<Rightarrow>
          (case ParseIP (se_ws e) destinationIP of
             None \<Rightarrow> FailAndClose e ReplyCode_HostUnreachable s
           | Some (sa, destFamily) \<Rightarrow>
               if destFamily \<noteq> OutputAddressFamily (se_cfg e) \<and> \<not> IsAnyAddress (OutputInterfaceIP (se_cfg e))
               then FailAndClose e ReplyCode_HostUnreachable s
               else
                 let (ok, s1) = ConnectToHost e (ss_pendingHost s) destinationIP (ss_pendingPort s) s
                 in if ok then s1 else RequestCloseAfterFlush s1))"

text \<open>\<^verbatim>\<open>std::stoi\<close>: leading white space, an optional sign, digits; \<open>None\<close> where it throws.\<close>

definition stoi_text :: "string \<Rightarrow> int option" where
  "stoi_text s =
     (let t = dropWhile isspace_c s;
          neg = (t \<noteq> [] \<and> hd t = CHR ''-'');
          u = (if t \<noteq> [] \<and> (hd t = CHR ''-'' \<or> hd t = CHR ''+'') then tl t else t);
          ds = takeWhile isdigit_c u;
          n = (if neg then - int (digits_val ds) else int (digits_val ds))
      in if ds = [] then None else if -(2 ^ 31) \<le> n \<and> n < 2 ^ 31 then Some n else None)"

text \<open>The port read back from the context buffer for the log line: \<open>False\<close> when \<^verbatim>\<open>std::stoi\<close> throws.\<close>

definition meta_parses :: "string \<Rightarrow> bool" where
  "meta_parses buffer =
     (let meta = c_str buffer;
          rest1 = dropWhile (\<lambda>c. c \<noteq> CHR 0x0A) meta
      in if rest1 = [] then True
         else
           let rest2 = dropWhile (\<lambda>c. c \<noteq> CHR 0x0A) (tl rest1)
           in if rest2 = [] then True else stoi_text (tl rest2) \<noteq> None)"

definition connect_error_code :: "nat \<Rightarrow> byte" where
  "connect_error_code error =
     (if error = 10060 then ReplyCode_TtlExpired
      else if error = 10061 then ReplyCode_ConnectionRefused
      else if error = 10051 then ReplyCode_NetworkUnreachable
      else if error = 10065 then ReplyCode_HostUnreachable
      else ReplyCode_GeneralFailure)"

text \<open>An exception leaves the handler and is swallowed by the IOCP worker, so the statements after it are lost.\<close>

definition OnDestConnect :: "session_env \<Rightarrow> nat \<Rightarrow> session \<Rightarrow> session" where
  "OnDestConnect e error s =
     (let s1 = CancelConnectTimer s
      in if ss_state s1 \<noteq> Connecting then s1
         else if error \<noteq> 0 then FailAndClose e (connect_error_code error) (close_dest s1)
         else
           let s2 = SendSocksReply e ReplyCode_Succeeded (Some (se_local e (ss_calls s1))) s1
           in if meta_parses (ss_connectMeta s2) then StartRelay e s2 else s2)"

section \<open>Protocol messages\<close>

definition select_method :: "netcfg \<Rightarrow> bytes \<Rightarrow> byte" where
  "select_method c methods =
     (let offerGss = AuthMethod_Gssapi \<in> set methods;
          offerUserPass = AuthMethod_UsernamePassword \<in> set methods;
          offerNoAuth = AuthMethod_NoAuth \<in> set methods;
          hasCreds = HasCredentials c
      in if EnableGssapi c \<and> offerGss then AuthMethod_Gssapi
         else if hasCreds \<and> offerUserPass then AuthMethod_UsernamePassword
         else if \<not> hasCreds \<and> offerNoAuth then AuthMethod_NoAuth
         else AuthMethod_NoAcceptableMethods)"

definition ProcessHandshakeBuffer :: "session_env \<Rightarrow> session \<Rightarrow> bool \<times> session" where
  "ProcessHandshakeBuffer e s =
     (let ingest = ss_ingest s
      in if length ingest < 2 then (True, s)
         else if ingest ! 0 \<noteq> kVersion then (False, s)
         else
           let methodCount = unat (ingest ! 1)
           in if methodCount = 0 then (False, s)
              else if length ingest < 2 + methodCount then (True, s)
              else
                let selected = select_method (se_cfg e) (take methodCount (drop 2 ingest));
                    s1 = QueueClientSendRaw e [kVersion, selected] (s\<lparr>ss_ingest := drop (2 + methodCount) ingest\<rparr>)
                in if selected = AuthMethod_NoAcceptableMethods then (False, s1)
                   else if selected = AuthMethod_Gssapi then
                     (case AcquireDefaultCredentials (se_sspi e) new_GssapiContext of
                        (ok, g) \<Rightarrow>
                          let s2 = s1\<lparr>ss_gssapi := Some g\<rparr>
                          in if \<not> ok then (False, SendGssAbort e s2) else (True, s2\<lparr>ss_state := GssapiAuth\<rparr>))
                   else if selected = AuthMethod_UsernamePassword then (True, s1\<lparr>ss_state := Auth\<rparr>)
                   else (True, s1\<lparr>ss_state := Request\<rparr>))"

definition ProcessAuthBuffer :: "session_env \<Rightarrow> session \<Rightarrow> bool \<times> session" where
  "ProcessAuthBuffer e s =
     (let ingest = ss_ingest s
      in if length ingest < 2 then (True, s)
         else if ingest ! 0 \<noteq> AuthProtocol_Version then (False, s)
         else
           let ulen = unat (ingest ! 1)
           in if length ingest < 2 + ulen + 1 then (True, s)
              else
                let plen = unat (ingest ! (2 + ulen))
                in if length ingest < 2 + ulen + 1 + plen then (True, s)
                   else
                     let username = string_of_bytes (take ulen (drop 2 ingest));
                         password = string_of_bytes (take plen (drop (3 + ulen) ingest));
                         ok = (ConstantTimeEqual username (Username (se_cfg e)) \<and>
                               ConstantTimeEqual password (Password (se_cfg e)));
                         s1 = QueueClientSendRaw e
                                [AuthProtocol_Version, if ok then AuthProtocol_Success else AuthProtocol_Failure]
                                (s\<lparr>ss_ingest := drop (2 + ulen + 1 + plen) ingest\<rparr>)
                     in if \<not> ok then (False, s1) else (True, s1\<lparr>ss_state := Request\<rparr>))"

definition ProcessGssapiAuthBuffer :: "session_env \<Rightarrow> session \<Rightarrow> bool \<times> session" where
  "ProcessGssapiAuthBuffer e s =
     (case TryReadGssFrame Gssapi_MsgAuth (ss_ingest s) of
        (NeedMore, rest) \<Rightarrow> (True, s\<lparr>ss_ingest := rest\<rparr>)
      | (ProtocolError, rest) \<Rightarrow> (False, SendGssAbort e (s\<lparr>ss_ingest := rest\<rparr>))
      | (Frame token, rest) \<Rightarrow>
          (case ss_gssapi s of
             None \<Rightarrow> (False, SendGssAbort e (s\<lparr>ss_ingest := rest\<rparr>))
           | Some g \<Rightarrow>
               (case AcceptToken (se_sspi e) token g of
                  (status, outToken, g1) \<Rightarrow>
                    let s1 = s\<lparr>ss_ingest := rest, ss_gssapi := Some g1\<rparr>
                    in if status = Failed \<or> length outToken > 65535 then (False, SendGssAbort e s1)
                       else
                         let s2 = SendGssFrame e Gssapi_MsgAuth outToken s1
                         in (True, if status = Complete then s2\<lparr>ss_state := GssapiProtect\<rparr> else s2))))"

definition select_protection :: "netcfg \<Rightarrow> gss \<Rightarrow> byte \<Rightarrow> byte" where
  "select_protection c g clientLevel =
     (let maxLevel = word_of_int (GssapiMaxProtection c) :: byte;
          selected = (if clientLevel > maxLevel then maxLevel else clientLevel);
          lowered = (if selected = Gssapi_ProtectConfidentiality \<and> \<not> ConfidentialityAvailable g
                     then Gssapi_ProtectIntegrity else selected)
      in if lowered = Gssapi_ProtectIntegrity \<and> \<not> IntegrityAvailable g then Gssapi_ProtectIntegrity else lowered)"

definition ProcessGssapiProtectBuffer :: "session_env \<Rightarrow> session \<Rightarrow> bool \<times> session" where
  "ProcessGssapiProtectBuffer e s =
     (case TryReadGssFrame Gssapi_MsgProtection (ss_ingest s) of
        (NeedMore, rest) \<Rightarrow> (True, s\<lparr>ss_ingest := rest\<rparr>)
      | (ProtocolError, rest) \<Rightarrow> (False, SendGssAbort e (s\<lparr>ss_ingest := rest\<rparr>))
      | (Frame token, rest) \<Rightarrow>
          (case ss_gssapi s of
             None \<Rightarrow> (False, SendGssAbort e (s\<lparr>ss_ingest := rest\<rparr>))
           | Some g \<Rightarrow>
               (case Unwrap (se_sspi e) token g of
                  (None, g1) \<Rightarrow> (False, SendGssAbort e (s\<lparr>ss_ingest := rest, ss_gssapi := Some g1\<rparr>))
                | (Some clear, g1) \<Rightarrow>
                    let s1 = s\<lparr>ss_ingest := rest, ss_gssapi := Some g1\<rparr>
                    in if clear = [] then (False, SendGssAbort e s1)
                       else if hd clear < Gssapi_ProtectIntegrity \<or> hd clear > Gssapi_ProtectSelective then
                         (False, SendGssAbort e s1)
                       else
                         let selected = select_protection (se_cfg e) g1 (hd clear)
                         in (case Wrap (se_sspi e) [selected] False (g1\<lparr>gs_protectionLevel := selected\<rparr>) of
                               (None, g2) \<Rightarrow> (False, SendGssAbort e (s1\<lparr>ss_gssapi := Some g2\<rparr>))
                             | (Some wrapped, g2) \<Rightarrow>
                                 let s2 = s1\<lparr>ss_gssapi := Some g2\<rparr>
                                 in if length wrapped > 65535 then (False, SendGssAbort e s2)
                                    else (True, (SendGssFrame e Gssapi_MsgProtection wrapped s2)
                                                  \<lparr>ss_gssProtectActive := True, ss_gssRequestUnwrapped := False,
                                                   ss_state := Request\<rparr>)))))"

text \<open>The request header: the reply code of a malformed one, or the bytes it takes.\<close>

datatype request_parse = ReqMore | ReqFail byte | ReqOk byte string u16 nat

definition parse_request :: "winsock \<Rightarrow> bytes \<Rightarrow> request_parse" where
  "parse_request ws ingest =
     (if length ingest < 4 then ReqMore
      else if ingest ! 0 \<noteq> kVersion \<or> ingest ! 2 \<noteq> kReserved then ReqFail ReplyCode_GeneralFailure
      else
        let command = ingest ! 1;
            atyp = ingest ! 3
        in if atyp = AddressType_IPv4 then
             if length ingest < 10 then ReqMore
             else ReqOk command (inet_ntop4 ws (take 4 (drop 4 ingest))) (be16 (ingest ! 8) (ingest ! 9)) 10
           else if atyp = AddressType_IPv6 then
             if length ingest < 22 then ReqMore
             else ReqOk command (inet_ntop6 ws (take 16 (drop 4 ingest))) (be16 (ingest ! 20) (ingest ! 21)) 22
           else if atyp = AddressType_DomainName then
             if length ingest < 5 then ReqMore
             else
               let dlen = unat (ingest ! 4)
               in if dlen = 0 then ReqFail ReplyCode_AddressTypeNotSupported
                  else if length ingest < 5 + dlen + 2 then ReqMore
                  else ReqOk command (string_of_bytes (take dlen (drop 5 ingest)))
                         (be16 (ingest ! (5 + dlen)) (ingest ! (5 + dlen + 1))) (5 + dlen + 2)
           else ReqFail ReplyCode_AddressTypeNotSupported)"

text \<open>The log line after the reply reads \<^verbatim>\<open>udpRelay_->AdvertisedEndPoint()\<close>.  When the reply could not be sent, the session has been closed and
  \<^verbatim>\<open>udpRelay_\<close> is null: \<open>ss_crashed\<close>.  What follows is then what the code would do if the access went through.\<close>

definition StartUdpAssociate :: "session_env \<Rightarrow> session \<Rightarrow> session" where
  "StartUdpAssociate e s =
     (case UdpRelay_Start (se_relay e) (new_UdpRelay (ss_clientEp s) (ss_clientLocalEp s) True (se_clock e (ss_calls s))) of
        (False, relay) \<Rightarrow> FailAndClose e ReplyCode_GeneralFailure (s\<lparr>ss_udpRelay := Some relay\<rparr>)
      | (True, relay) \<Rightarrow>
          let s1 = CancelIdleTimer (s\<lparr>ss_udpRelay := Some relay\<rparr>);
              s2 = SendSocksReply e ReplyCode_Succeeded (Some (ur_advertised relay)) s1;
              s3 = s2\<lparr>ss_crashed := (ss_crashed s2 \<or> ss_udpRelay s2 = None)\<rparr>
          in snd (BeginClientRead e (s3\<lparr>ss_state := UdpAssociate\<rparr>)))"

definition ProcessRequestBuffer :: "session_env \<Rightarrow> session \<Rightarrow> bool \<times> session" where
  "ProcessRequestBuffer e s =
     (let (ok, s1) = (if ss_gssProtectActive s then EnsureCleartextRequestIngest e s else (True, s))
      in if \<not> ok then (False, s1)
         else if ss_gssProtectActive s1 \<and> \<not> ss_gssRequestUnwrapped s1 then (True, s1)
         else
           (case parse_request (se_ws e) (ss_ingest s1) of
              ReqMore \<Rightarrow> (True, s1)
            | ReqFail code \<Rightarrow> (True, FailAndClose e code s1)
            | ReqOk command address port need \<Rightarrow>
                let s2 = s1\<lparr>ss_ingest := drop need (ss_ingest s1)\<rparr>
                in if command = Command_Connect then StartConnect e address port s2
                   else if command = Command_UdpAssociate then (True, StartUdpAssociate e s2)
                   else (True, FailAndClose e ReplyCode_CommandNotSupported s2)))"

definition process_buffer :: "session_env \<Rightarrow> session \<Rightarrow> bool \<times> session" where
  "process_buffer e s =
     (case ss_state s of
        Handshake \<Rightarrow> ProcessHandshakeBuffer e s
      | Auth \<Rightarrow> ProcessAuthBuffer e s
      | GssapiAuth \<Rightarrow> ProcessGssapiAuthBuffer e s
      | GssapiProtect \<Rightarrow> ProcessGssapiProtectBuffer e s
      | Request \<Rightarrow> ProcessRequestBuffer e s
      | _ \<Rightarrow> (True, s))"


section \<open>The protocol loop ends\<close>

text \<open>What sending and closing leave alone: the protocol state and the buffered input.\<close>

named_theorems proto_keeps "operations that keep the protocol state"

definition proto :: "session \<Rightarrow> SessionState \<times> bytes \<times> bool \<times> bool" where
  "proto s = (ss_state s, ss_ingest s, ss_gssProtectActive s, ss_gssRequestUnwrapped s)"

lemma proto_frame [simp, proto_keeps]:
  "proto (session_emit as s) = proto s" "proto (snd (session_call e s)) = proto s" "proto (mod_io t f s) = proto s"
  "proto (CancelIdleTimer s) = proto s" "proto (CancelConnectTimer s) = proto s" "proto (close_dest s) = proto s"
  "proto (s\<lparr>ss_gssapi := g\<rparr>) = proto s" "proto (s\<lparr>ss_closeAfterFlush := b\<rparr>) = proto s"
  "proto (s\<lparr>ss_udpRelay := r\<rparr>) = proto s" "proto (s\<lparr>ss_dest := b\<rparr>) = proto s" "proto (s\<lparr>ss_connectMeta := m\<rparr>) = proto s"
  by (simp_all add: proto_def session_emit_def session_call_def CancelIdleTimer_def CancelConnectTimer_def
      close_dest_def Let_def)

lemma proto_Close [simp, proto_keeps]: "proto (Close s) = proto s"
  by (simp add: proto_def Close_def CancelIdleTimer_def CancelConnectTimer_def session_emit_def Let_def)

lemma proto_send [simp, proto_keeps]:
  "proto (PumpSend e t s) = proto s" "proto (QueueClientSendRaw e d s) = proto s" "proto (QueueDestSend e d s) = proto s"
  "proto (SendGssFrame e m d s) = proto s" "proto (SendGssAbort e s) = proto s"
  by (simp_all add: PumpSend_def QueueClientSendRaw_def QueueDestSend_def SendGssFrame_def SendGssAbort_def Let_def split_def)

lemma proto_Wrap [simp, proto_keeps]: "proto (snd (WrapAndQueueClient e d s)) = proto s"
  by (simp add: WrapAndQueueClient_def Let_def split: option.split prod.split)

lemma proto_reply [simp, proto_keeps]:
  "proto (QueueClientSend e d s) = proto s" "proto (SendSocksReply e c b s) = proto s" "proto (RequestCloseAfterFlush s) = proto s"
  "proto (snd (BeginClientRead e s)) = proto s" "proto (ArmIdleTimer e s) = proto s" "proto (snd (ArmConnectTimer e s)) = proto s"
  by (simp_all add: QueueClientSend_def SendSocksReply_def RequestCloseAfterFlush_def BeginClientRead_def ArmIdleTimer_def
      ArmConnectTimer_def Let_def split_def)
    (simp_all add: proto_def session_emit_def CancelIdleTimer_def CancelConnectTimer_def session_call_def Let_def)

lemma proto_eqD:
  "proto s' = proto s \<Longrightarrow> ss_state s' = ss_state s \<and> ss_ingest s' = ss_ingest s \<and>
     ss_gssProtectActive s' = ss_gssProtectActive s \<and> ss_gssRequestUnwrapped s' = ss_gssRequestUnwrapped s"
  by (simp add: proto_def)

lemmas proto_state [simp] = proto_eqD [OF proto_frame(1)] proto_eqD [OF proto_frame(2)] proto_eqD [OF proto_frame(4)]
  proto_eqD [OF proto_frame(5)] proto_eqD [OF proto_frame(6)] proto_eqD [OF proto_Close]
  proto_eqD [OF proto_send(1)] proto_eqD [OF proto_send(2)] proto_eqD [OF proto_send(3)] proto_eqD [OF proto_send(4)]
  proto_eqD [OF proto_send(5)] proto_eqD [OF proto_Wrap] proto_eqD [OF proto_reply(1)] proto_eqD [OF proto_reply(2)]
  proto_eqD [OF proto_reply(3)] proto_eqD [OF proto_reply(4)] proto_eqD [OF proto_reply(5)] proto_eqD [OF proto_reply(6)]

lemma state_FailAndClose: "ss_state (FailAndClose e c s) = (if ss_closed s then ss_state s else Closing)"
  by (auto simp: FailAndClose_def Let_def)

lemma closed_mono_Fail [simp]: "ss_closed s \<Longrightarrow> FailAndClose e c s = s"
  by (simp add: FailAndClose_def)

fun state_rank :: "SessionState \<Rightarrow> nat" where
  "state_rank Handshake = 4"
| "state_rank GssapiAuth = 3"
| "state_rank GssapiProtect = 2"
| "state_rank Auth = 2"
| "state_rank Request = 1"
| "state_rank _ = 0"

definition loop_order :: "(session \<times> session) set" where
  "loop_order = measures [\<lambda>s. state_rank (ss_state s), \<lambda>s. if ss_gssRequestUnwrapped s then 0 else 1, \<lambda>s. length (ss_ingest s)]"

lemma loop_order_rank: "state_rank (ss_state s') < state_rank (ss_state s) \<Longrightarrow> (s', s) \<in> loop_order"
  by (simp add: loop_order_def)

lemma loop_order_shrink:
  "ss_state s' = ss_state s \<Longrightarrow> ss_gssRequestUnwrapped s' = ss_gssRequestUnwrapped s \<Longrightarrow>
   length (ss_ingest s') < length (ss_ingest s) \<Longrightarrow> (s', s) \<in> loop_order"
  by (simp add: loop_order_def)

definition advances :: "session \<Rightarrow> session \<Rightarrow> bool" where
  "advances s s' \<longleftrightarrow> ss_closed s' \<or> \<not> protocol_state (ss_state s') \<or> (s', s) \<in> loop_order \<or>
     (ss_state s' = ss_state s \<and> length (ss_ingest s') = length (ss_ingest s))"

lemma Handshake_advances:
  "ss_state s = Handshake \<Longrightarrow> ProcessHandshakeBuffer e s = (True, s') \<Longrightarrow> advances s s'"
  by (auto simp: ProcessHandshakeBuffer_def Let_def advances_def split: if_splits prod.splits intro!: loop_order_rank)

lemma Auth_advances: "ss_state s = Auth \<Longrightarrow> ProcessAuthBuffer e s = (True, s') \<Longrightarrow> advances s s'"
  by (auto simp: ProcessAuthBuffer_def Let_def advances_def split: if_splits intro!: loop_order_rank)

lemma TryRead_NeedMore: "TryReadGssFrame m i = (NeedMore, r) \<Longrightarrow> r = i"
  by (auto simp: TryReadGssFrame_def Let_def split: if_splits)

lemma GssapiAuth_advances:
  assumes "ss_state s = GssapiAuth" and "ProcessGssapiAuthBuffer e s = (True, s')"
  shows "advances s s'"
  using assms
  by (auto simp: ProcessGssapiAuthBuffer_def Let_def advances_def
      split: if_splits prod.splits gss_read.splits option.splits dest!: TryRead_NeedMore TryReadGssFrame_shrinks
      intro: loop_order_rank loop_order_shrink)

lemma GssapiProtect_advances:
  assumes "ss_state s = GssapiProtect" and "ProcessGssapiProtectBuffer e s = (True, s')"
  shows "advances s s'"
  using assms
  by (auto simp: ProcessGssapiProtectBuffer_def Let_def advances_def
      split: if_splits prod.splits gss_read.splits option.splits dest!: TryRead_NeedMore intro!: loop_order_rank)

lemma Ensure_spec:
  assumes "EnsureCleartextRequestIngest e s = (True, s1)"
  shows "s1 = s \<or> (ss_state s1 = ss_state s \<and> ss_closed s1 = ss_closed s \<and> ss_gssRequestUnwrapped s1 \<and> \<not> ss_gssRequestUnwrapped s)"
  using assms
  by (auto simp: EnsureCleartextRequestIngest_def split: if_splits prod.splits gss_read.splits option.splits dest!: TryRead_NeedMore)

lemma ConnectToHost_state: "ConnectToHost e a ip p s = (True, s') \<Longrightarrow> ss_state s' = Connecting"
  by (auto simp: ConnectToHost_def Let_def split_def split: option.splits if_splits)

lemma StartConnect_state: "StartConnect e a p s = (True, s') \<Longrightarrow> ss_state s' \<in> {Connecting, Resolving}"
  by (auto simp: StartConnect_def split: if_splits dest: ConnectToHost_state)

lemma StartUdp_state: "\<not> ss_closed s \<Longrightarrow> ss_state (StartUdpAssociate e s) \<in> {UdpAssociate, Closing}"
  by (auto simp: StartUdpAssociate_def Let_def state_FailAndClose split: prod.split bool.split)

lemma Request_advances:
  assumes "ss_state s = Request" and "\<not> ss_closed s" and "ProcessRequestBuffer e s = (True, s')"
  shows "advances s s'"
proof -
  obtain s1 where s1: "(if ss_gssProtectActive s then EnsureCleartextRequestIngest e s else (True, s)) = (True, s1)"
    using assms(3) by (auto simp: ProcessRequestBuffer_def Let_def split: prod.splits if_splits)
  then have e: "s1 = s \<or> (ss_state s1 = ss_state s \<and> ss_closed s1 = ss_closed s \<and> ss_gssRequestUnwrapped s1 \<and> \<not> ss_gssRequestUnwrapped s)"
    by (auto split: if_splits dest: Ensure_spec)
  then have a1: "advances s s1" "\<not> ss_closed s1" using assms(1,2) by (auto simp: advances_def loop_order_def)
  have end_state: "advances s s'" if "ss_state s' \<in> {Connecting, Resolving, UdpAssociate, Closing}"
    using that by (auto simp: advances_def protocol_state_def)
  show ?thesis
  proof (cases "ss_gssProtectActive s1 \<and> \<not> ss_gssRequestUnwrapped s1")
    case True
    with assms(3) s1 a1(1) show ?thesis by (auto simp: ProcessRequestBuffer_def)
  next
    case False
    with assms(3) s1 have body: "(case parse_request (se_ws e) (ss_ingest s1) of
              ReqMore \<Rightarrow> (True, s1)
            | ReqFail code \<Rightarrow> (True, FailAndClose e code s1)
            | ReqOk command address port need \<Rightarrow>
                let s2 = s1\<lparr>ss_ingest := drop need (ss_ingest s1)\<rparr>
                in if command = Command_Connect then StartConnect e address port s2
                   else if command = Command_UdpAssociate then (True, StartUdpAssociate e s2)
                   else (True, FailAndClose e ReplyCode_CommandNotSupported s2)) = (True, s')"
      unfolding ProcessRequestBuffer_def by simp
    show ?thesis
    proof (cases "parse_request (se_ws e) (ss_ingest s1)")
      case ReqMore
      with body a1 show ?thesis by simp
    next
      case (ReqFail code)
      with body a1(2) show ?thesis by (intro end_state) (auto simp: state_FailAndClose)
    next
      case (ReqOk command address port need)
      let ?s2 = "s1\<lparr>ss_ingest := drop need (ss_ingest s1)\<rparr>"
      have "StartConnect e address port ?s2 = (True, s') \<or> s' = StartUdpAssociate e ?s2 \<or>
          s' = FailAndClose e ReplyCode_CommandNotSupported ?s2"
        using body ReqOk by (auto simp: Let_def split: if_splits)
      then show ?thesis
        using StartConnect_state [of e address port ?s2 s'] StartUdp_state [of ?s2 e] a1(2)
        by (intro end_state) (auto simp: state_FailAndClose)
    qed
  qed
qed

lemma process_advances:
  assumes "protocol_state (ss_state s)" and "\<not> ss_closed s" and "process_buffer e s = (True, s')"
  shows "advances s s'"
  using assms Handshake_advances Auth_advances GssapiAuth_advances GssapiProtect_advances Request_advances
  by (auto simp: process_buffer_def protocol_state_def)

text \<open>The \<^verbatim>\<open>while\<close> loop of \<^verbatim>\<open>OnClientRecv\<close>: \<open>True\<close> when it falls through to the code below it,
  \<open>False\<close> where it returns.\<close>

function protocol_loop :: "session_env \<Rightarrow> session \<Rightarrow> bool \<times> session" where
  "protocol_loop e s =
     (if \<not> ss_closed s \<and> protocol_state (ss_state s) then
        (case process_buffer e s of
           (False, s1) \<Rightarrow> (False, RequestCloseAfterFlush s1)
         | (True, s1) \<Rightarrow>
             if \<not> protocol_state (ss_state s1) then (False, s1)
             else if ss_state s1 = ss_state s \<and> length (ss_ingest s1) = length (ss_ingest s) then (True, s1)
             else if ss_closed s1 then (True, s1)
             else protocol_loop e s1)
      else (True, s))"
  by pat_completeness auto
termination
proof (relation "inv_image loop_order snd", goal_cases)
  case 1
  show ?case by (simp add: loop_order_def)
next
  case (2 e s p s1)
  then have "process_buffer e s = (True, s1)" by auto
  from process_advances [OF _ _ this] 2 have "advances s s1" by auto
  with 2 show ?case by (auto simp: advances_def)
qed

declare protocol_loop.simps [simp del]

definition OnClientRecv :: "session_env \<Rightarrow> bytes \<Rightarrow> bool \<Rightarrow> session \<Rightarrow> session" where
  "OnClientRecv e data error s =
     (if error \<or> data = [] then
        if ss_state s = Relaying then
          let s1 = mod_io Client (\<lambda>io. io\<lparr>si_peerClosed := True\<rparr>) s;
              s2 = (if ss_dest s1 then session_emit [SShutdownSend Dest] s1 else s1)
          in if si_peerClosed (ss_destIo s2) then Close s2 else s2
        else Close s
      else
        let s1 = (if protocol_state (ss_state s) then ArmIdleTimer e s else s)
        in if ss_state s1 = UdpAssociate then snd (BeginClientRead e s1)
           else if ss_state s1 = Relaying then OnRelayData e Client data s1
           else if length data > kMaxProtocolBuffered \<or> length (ss_ingest s1) > kMaxProtocolBuffered - length data then Close s1
           else
             let (falls, s2) = protocol_loop e (s1\<lparr>ss_ingest := ss_ingest s1 @ data\<rparr>)
             in if falls \<and> protocol_state (ss_state s2) then snd (BeginClientRead e s2) else s2)"

definition OnTimer :: "session_env \<Rightarrow> u64 \<Rightarrow> session \<Rightarrow> session" where
  "OnTimer e kind s =
     (if ss_closed s then s
      else
        let timerKind = kind AND 0xFF;
            generation = drop_bit 8 kind
        in if timerKind = kTimerConnect then
             if generation \<noteq> ss_connectTimerGeneration s then s
             else
               let s1 = s\<lparr>ss_connectTimerId := 0\<rparr>
               in if ss_state s1 \<noteq> Connecting then s1
                  else FailAndClose e ReplyCode_TtlExpired (close_dest s1)
           else if timerKind = kTimerIdle then
             if generation \<noteq> ss_idleTimerGeneration s then s
             else
               let s1 = s\<lparr>ss_idleTimerId := 0\<rparr>
               in if ss_state s1 \<in> {Relaying, UdpAssociate, Resolving, Connecting, Closing} then s1 else Close s1
           else s)"

datatype session_event =
    SvStart
  | SvClose
  | SvDnsAnswer "string option"
  | SvDnsPosted
  | SvUdpStopped
  | SvTimer u64
  | SvConnect nat
  | SvClientRecv bytes bool
  | SvClientSend nat bool
  | SvDestRecv bytes bool
  | SvDestSend nat bool

fun OnIoCompleted :: "session_env \<Rightarrow> session_event \<Rightarrow> session \<Rightarrow> session" where
  "OnIoCompleted e SvStart s = (case Session_Start e s of (True, s1) \<Rightarrow> s1 | (False, s1) \<Rightarrow> Close s1)"
| "OnIoCompleted e SvClose s = Close s"
| "OnIoCompleted e (SvDnsAnswer ip) s = OnDnsAnswer e ip s"
| "OnIoCompleted e SvDnsPosted s = (if ss_closed s then s else OnDnsResolved e s)"
| "OnIoCompleted e SvUdpStopped s = (if ss_closed s then s else OnUdpRelayStopped s)"
| "OnIoCompleted e (SvTimer key) s = (if ss_closed s then s else OnTimer e key s)"
| "OnIoCompleted e (SvConnect err) s = (if ss_closed s then s else OnDestConnect e err s)"
| "OnIoCompleted e (SvClientRecv data err) s =
     (let s1 = mod_io Client (\<lambda>io. io\<lparr>si_reading := False\<rparr>) s
      in if ss_closed s then s1 else OnClientRecv e data err s1)"
| "OnIoCompleted e (SvClientSend n err) s =
     (if ss_closed s then mod_io Client (\<lambda>io. io\<lparr>si_sending := False\<rparr>) s else OnClientSend e n err s)"
| "OnIoCompleted e (SvDestRecv data err) s =
     (let s1 = mod_io Dest (\<lambda>io. io\<lparr>si_reading := False\<rparr>) s
      in if ss_closed s then s1 else OnDestRecv e data err s1)"
| "OnIoCompleted e (SvDestSend n err) s =
     (if ss_closed s then mod_io Dest (\<lambda>io. io\<lparr>si_sending := False\<rparr>) s else OnDestSend e n err s)"

definition session_run :: "session_env \<Rightarrow> session_event list \<Rightarrow> session \<Rightarrow> session" where
  "session_run e evs s = fold (OnIoCompleted e) evs s"

end
