(* ===== verification/SessionClose.thy ===== *)
theory SessionClose
  imports Socks5Session
begin

text \<open>
  The close protocol of the session: the invariant \<open>close_ok\<close>, that every member function keeps it, and
  what follows for the notice \<^verbatim>\<open>ProxyServer::OnSessionClosed\<close>, which releases the connection slot: it is given once,
  and nothing happens after it.
\<close>


section \<open>The close protocol\<close>

named_theorems close_laws "operations that keep the close protocol"

definition close_notices :: "session_act list \<Rightarrow> nat" where
  "close_notices as = length [a \<leftarrow> as. \<exists>b. a = SSessionClosed b]"

lemma close_notices_simps [simp]:
  "close_notices [] = 0"
  "close_notices (a # as) = (case a of SSessionClosed b \<Rightarrow> 1 | _ \<Rightarrow> 0) + close_notices as"
  "close_notices (as @ bs) = close_notices as + close_notices bs"
  by (auto simp: close_notices_def split: session_act.split)

definition close_ok :: "bool \<Rightarrow> session \<Rightarrow> bool" where
  "close_ok h s \<longleftrightarrow> ss_slotHeld s = h \<and>
     (if ss_closed s then
        close_notices (ss_out s) = 1 \<and> ss_out s \<noteq> [] \<and> last (ss_out s) = SSessionClosed h \<and>
        \<not> ss_client s \<and> \<not> ss_dest s \<and> ss_idleTimerId s = 0 \<and> ss_connectTimerId s = 0 \<and> ss_udpRelay s = None
      else close_notices (ss_out s) = 0)"

lemma close_ok_fields [simp]:
  "close_ok h (s\<lparr>ss_state := st\<rparr>) = close_ok h s" "close_ok h (s\<lparr>ss_closeAfterFlush := b\<rparr>) = close_ok h s"
  "close_ok h (s\<lparr>ss_connectMeta := m\<rparr>) = close_ok h s" "close_ok h (s\<lparr>ss_ingest := i\<rparr>) = close_ok h s"
  "close_ok h (s\<lparr>ss_gssapi := g\<rparr>) = close_ok h s" "close_ok h (s\<lparr>ss_gssProtectActive := b\<rparr>) = close_ok h s"
  "close_ok h (s\<lparr>ss_gssRequestUnwrapped := b\<rparr>) = close_ok h s" "close_ok h (s\<lparr>ss_calls := n\<rparr>) = close_ok h s"
  "close_ok h (s\<lparr>ss_crashed := b\<rparr>) = close_ok h s"
  "close_ok h (s\<lparr>ss_pendingHost := hst\<rparr>) = close_ok h s" "close_ok h (s\<lparr>ss_pendingPort := p\<rparr>) = close_ok h s"
  "close_ok h (s\<lparr>ss_dnsResult := r\<rparr>) = close_ok h s" "close_ok h (mod_io t f s) = close_ok h s"
  "close_ok h (s\<lparr>ss_idleTimerGeneration := n64\<rparr>) = close_ok h s" "close_ok h (s\<lparr>ss_connectTimerGeneration := n64\<rparr>) = close_ok h s"
  "close_ok h (snd (session_call e s)) = close_ok h s"
  by (simp_all add: close_ok_def session_call_def)

lemma session_emit_fields [simp]:
  "ss_closed (session_emit as s) = ss_closed s" "ss_client (session_emit as s) = ss_client s"
  "ss_dest (session_emit as s) = ss_dest s" "ss_slotHeld (session_emit as s) = ss_slotHeld s"
  "ss_out (session_emit as s) = ss_out s @ as" "ss_udpRelay (session_emit as s) = ss_udpRelay s"
  "ss_idleTimerId (session_emit as s) = ss_idleTimerId s" "ss_connectTimerId (session_emit as s) = ss_connectTimerId s"
  "ss_clientIo (session_emit as s) = ss_clientIo s" "ss_destIo (session_emit as s) = ss_destIo s"
  "get_io t (session_emit as s) = get_io t s" "sock t (session_emit as s) = sock t s"
  "ss_idleTimerGeneration (session_emit as s) = ss_idleTimerGeneration s"
  "ss_connectTimerGeneration (session_emit as s) = ss_connectTimerGeneration s"
  "ss_calls (session_emit as s) = ss_calls s" "ss_connectMeta (session_emit as s) = ss_connectMeta s"
  "ss_closeAfterFlush (session_emit as s) = ss_closeAfterFlush s" "ss_gssapi (session_emit as s) = ss_gssapi s"
  "ss_dnsResult (session_emit as s) = ss_dnsResult s"
  by (simp_all add: session_emit_def, (cases t; simp)+)

lemma session_call_fields [simp]:
  "ss_closed (snd (session_call e s)) = ss_closed s" "ss_client (snd (session_call e s)) = ss_client s"
  "ss_dest (snd (session_call e s)) = ss_dest s" "ss_slotHeld (snd (session_call e s)) = ss_slotHeld s"
  "ss_out (snd (session_call e s)) = ss_out s" "ss_udpRelay (snd (session_call e s)) = ss_udpRelay s"
  "ss_clientIo (snd (session_call e s)) = ss_clientIo s" "ss_destIo (snd (session_call e s)) = ss_destIo s"
  "get_io t (snd (session_call e s)) = get_io t s" "sock t (snd (session_call e s)) = sock t s"
  "ss_connectMeta (snd (session_call e s)) = ss_connectMeta s" "ss_gssapi (snd (session_call e s)) = ss_gssapi s"
  "ss_closeAfterFlush (snd (session_call e s)) = ss_closeAfterFlush s"
  by (simp_all add: session_call_def, (cases t; simp)+)

lemma close_ok_emit: "close_ok h s \<Longrightarrow> \<not> ss_closed s \<Longrightarrow> close_notices as = 0 \<Longrightarrow> close_ok h (session_emit as s)"
  by (simp add: close_ok_def)

lemma close_ok_timers [close_laws]:
  "close_ok h s \<Longrightarrow> close_ok h (CancelIdleTimer s)" "close_ok h s \<Longrightarrow> close_ok h (CancelConnectTimer s)"
  by (auto simp: CancelIdleTimer_def CancelConnectTimer_def Let_def close_ok_def session_emit_def)

lemma timers_fields [simp]:
  "ss_closed (CancelIdleTimer s) = ss_closed s" "ss_closed (CancelConnectTimer s) = ss_closed s"
  "ss_dest (CancelIdleTimer s) = ss_dest s" "ss_dest (CancelConnectTimer s) = ss_dest s"
  "ss_client (CancelIdleTimer s) = ss_client s" "ss_client (CancelConnectTimer s) = ss_client s"
  "ss_slotHeld (CancelIdleTimer s) = ss_slotHeld s" "ss_slotHeld (CancelConnectTimer s) = ss_slotHeld s"
  "ss_idleTimerId (CancelIdleTimer s) = 0" "ss_connectTimerId (CancelConnectTimer s) = 0"
  "ss_connectTimerId (CancelIdleTimer s) = ss_connectTimerId s" "ss_idleTimerId (CancelConnectTimer s) = ss_idleTimerId s"
  "ss_clientIo (CancelIdleTimer s) = ss_clientIo s" "ss_clientIo (CancelConnectTimer s) = ss_clientIo s"
  "ss_destIo (CancelIdleTimer s) = ss_destIo s" "ss_destIo (CancelConnectTimer s) = ss_destIo s"
  "ss_udpRelay (CancelIdleTimer s) = ss_udpRelay s" "ss_udpRelay (CancelConnectTimer s) = ss_udpRelay s"
  "ss_connectMeta (CancelIdleTimer s) = ss_connectMeta s" "ss_connectMeta (CancelConnectTimer s) = ss_connectMeta s"
  "ss_gssapi (CancelIdleTimer s) = ss_gssapi s" "ss_gssapi (CancelConnectTimer s) = ss_gssapi s"
  "close_notices (ss_out (CancelIdleTimer s)) = close_notices (ss_out s)"
  "close_notices (ss_out (CancelConnectTimer s)) = close_notices (ss_out s)"
  by (simp_all add: CancelIdleTimer_def CancelConnectTimer_def Let_def session_emit_def)

lemma close_ok_Close [close_laws]: "close_ok h s \<Longrightarrow> close_ok h (Close s)"
  by (auto simp: Close_def Let_def close_ok_def)

lemma Close_closed [simp]: "ss_closed (Close s)"
  by (simp add: Close_def Let_def session_emit_def)

lemma Close_twice [simp]: "ss_closed s \<Longrightarrow> Close s = s"
  by (simp add: Close_def)

lemma close_ok_close_dest [close_laws]: "close_ok h s \<Longrightarrow> close_ok h (close_dest s)"
  by (auto simp: close_dest_def close_ok_def)

lemma close_ok_ArmIdle: "close_ok h s \<Longrightarrow> \<not> ss_closed s \<Longrightarrow> close_ok h (ArmIdleTimer e s) \<and> \<not> ss_closed (ArmIdleTimer e s)"
  by (auto simp: ArmIdleTimer_def Let_def close_ok_def)

lemma close_ok_ArmConnect:
  "close_ok h s \<Longrightarrow> \<not> ss_closed s \<Longrightarrow> close_ok h (snd (ArmConnectTimer e s)) \<and> \<not> ss_closed (snd (ArmConnectTimer e s))"
  by (auto simp: ArmConnectTimer_def Let_def close_ok_def)

lemma close_ok_sock: "close_ok h s \<Longrightarrow> sock t s \<Longrightarrow> \<not> ss_closed s"
  by (cases t) (auto simp: close_ok_def)

lemma close_ok_PumpSend [close_laws]: "close_ok h s \<Longrightarrow> close_ok h (PumpSend e t s)"
  using close_ok_sock [of h s t]
  by (auto simp: PumpSend_def Let_def split_def intro!: close_ok_emit close_ok_Close)

lemma close_ok_queue [close_laws]:
  "close_ok h s \<Longrightarrow> close_ok h (QueueClientSendRaw e d s)" "close_ok h s \<Longrightarrow> close_ok h (QueueDestSend e d s)"
  "close_ok h s \<Longrightarrow> close_ok h (SendGssFrame e m d s)" "close_ok h s \<Longrightarrow> close_ok h (SendGssAbort e s)"
  by (simp_all add: QueueClientSendRaw_def QueueDestSend_def SendGssFrame_def SendGssAbort_def close_ok_PumpSend)

lemma close_ok_Wrap [close_laws]: "close_ok h s \<Longrightarrow> close_ok h (snd (WrapAndQueueClient e d s))"
  by (auto simp: WrapAndQueueClient_def Let_def close_laws split: option.split prod.split)

lemma close_ok_reply [close_laws]:
  "close_ok h s \<Longrightarrow> close_ok h (QueueClientSend e d s)" "close_ok h s \<Longrightarrow> close_ok h (SendSocksReply e c b s)"
  "close_ok h s \<Longrightarrow> close_ok h (RequestCloseAfterFlush s)" "close_ok h s \<Longrightarrow> close_ok h (snd (BeginClientRead e s))"
  "close_ok h s \<Longrightarrow> close_ok h (OnUdpRelayStopped s)"
  by (auto simp: QueueClientSend_def SendSocksReply_def RequestCloseAfterFlush_def BeginClientRead_def OnUdpRelayStopped_def
      Let_def split_def close_laws intro: close_ok_emit)

lemma close_ok_Fail [close_laws]: "close_ok h s \<Longrightarrow> close_ok h (FailAndClose e c s)"
  by (auto simp: FailAndClose_def Let_def close_laws)

lemma close_ok_TryPost [close_laws]: "close_ok h s \<Longrightarrow> close_ok h (snd (TryPostRelayRead e t s))"
  by (auto simp: TryPostRelayRead_def Let_def split_def close_laws intro: close_ok_emit)

lemma close_ok_Resume [close_laws]: "close_ok h s \<Longrightarrow> close_ok h (MaybeResumeRelayRead e t s)"
  by (simp add: MaybeResumeRelayRead_def close_laws)

lemma close_ok_GssRelay [close_laws]: "close_ok h s \<Longrightarrow> close_ok h (snd (ProcessGssRelayInput e s))"
proof (induction e s rule: ProcessGssRelayInput.induct)
  case (1 e s)
  show ?case
    by (subst ProcessGssRelayInput.simps)
      (auto simp: Let_def close_laws 1 split: prod.split gss_read.split option.split intro!: 1)
qed

lemma close_ok_wrap_all [close_laws]: "close_ok h s \<Longrightarrow> close_ok h (snd (wrap_all e parts s))"
proof (induction parts arbitrary: s)
  case (Cons p parts)
  then show ?case using close_ok_Wrap [OF Cons.prems, of e p] by (auto split: prod.split bool.split)
qed simp

lemma close_ok_RelayData [close_laws]: "close_ok h s \<Longrightarrow> close_ok h (OnRelayData e from chunk s)"
  by (auto simp: OnRelayData_def Let_def split_def close_laws split: StreamTag.split)

lemma close_ok_StartRelay [close_laws]:
  assumes "close_ok h s"
  shows "close_ok h (StartRelay e s)"
proof -
  define s1 where "s1 = CancelIdleTimer (s\<lparr>ss_state := Relaying\<rparr>)"
  define r where "r = (if ss_ingest s1 = [] then (True, s1)
             else if ss_gssProtectActive s1 then ProcessGssRelayInput e s1
             else (True, QueueDestSend e (ss_ingest s1) (s1\<lparr>ss_ingest := []\<rparr>)))"
  define s3 where "s3 = (if \<not> si_reading (ss_clientIo (snd r)) then snd (BeginClientRead e (snd r)) else snd r)"
  have ok: "close_ok h (snd r)" "close_ok h s3"
    using assms by (auto simp: r_def s1_def s3_def close_laws)
  have "ss_dest s3 \<Longrightarrow> \<not> ss_closed s3" using close_ok_sock [OF ok(2), of Dest] by simp
  with ok show ?thesis
    unfolding StartRelay_def Let_def s1_def [symmetric] r_def [symmetric]
    by (auto simp: split_def s3_def [symmetric] close_laws intro!: close_ok_emit)
qed

lemma close_ok_handlers [close_laws]:
  "close_ok h s \<Longrightarrow> close_ok h (OnClientSend e n err s)" "close_ok h s \<Longrightarrow> close_ok h (OnDestSend e n err s)"
  "close_ok h s \<Longrightarrow> \<not> ss_closed s \<Longrightarrow> close_ok h (OnDestRecv e d err s)"
  "close_ok h s \<Longrightarrow> close_ok h (OnDestConnect e err2 s)"
  by (auto simp: OnClientSend_def OnDestSend_def OnDestRecv_def OnDestConnect_def Let_def close_laws
      intro!: close_ok_emit close_ok_Close)

lemma close_ok_Connect [close_laws]:
  assumes "close_ok h s" and "\<not> ss_closed s"
  shows "close_ok h (snd (ConnectToHost e a ip p s))"
proof -
  have dest: "close_ok h (t\<lparr>ss_dest := b\<rparr>)" if "close_ok h t" "\<not> ss_closed t" for t b
    using that by (auto simp: close_ok_def)
  show ?thesis
    unfolding ConnectToHost_def Let_def split_def
    by (auto simp: assms dest close_laws intro!: close_ok_Fail close_ok_close_dest close_ok_emit close_ok_timers
        close_ok_ArmConnect [THEN conjunct1] dest split: option.split)
qed

lemma close_ok_StartConnect [close_laws]:
  "close_ok h s \<Longrightarrow> \<not> ss_closed s \<Longrightarrow> close_ok h (snd (StartConnect e a p s))"
  by (auto simp: StartConnect_def close_laws intro!: close_ok_emit)

lemma close_ok_Dns [close_laws]:
  "close_ok h s \<Longrightarrow> close_ok h (OnDnsAnswer e ip s)" "close_ok h s \<Longrightarrow> close_ok h (OnDnsResolved e s)"
  by (auto simp: OnDnsAnswer_def OnDnsResolved_def Let_def split_def close_laws split: option.split intro!: close_ok_emit)

lemma close_ok_Ensure [close_laws]: "close_ok h s \<Longrightarrow> close_ok h (snd (EnsureCleartextRequestIngest e s))"
  by (auto simp: EnsureCleartextRequestIngest_def split: prod.split gss_read.split option.split)

lemma closed_Ensure [simp]: "ss_closed (snd (EnsureCleartextRequestIngest e s)) = ss_closed s"
  by (auto simp: EnsureCleartextRequestIngest_def split: prod.split gss_read.split option.split)

lemma close_ok_Udp [close_laws]: "close_ok h s \<Longrightarrow> \<not> ss_closed s \<Longrightarrow> close_ok h (StartUdpAssociate e s)"
proof -
  assume "close_ok h s" and "\<not> ss_closed s"
  then have "close_ok h (s\<lparr>ss_udpRelay := r\<rparr>)" for r by (simp add: close_ok_def)
  then show ?thesis by (auto simp: StartUdpAssociate_def Let_def close_laws split: prod.split bool.split)
qed

lemma close_ok_Request:
  assumes "close_ok h s" and "\<not> ss_closed s"
  shows "close_ok h (snd (ProcessRequestBuffer e s))"
  using assms
  by (auto simp: ProcessRequestBuffer_def Let_def split_def close_laws split: request_parse.split)

lemma close_ok_messages:
  "close_ok h s \<Longrightarrow> close_ok h (snd (ProcessHandshakeBuffer e s))"
  "close_ok h s \<Longrightarrow> close_ok h (snd (ProcessAuthBuffer e s))"
  "close_ok h s \<Longrightarrow> close_ok h (snd (ProcessGssapiAuthBuffer e s))"
  "close_ok h s \<Longrightarrow> close_ok h (snd (ProcessGssapiProtectBuffer e s))"
  by (simp add: ProcessHandshakeBuffer_def Let_def close_laws split: prod.split)
    (simp add: ProcessAuthBuffer_def Let_def close_laws,
     simp add: ProcessGssapiAuthBuffer_def Let_def close_laws split: prod.split gss_read.split option.split,
     simp add: ProcessGssapiProtectBuffer_def Let_def close_laws split: prod.split gss_read.split option.split)

lemma close_ok_process [close_laws]:
  assumes "close_ok h s" and "\<not> ss_closed s"
  shows "close_ok h (snd (process_buffer e s))"
  using assms close_ok_Request [OF assms]
  by (simp add: process_buffer_def close_ok_messages split: SessionState.split)

lemma close_ok_loop [close_laws]: "close_ok h s \<Longrightarrow> close_ok h (snd (protocol_loop e s))"
proof (induction e s rule: protocol_loop.induct)
  case (1 e s)
  show ?case
  proof (cases "\<not> ss_closed s \<and> protocol_state (ss_state s)")
    case True
    then have ok: "close_ok h (snd (process_buffer e s))" using 1(2) close_ok_process by blast
    obtain b s1 where p: "process_buffer e s = (b, s1)" by fastforce
    with ok have ok1: "close_ok h s1" by simp
    show ?thesis using True 1(1) [OF _ p [symmetric]] ok1
      by (subst protocol_loop.simps) (auto simp: p close_laws split: bool.split)
  next
    case False
    with 1(2) show ?thesis by (subst protocol_loop.simps) auto
  qed
qed

lemma close_ok_ClientRecv [close_laws]: "close_ok h s \<Longrightarrow> \<not> ss_closed s \<Longrightarrow> close_ok h (OnClientRecv e d err s)"
  by (auto simp: OnClientRecv_def Let_def split_def close_laws close_ok_ArmIdle intro!: close_ok_emit close_ok_Close)

lemma close_ok_Timer [close_laws]: "close_ok h s \<Longrightarrow> close_ok h (OnTimer e k s)"
proof -
  assume "close_ok h s"
  then have "close_ok h (s\<lparr>ss_idleTimerId := 0\<rparr>)" "close_ok h (s\<lparr>ss_connectTimerId := 0\<rparr>)" by (auto simp: close_ok_def)
  then show ?thesis using \<open>close_ok h s\<close> by (auto simp: OnTimer_def Let_def close_laws)
qed

lemma close_ok_Start [close_laws]: "close_ok h s \<Longrightarrow> \<not> ss_closed s \<Longrightarrow> close_ok h (snd (Session_Start e s))"
  by (auto simp: Session_Start_def Let_def split_def close_laws close_ok_ArmIdle)

lemma close_ok_step: "close_ok h s \<Longrightarrow> ev \<noteq> SvStart \<Longrightarrow> close_ok h (OnIoCompleted e ev s)"
  by (cases ev) (auto simp: Let_def close_laws)

lemma close_ok_run: "close_ok h s \<Longrightarrow> SvStart \<notin> set evs \<Longrightarrow> close_ok h (session_run e evs s)"
proof (induction evs arbitrary: s)
  case (Cons ev evs)
  then have "close_ok h (OnIoCompleted e ev s)" by (intro close_ok_step) auto
  with Cons show ?case by (simp add: session_run_def del: OnIoCompleted.simps)
qed (simp add: session_run_def)

lemma close_ok_new: "close_ok h (new_Socks5Session e c l h)"
  by (simp add: close_ok_def new_Socks5Session_def)

lemma close_ok_first: "close_ok h (OnIoCompleted e SvStart (new_Socks5Session e c l h))"
  using close_ok_Start [OF close_ok_new, of e c l h e]
  by (auto simp: close_laws new_Socks5Session_def split: prod.split bool.split)

lemma closed_run_id:
  "ss_closed s \<Longrightarrow> SvStart \<notin> set evs \<Longrightarrow> ss_out (session_run e evs s) = ss_out s \<and> ss_closed (session_run e evs s)"
proof (induction evs arbitrary: s)
  case (Cons ev evs)
  have "ss_out (OnIoCompleted e ev s) = ss_out s \<and> ss_closed (OnIoCompleted e ev s)"
    using Cons.prems by (cases ev) (auto simp: Let_def OnDnsAnswer_def)
  with Cons show ?case by (simp add: session_run_def)
qed (simp add: session_run_def)

text \<open>A concrete environment for the examples: every call succeeds, and a security package that leaves the
  bytes as they are.\<close>

definition sample_sspi :: sspi where
  "sample_sspi = \<lparr>sspi_acquire = (\<lambda>n. True), sspi_package = (\<lambda>n. Some 12000),
     sspi_accept = (\<lambda>n ctx t. \<lparr>aa_status = SEC_E_OK, aa_valid = True, aa_attrs = 0x20010, aa_token = []\<rparr>),
     sspi_complete = (\<lambda>n. True), sspi_name = (\<lambda>n. None), sspi_sizes = (\<lambda>n. Some (16, 8)),
     sspi_encrypt = (\<lambda>n c d. Some ([], d, [])), sspi_decrypt = (\<lambda>n d. Some d)\<rparr>"

definition sample_session_env :: session_env where
  "sample_session_env = \<lparr>se_ws = sample_ws, se_cfg = default_netcfg, se_sspi = sample_sspi,
     se_relay = \<lparr>ue_ws = sample_ws, ue_cfg = default_netcfg, ue_ok = (\<lambda>n. True),
       ue_sockname = AddrIn 5000 [10, 0, 0, 1], ue_ord = (\<lambda>ks. ks)\<rparr>,
     se_ok = (\<lambda>n. True), se_timer = Suc, se_clock = (\<lambda>n. 0), se_local = (\<lambda>n. AddrIn 50000 [10, 0, 0, 1])\<rparr>"

definition sample_session :: session where
  "sample_session = new_Socks5Session sample_session_env (AddrIn 40000 [10, 0, 0, 2]) (AddrIn 1080 [10, 0, 0, 1]) True"

text \<open>C1.  Whatever completions a session gets, it tells the server that it closed at most once, with the
  slot flag it was created with; the notice is the last thing it ever does, and by then both sockets are
  closed, no timer is armed and the UDP relay is gone.\<close>

theorem session_close_is_final:
  assumes "SvStart \<notin> set evs"
  shows "let s = session_run e (SvStart # evs) (new_Socks5Session e clientEp localEp held) in
           (if ss_closed s then
              \<exists>as. ss_out s = as @ [SSessionClosed held] \<and> close_notices as = 0 \<and> \<not> ss_client s \<and> \<not> ss_dest s \<and>
                   ss_idleTimerId s = 0 \<and> ss_connectTimerId s = 0 \<and> ss_udpRelay s = None
            else close_notices (ss_out s) = 0)"
proof -
  have "close_ok held (session_run e (SvStart # evs) (new_Socks5Session e clientEp localEp held))"
    using close_ok_run [OF close_ok_first assms] by (simp add: session_run_def)
  then have "close_ok held s \<Longrightarrow> ss_closed s \<Longrightarrow> \<exists>as. ss_out s = as @ [SSessionClosed held] \<and> close_notices as = 0" for s
    by (cases "ss_out s" rule: rev_cases) (auto simp: close_ok_def)
  with \<open>close_ok held _\<close> show ?thesis by (auto simp: Let_def close_ok_def split del: if_split split: if_splits)
qed

theorem session_close_is_final_witness:
  "\<exists>as. ss_out (session_run sample_session_env [SvStart, SvClientRecv [] False] sample_session) = as @ [SSessionClosed True] \<and>
     close_notices as = 0"
proof -
  have "ss_closed (session_run sample_session_env [SvStart, SvClientRecv [] False] sample_session)" by code_simp
  then show ?thesis
    using session_close_is_final [of "[SvClientRecv [] False]" sample_session_env "AddrIn 40000 [10, 0, 0, 2]"
        "AddrIn 1080 [10, 0, 0, 1]" True, folded sample_session_def]
    by (auto simp: Let_def simp del: OnIoCompleted.simps)
qed

end
