(* ===== verification/SessionAuth.thy ===== *)
theory SessionAuth
  imports SessionClose "HOL-Library.Sublist"
begin

text \<open>
  Authentication and the order of the session's states: the credential comparison decides equality,
  the states only move along the edges of \<open>session_next\<close>, and a proxy with credentials lets no client
  past the authentication whose byte stream does not contain the right user name and password, unless a GSS-API
  security context was established with it.
\<close>


section \<open>Comparison of credentials\<close>

lemma byte_at_inject:
  assumes "i < length l" "i < length r"
  shows "byte_at l i = byte_at r i \<longleftrightarrow> l ! i = r ! i"
proof -
  have small: "take_bit 32 (of_char c) = (of_char c :: nat)" for c :: char
    by (rule take_bit_nat_eq_self [OF order_less_trans [OF of_char_less_256]]) simp
  have "(word_of_nat (of_char c) :: u32) = word_of_nat (of_char d) \<longleftrightarrow> c = d" for c d :: char
    by (simp add: word_of_nat_eq_iff small)
  with assms show ?thesis by (simp add: byte_at_def)
qed

lemma or_zero_iff: "(a :: u32) OR b = 0 \<longleftrightarrow> a = 0 \<and> b = 0"
  by (auto simp: bit_eq_iff bit_or_iff)

lemma foldl_or_zero: "foldl (\<lambda>d i. d OR f i) (a :: u32) is = 0 \<longleftrightarrow> a = 0 \<and> (\<forall>i\<in>set is. f i = 0)"
  by (induction "is" arbitrary: a) (auto simp: or_zero_iff)

lemma xor_zero_iff: "(a :: u32) XOR b = 0 \<longleftrightarrow> a = b"
  by (auto simp: bit_eq_iff bit_xor_iff)

lemma ConstantTimeEqual_iff:
  assumes "length lhs < 2 ^ 32" and "length rhs < 2 ^ 32"
  shows "ConstantTimeEqual lhs rhs \<longleftrightarrow> lhs = rhs"
proof
  assume "ConstantTimeEqual lhs rhs"
  then have len: "(word_of_nat (length lhs) :: u32) = word_of_nat (length rhs)"
    and bytes: "\<forall>i < max (length lhs) (length rhs). byte_at lhs i = byte_at rhs i"
    by (auto simp: ConstantTimeEqual_def foldl_or_zero xor_zero_iff)
  from len assms have "length lhs = length rhs"
    by (simp add: word_of_nat_eq_iff take_bit_nat_eq_self)
  with bytes show "lhs = rhs" by (auto intro!: nth_equalityI simp: byte_at_inject)
next
  assume "lhs = rhs"
  then show "ConstantTimeEqual lhs rhs"
    unfolding ConstantTimeEqual_def Let_def foldl_or_zero by simp
qed

text \<open>The comparison that runs in time independent of the contents accepts exactly equal strings, for
  every pair of strings shorter than \<open>2\<^sup>3\<^sup>2\<close> characters, the range of its accumulator.\<close>

theorem ConstantTimeEqual_decides:
  assumes "length lhs < 2 ^ 32" and "length rhs < 2 ^ 32"
  shows "ConstantTimeEqual lhs rhs \<longleftrightarrow> lhs = rhs"
  using assms by (rule ConstantTimeEqual_iff)

theorem ConstantTimeEqual_decides_witness:
  "length ''secret'' < 2 ^ 32 \<and> length ''secre'' < 2 ^ 32 \<and> \<not> ConstantTimeEqual ''secret'' ''secre''"
  using ConstantTimeEqual_decides [of "''secret''" "''secre''"] by simp




section \<open>The order of the states\<close>

inductive session_next :: "SessionState \<Rightarrow> SessionState \<Rightarrow> bool" where
  to_gss: "session_next Handshake GssapiAuth"
| to_auth: "session_next Handshake Auth"
| no_auth: "session_next Handshake Request"
| auth_done: "session_next Auth Request"
| gss_done: "session_next GssapiAuth GssapiProtect"
| protect_done: "session_next GssapiProtect Request"
| resolve: "session_next Request Resolving"
| connect: "session_next Request Connecting"
| associate: "session_next Request UdpAssociate"
| resolved: "session_next Resolving Connecting"
| connected: "session_next Connecting Relaying"
| failed: "st \<in> {Request, Resolving, Connecting} \<Longrightarrow> session_next st Closing"

inductive_simps session_next_simps: "session_next st st'"

abbreviation "session_path \<equiv> session_next\<^sup>*\<^sup>*"

lemma path_Fail:
  "session_path st (ss_state s) \<Longrightarrow> ss_state s \<in> {Request, Resolving, Connecting, Closing} \<Longrightarrow> session_path st (ss_state (FailAndClose e c s))"
  by (auto simp: state_FailAndClose intro: rtranclp.rtrancl_into_rtrancl failed)

lemma gss_FailAndClose [simp]:
  "ss_gssProtectActive (FailAndClose e c s) = ss_gssProtectActive s"
  by (simp add: FailAndClose_def Let_def)

lemma ingest_FailAndClose [simp]: "ss_ingest (FailAndClose e c s) = ss_ingest s"
  by (simp add: FailAndClose_def Let_def)

lemma ConnectToHost_states:
  "ss_state s \<in> {Request, Resolving} \<Longrightarrow> ss_state (snd (ConnectToHost e a ip p s)) \<in> {ss_state s, Connecting, Closing}"
  "ss_gssProtectActive (snd (ConnectToHost e a ip p s)) = ss_gssProtectActive s"
  by (auto simp: ConnectToHost_def Let_def split_def state_FailAndClose split: option.split)

lemma StartConnect_states:
  "ss_state s = Request \<Longrightarrow> ss_state (snd (StartConnect e a p s)) \<in> {Request, Resolving, Connecting, Closing}"
  "ss_gssProtectActive (snd (StartConnect e a p s)) = ss_gssProtectActive s"
  using ConnectToHost_states(1) [of s e a a p] ConnectToHost_states(2) [of e a a p s] by (auto simp: StartConnect_def)

lemma StartUdp_states:
  "ss_state s = Request \<Longrightarrow> ss_state (StartUdpAssociate e s) \<in> {Request, UdpAssociate, Closing}"
  "ss_gssProtectActive (StartUdpAssociate e s) = ss_gssProtectActive s"
  by (auto simp: StartUdpAssociate_def Let_def state_FailAndClose split: prod.split bool.split)

lemma Ensure_frame [simp]:
  "ss_state (snd (EnsureCleartextRequestIngest e s)) = ss_state s"
  "ss_gssProtectActive (snd (EnsureCleartextRequestIngest e s)) = ss_gssProtectActive s"
  by (auto simp: EnsureCleartextRequestIngest_def split: prod.split gss_read.split option.split)

lemma Request_states:
  assumes "ss_state s = Request"
  shows "ss_state (snd (ProcessRequestBuffer e s)) \<in> {Request, Resolving, Connecting, UdpAssociate, Closing}"
    and "ss_gssProtectActive (snd (ProcessRequestBuffer e s)) = ss_gssProtectActive s"
proof -
  define s1 where "s1 = (if ss_gssProtectActive s then snd (EnsureCleartextRequestIngest e s) else s)"
  have s1: "ss_state s1 = Request" "ss_gssProtectActive s1 = ss_gssProtectActive s"
    using assms by (simp_all add: s1_def)
  have r: "snd (ProcessRequestBuffer e s) = s1 \<or>
      (\<exists>code. snd (ProcessRequestBuffer e s) = FailAndClose e code s1) \<or>
      (\<exists>need. let s2 = s1\<lparr>ss_ingest := drop need (ss_ingest s1)\<rparr>; s' = snd (ProcessRequestBuffer e s) in
         (\<exists>a p. s' = snd (StartConnect e a p s2)) \<or> s' = StartUdpAssociate e s2 \<or>
         s' = FailAndClose e ReplyCode_CommandNotSupported s2)"
    unfolding ProcessRequestBuffer_def s1_def
    by (auto simp: Let_def split_def split: request_parse.split)
  have sub: "ss_state (s1\<lparr>ss_ingest := i\<rparr>) = Request" "ss_gssProtectActive (s1\<lparr>ss_ingest := i\<rparr>) = ss_gssProtectActive s" for i
    using s1 by simp_all
  show "ss_state (snd (ProcessRequestBuffer e s)) \<in> {Request, Resolving, Connecting, UdpAssociate, Closing}"
    using r s1(1) StartConnect_states(1) [OF sub(1)] StartUdp_states(1) [OF sub(1)]
    by (fastforce simp: Let_def state_FailAndClose)
  show "ss_gssProtectActive (snd (ProcessRequestBuffer e s)) = ss_gssProtectActive s"
    using r s1(2) sub(2) StartConnect_states(2) StartUdp_states(2) by (auto simp: Let_def)
qed

text \<open>Completions other than client data leave the protocol phase alone: they only act after it.\<close>

definition authed :: "SessionState \<Rightarrow> bool" where
  "authed st \<longleftrightarrow> st \<in> {Request, Resolving, Connecting, Relaying, UdpAssociate}"

definition quiet :: "session \<Rightarrow> session \<Rightarrow> bool" where
  "quiet s s' \<longleftrightarrow> ss_gssProtectActive s' = ss_gssProtectActive s \<and>
     (if protocol_state (ss_state s) then ss_state s' = ss_state s \<and> ss_ingest s' = ss_ingest s
      else \<not> protocol_state (ss_state s') \<and> session_path (ss_state s) (ss_state s'))"

lemma quietI: "proto s' = proto s \<Longrightarrow> quiet s s'"
  by (auto simp: quiet_def proto_def)

lemma proto_ss_Relay [simp]:
  "proto (snd (TryPostRelayRead e t s)) = proto s" "proto (MaybeResumeRelayRead e t s) = proto s"
  by (auto simp: TryPostRelayRead_def MaybeResumeRelayRead_def Let_def split_def)

lemma proto_sends [simp]:
  "proto (OnClientSend e n err s) = proto s" "proto (OnDestSend e n err s) = proto s"
  by (simp_all add: OnClientSend_def OnDestSend_def Let_def)

lemma proto_OnUdpRelayStopped [simp]: "proto (OnUdpRelayStopped s) = proto s"
  by (simp add: OnUdpRelayStopped_def)

lemma proto_OnDnsAnswer [simp]: "proto (OnDnsAnswer e ip s) = proto s"
proof -
  have "proto (s\<lparr>ss_dnsResult := ip\<rparr>) = proto s" by (simp add: proto_def)
  then show ?thesis by (simp add: OnDnsAnswer_def Let_def split_def)
qed

lemma wrap_all_proto [simp]: "proto (snd (wrap_all e parts s)) = proto s"
proof (induction parts arbitrary: s)
  case (Cons p parts)
  obtain ok s1 where w: "WrapAndQueueClient e p s = (ok, s1)" by fastforce
  then have "proto s1 = proto s" using proto_Wrap [of e p s] by simp
  with Cons [of s1] show ?case by (cases ok) (simp_all add: w)
qed simp

lemma proto_RelayData_Dest [simp]: "proto (OnRelayData e Dest chunk s) = proto s"
  by (simp add: OnRelayData_def Let_def split_def)

lemma proto_DestRecv [simp]: "proto (OnDestRecv e d err s) = proto s"
  by (simp add: OnDestRecv_def Let_def)

lemma GssRelay_frame [simp]:
  "ss_state (snd (ProcessGssRelayInput e s)) = ss_state s"
  "ss_gssProtectActive (snd (ProcessGssRelayInput e s)) = ss_gssProtectActive s"
proof (induction e s rule: ProcessGssRelayInput.induct)
  case (1 e s)
  {
    case 1
    show ?case by (subst ProcessGssRelayInput.simps) (simp add: Let_def "1.IH" split: prod.split gss_read.split option.split)
  next
    case 2
    show ?case by (subst ProcessGssRelayInput.simps) (simp add: Let_def "1.IH" split: prod.split gss_read.split option.split)
  }
qed

lemma StartRelay_frame:
  "ss_state (StartRelay e s) = Relaying" "ss_gssProtectActive (StartRelay e s) = ss_gssProtectActive s"
  by (auto simp: StartRelay_def Let_def split_def)

lemma quiet_Connect: "quiet s (OnDestConnect e err s)"
proof -
  have "ss_state s = Connecting \<Longrightarrow> session_path Connecting Relaying \<and> session_path Connecting Closing"
    by (auto intro: session_next.intros)
  then show ?thesis
    by (auto simp: OnDestConnect_def Let_def quiet_def protocol_state_def state_FailAndClose StartRelay_frame)
qed

lemma quiet_Dns: "quiet s (OnDnsResolved e s)"
proof -
  have p: "session_path Resolving Connecting" "session_path Resolving Closing" by (auto intro: session_next.intros)
  show ?thesis
  proof (cases "ss_closed s \<or> ss_state s \<noteq> Resolving")
    case True
    then show ?thesis by (auto simp: OnDnsResolved_def quiet_def)
  next
    case False
    have np: "\<not> protocol_state Resolving" "\<not> protocol_state Connecting" "\<not> protocol_state Closing"
      by (simp_all add: protocol_state_def)
    have ok: "quiet s (snd (ConnectToHost e a ip q s))" for a ip q
      using False np p ConnectToHost_states(1) [of s e a ip q] ConnectToHost_states(2) [of e a ip q s]
      by (auto simp: quiet_def)
    have fail: "quiet s (FailAndClose e c s)" for c
      using False np p by (simp add: quiet_def state_FailAndClose)
    have flush: "quiet s (RequestCloseAfterFlush s')" if "quiet s s'" for s'
      using that by (simp add: quiet_def)
    from False show ?thesis
      by (simp add: OnDnsResolved_def Let_def split_def ok fail flush split: option.split)
  qed
qed

lemma quiet_Timer: "quiet s (OnTimer e k s)"
proof -
  have "session_path Connecting Closing" by (auto intro: session_next.intros)
  then show ?thesis
    by (auto simp: OnTimer_def Let_def quiet_def protocol_state_def state_FailAndClose)
qed

lemma quiet_step:
  assumes "ev \<noteq> SvStart" and "\<And>d err. ev \<noteq> SvClientRecv d err"
  shows "quiet s (OnIoCompleted e ev s)"
  using assms
  by (cases ev) (auto simp: Let_def intro: quietI quiet_Connect quiet_Dns quiet_Timer)

lemma path_from_Request:
  "st \<in> {Request, Resolving, Connecting, UdpAssociate, Closing} \<Longrightarrow> session_path Request st"
  by (auto intro: session_next.intros)

lemma path_messages:
  "ss_state s = Handshake \<Longrightarrow> session_path Handshake (ss_state (snd (ProcessHandshakeBuffer e s)))"
  "ss_state s = Auth \<Longrightarrow> session_path Auth (ss_state (snd (ProcessAuthBuffer e s)))"
  "ss_state s = GssapiAuth \<Longrightarrow> session_path GssapiAuth (ss_state (snd (ProcessGssapiAuthBuffer e s)))"
  "ss_state s = GssapiProtect \<Longrightarrow> session_path GssapiProtect (ss_state (snd (ProcessGssapiProtectBuffer e s)))"
  by (auto simp: ProcessHandshakeBuffer_def Let_def intro: session_next.intros split: prod.split)
    (auto simp: ProcessAuthBuffer_def Let_def intro: session_next.intros,
     auto simp: ProcessGssapiAuthBuffer_def Let_def intro: session_next.intros split: prod.split gss_read.split option.split,
     auto simp: ProcessGssapiProtectBuffer_def Let_def intro: session_next.intros split: prod.split gss_read.split option.split)

lemma path_process: "session_path (ss_state s) (ss_state (snd (process_buffer e s)))"
  using path_messages path_from_Request [OF Request_states(1)]
  by (cases "ss_state s") (auto simp: process_buffer_def)

lemma path_loop: "session_path (ss_state s) (ss_state (snd (protocol_loop e s)))"
proof (induction e s rule: protocol_loop.induct)
  case (1 e s)
  obtain b s1 where p: "process_buffer e s = (b, s1)" by fastforce
  then have step: "session_path (ss_state s) (ss_state s1)" using path_process [of s e] by simp
  from 1 [OF _ p [symmetric]] step show ?case
    by (subst protocol_loop.simps) (auto simp: p split: bool.split intro: rtranclp_trans)
qed

lemma state_RelayData [simp]: "ss_state (OnRelayData e t d s) = ss_state s"
  using proto_eqD [OF proto_RelayData_Dest, of e d s] proto_eqD [OF proto_ss_Relay(1)]
  by (cases t) (auto simp: OnRelayData_def Let_def split_def)

lemma path_ClientRecv: "session_path (ss_state s) (ss_state (OnClientRecv e d err s))"
proof -
  define s1 where "s1 = (if protocol_state (ss_state s) then ArmIdleTimer e s else s)"
  have s1: "ss_state s1 = ss_state s" by (simp add: s1_def)
  show ?thesis
    unfolding OnClientRecv_def Let_def s1_def [symmetric]
    using s1 path_loop [of "s1\<lparr>ss_ingest := ss_ingest s1 @ d\<rparr>" e]
    by (simp add: split_def)
qed

lemma path_step: "ev \<noteq> SvStart \<Longrightarrow> session_path (ss_state s) (ss_state (OnIoCompleted e ev s))"
proof (cases "\<exists>d err. ev = SvClientRecv d err")
  case True
  then obtain d err where "ev = SvClientRecv d err" by blast
  then show ?thesis
    using path_ClientRecv [of "mod_io Client (\<lambda>io. io\<lparr>si_reading := False\<rparr>) s" e d err] by (simp add: Let_def)
next
  case False
  assume "ev \<noteq> SvStart"
  with False have "quiet s (OnIoCompleted e ev s)" by (intro quiet_step) auto
  then show ?thesis by (simp add: quiet_def split: if_splits)
qed

lemma path_ends: "session_path st st' \<Longrightarrow> st \<in> {Relaying, UdpAssociate, Closing} \<Longrightarrow> st' = st"
  by (erule converse_rtranclpE) (auto simp: session_next_simps)

lemma path_to_Relaying: "session_path st Relaying \<Longrightarrow> st \<noteq> Relaying \<Longrightarrow> session_path st Connecting"
  by (erule rtranclp.cases) (auto simp: session_next_simps)

text \<open>C14.  The states of a session only move forward along the diagram of \<open>session_next\<close>: whatever completion arrives, the new state is
  reached from the old one by its edges, so that a session that relays, serves UDP or is closing stays in that state, and relaying is only
  reached through \<open>Connecting\<close>.\<close>

theorem session_states_in_order:
  assumes "ev \<noteq> SvStart" and "s' = OnIoCompleted e ev s"
  shows "session_path (ss_state s) (ss_state s') \<and>
    (ss_state s \<in> {Relaying, UdpAssociate, Closing} \<longrightarrow> ss_state s' = ss_state s) \<and>
    (ss_state s' = Relaying \<longrightarrow> ss_state s = Relaying \<or> session_path (ss_state s) Connecting)"
  using path_step [OF assms(1), of s e] path_ends path_to_Relaying assms(2) by metis

theorem session_states_in_order_witness:
  "session_path (ss_state sample_session) (ss_state (OnIoCompleted sample_session_env (SvClientRecv [5, 1, 0] False) sample_session))"
  using session_states_in_order [of "SvClientRecv [5, 1, 0] False" _ sample_session_env sample_session] by blast


section \<open>No access without the password\<close>

definition auth_message :: "string \<Rightarrow> string \<Rightarrow> bytes" where
  "auth_message username password =
     [AuthProtocol_Version, word_of_nat (length username)] @ bytes_of_string username @
     [word_of_nat (length password)] @ bytes_of_string password"

fun received :: "session_event list \<Rightarrow> bytes" where
  "received [] = []"
| "received (SvClientRecv d err # evs) = (if err then received evs else d @ received evs)"
| "received (_ # evs) = received evs"

text \<open>The other way in: the security context of GSS-API was established.  No handler takes it back.\<close>

definition gss_granted :: "session \<Rightarrow> bool" where
  "gss_granted s \<longleftrightarrow> (case ss_gssapi s of None \<Rightarrow> False | Some g \<Rightarrow> gs_complete g)"

lemma granted_cong: "ss_gssapi s' = ss_gssapi s \<Longrightarrow> gss_granted s' = gss_granted s"
  by (simp add: gss_granted_def)

lemma granted_frame [simp]:
  "gss_granted (session_emit as s) = gss_granted s" "gss_granted (snd (session_call e s)) = gss_granted s" "gss_granted (mod_io t f s) = gss_granted s"
  "gss_granted (CancelIdleTimer s) = gss_granted s" "gss_granted (CancelConnectTimer s) = gss_granted s" "gss_granted (close_dest s) = gss_granted s"
  "gss_granted (s\<lparr>ss_closeAfterFlush := b\<rparr>) = gss_granted s" "gss_granted (s\<lparr>ss_state := st\<rparr>) = gss_granted s"
  "gss_granted (s\<lparr>ss_udpRelay := r\<rparr>) = gss_granted s" "gss_granted (s\<lparr>ss_dest := b\<rparr>) = gss_granted s" "gss_granted (s\<lparr>ss_connectMeta := m\<rparr>) = gss_granted s"
  "gss_granted (s\<lparr>ss_ingest := i\<rparr>) = gss_granted s" "gss_granted (s\<lparr>ss_dnsResult := d\<rparr>) = gss_granted s" "gss_granted (s\<lparr>ss_crashed := b\<rparr>) = gss_granted s"
  "gss_granted (s\<lparr>ss_gssProtectActive := b\<rparr>) = gss_granted s" "gss_granted (s\<lparr>ss_gssRequestUnwrapped := b\<rparr>) = gss_granted s"
  "gss_granted (s\<lparr>ss_idleTimerId := n\<rparr>) = gss_granted s" "gss_granted (s\<lparr>ss_connectTimerId := n\<rparr>) = gss_granted s"
  "gss_granted (s\<lparr>ss_pendingHost := h\<rparr>) = gss_granted s" "gss_granted (s\<lparr>ss_pendingPort := p\<rparr>) = gss_granted s"
  by (rule granted_cong, simp add: close_dest_def)+

lemma granted_Close [simp]: "gss_granted (Close s) = gss_granted s"
  by (rule granted_cong) (simp add: Close_def Let_def)

lemma granted_send [simp]:
  "gss_granted (PumpSend e t s) = gss_granted s" "gss_granted (QueueClientSendRaw e d s) = gss_granted s"
  "gss_granted (QueueDestSend e d s) = gss_granted s" "gss_granted (SendGssFrame e m d s) = gss_granted s" "gss_granted (SendGssAbort e s) = gss_granted s"
  by (simp_all add: PumpSend_def QueueClientSendRaw_def QueueDestSend_def SendGssFrame_def SendGssAbort_def Let_def split_def)

lemma granted_Some: "gss_granted (s\<lparr>ss_gssapi := Some g\<rparr>) = gs_complete g"
  by (simp add: gss_granted_def)

lemma granted_Wrap [simp]: "gss_granted (snd (WrapAndQueueClient e d s)) = gss_granted s"
proof (cases "ss_gssapi s")
  case (Some g)
  then show ?thesis
    using Wrap_keeps(1) [of "se_sspi e" d "wrap_confidential g" g]
    by (auto simp: WrapAndQueueClient_def Let_def granted_Some split: prod.split option.split) (simp_all add: gss_granted_def)
qed (simp add: WrapAndQueueClient_def)

lemma granted_reply [simp]:
  "gss_granted (QueueClientSend e d s) = gss_granted s" "gss_granted (SendSocksReply e c b s) = gss_granted s"
  "gss_granted (RequestCloseAfterFlush s) = gss_granted s" "gss_granted (snd (BeginClientRead e s)) = gss_granted s"
  "gss_granted (FailAndClose e c s) = gss_granted s"
  by (simp_all add: QueueClientSend_def SendSocksReply_def RequestCloseAfterFlush_def BeginClientRead_def FailAndClose_def Let_def split_def)

lemma granted_arm [simp]:
  "gss_granted (ArmIdleTimer e s) = gss_granted s" "gss_granted (snd (ArmConnectTimer e s)) = gss_granted s"
  by (rule granted_cong, simp add: ArmIdleTimer_def ArmConnectTimer_def Let_def)+

lemma granted_connect [simp]:
  "gss_granted (snd (ConnectToHost e a ip p s)) = gss_granted s" "gss_granted (snd (StartConnect e a p s)) = gss_granted s"
  "gss_granted (StartUdpAssociate e s) = gss_granted s"
proof -
  show c: "gss_granted (snd (ConnectToHost e a ip p s)) = gss_granted s" for ip
    by (simp add: ConnectToHost_def Let_def split_def split: option.split)
  show "gss_granted (snd (StartConnect e a p s)) = gss_granted s" by (simp add: StartConnect_def c)
  show "gss_granted (StartUdpAssociate e s) = gss_granted s" by (simp add: StartUdpAssociate_def Let_def split: prod.split bool.split)
qed

lemma granted_Unwrap: "ss_gssapi s = Some g \<Longrightarrow> gs_complete (snd (Unwrap w t g)) = gss_granted s"
  by (simp add: gss_granted_def Unwrap_keeps)

lemma granted_opened: "ss_gssapi s = Some g \<Longrightarrow> Unwrap w t g = (r, g1) \<Longrightarrow> gs_complete g1 = gss_granted s"
  using granted_Unwrap [of s g w t] by simp

lemma granted_Ensure [simp]: "gss_granted (snd (EnsureCleartextRequestIngest e s)) = gss_granted s"
proof (cases "ss_gssapi s")
  case (Some g)
  then show ?thesis
    using granted_opened [OF Some]
    by (auto simp: EnsureCleartextRequestIngest_def gss_granted_def split: prod.split gss_read.split option.split)
qed (auto simp: EnsureCleartextRequestIngest_def split: prod.split gss_read.split)

lemma granted_GssRelay [simp]: "gss_granted (snd (ProcessGssRelayInput e s)) = gss_granted s"
proof (induction e s rule: ProcessGssRelayInput.induct)
  case (1 e s)
  show ?case
  proof (cases "ss_gssapi s")
    case (Some g)
    have step: "gss_granted (s\<lparr>ss_ingest := r, ss_gssapi := Some g1\<rparr>) = gss_granted s" if "Unwrap (se_sspi e) t g = (x, g1)" for r t x g1
      using granted_opened [OF Some that] by (simp add: gss_granted_def)
    show ?thesis
      using 1 Some step by (subst ProcessGssRelayInput.simps) (auto simp: Let_def split: prod.split gss_read.split option.split)
  qed (subst ProcessGssRelayInput.simps, auto split: prod.split gss_read.split)
qed

lemma granted_Request [simp]: "gss_granted (snd (ProcessRequestBuffer e s)) = gss_granted s"
  by (auto simp: ProcessRequestBuffer_def Let_def split_def split: request_parse.split)

lemma granted_Protect: "gss_granted (snd (ProcessGssapiProtectBuffer e s)) = gss_granted s"
proof (cases "ss_gssapi s")
  case (Some g)
  have two: "gs_complete g2 = gss_granted s" if "Unwrap (se_sspi e) t g = (x, g1)" "Wrap (se_sspi e) d c (g1\<lparr>gs_protectionLevel := l\<rparr>) = (y, g2)"
    for t x g1 d c l y g2
    using granted_opened [OF Some that(1)] Wrap_keeps(1) [of "se_sspi e" d c "g1\<lparr>gs_protectionLevel := l\<rparr>"] that(2) by simp
  show ?thesis
    using Some granted_opened [OF Some] two
    by (auto simp: ProcessGssapiProtectBuffer_def Let_def granted_Some split: prod.split gss_read.split option.split)
qed (auto simp: ProcessGssapiProtectBuffer_def split: prod.split gss_read.split)

lemma granted_wrap_all [simp]: "gss_granted (snd (wrap_all e parts s)) = gss_granted s"
proof (induction parts arbitrary: s)
  case (Cons p parts)
  obtain ok s1 where w: "WrapAndQueueClient e p s = (ok, s1)" by fastforce
  then have "gss_granted s1 = gss_granted s" using granted_Wrap [of e p s] by simp
  with Cons [of s1] show ?case by (cases ok) (simp_all add: w)
qed simp

lemma granted_relay [simp]:
  "gss_granted (snd (TryPostRelayRead e t s)) = gss_granted s" "gss_granted (MaybeResumeRelayRead e t s) = gss_granted s"
  "gss_granted (OnRelayData e t d s) = gss_granted s" "gss_granted (StartRelay e s) = gss_granted s"
proof -
  show t: "gss_granted (snd (TryPostRelayRead e t s)) = gss_granted s" for t s by (simp add: TryPostRelayRead_def Let_def split_def)
  show "gss_granted (MaybeResumeRelayRead e t s) = gss_granted s" by (simp add: MaybeResumeRelayRead_def t)
  show "gss_granted (OnRelayData e t d s) = gss_granted s" by (cases t) (simp_all add: OnRelayData_def Let_def split_def t)
  show "gss_granted (StartRelay e s) = gss_granted s" by (simp add: StartRelay_def Let_def split_def t)
qed

lemma granted_step:
  assumes "ev \<noteq> SvStart" and "\<And>d err. ev \<noteq> SvClientRecv d err"
  shows "gss_granted (OnIoCompleted e ev s) = gss_granted s"
proof -
  have "gss_granted (OnDnsResolved e s) = gss_granted s" "gss_granted (OnDestConnect e err s) = gss_granted s"
    "gss_granted (OnClientSend e n b s) = gss_granted s" "gss_granted (OnDestSend e n b s) = gss_granted s"
    "gss_granted (OnTimer e k s) = gss_granted s" "gss_granted (OnDnsAnswer e ip s) = gss_granted s"
    "gss_granted (OnUdpRelayStopped s) = gss_granted s" for err n b k ip
    by (simp_all add: OnDnsResolved_def OnDestConnect_def OnClientSend_def OnDestSend_def OnTimer_def OnDnsAnswer_def OnUdpRelayStopped_def
        Let_def split_def split: option.split)
  moreover have "gss_granted (OnDestRecv e d err s') = gss_granted s'" for d err s' by (simp add: OnDestRecv_def Let_def)
  ultimately show ?thesis
  proof (cases ev)
    case (SvClientRecv d err)
    then show ?thesis using assms(2) by blast
  qed (use assms(1) in \<open>simp_all add: Let_def\<close>)
qed

definition auth_inv :: "netcfg \<Rightarrow> bytes \<Rightarrow> session \<Rightarrow> bool" where
  "auth_inv c recv s \<longleftrightarrow>
     (\<not> EnableGssapi c \<longrightarrow> \<not> gss_granted s \<and> ss_state s \<notin> {GssapiAuth, GssapiProtect}) \<and>
     (\<not> ss_closed s \<and> ss_state s \<in> {Handshake, Auth} \<longrightarrow> suffix (ss_ingest s) recv) \<and>
     (ss_state s = GssapiProtect \<longrightarrow> gss_granted s) \<and>
     (authed (ss_state s) \<longrightarrow> sublist (auth_message (Username c) (Password c)) recv \<or> gss_granted s)"

lemma auth_inv_proto:
  "auth_inv c recv s \<Longrightarrow> proto s' = proto s \<Longrightarrow> gss_granted s' = gss_granted s \<Longrightarrow> (ss_closed s \<longrightarrow> ss_closed s') \<Longrightarrow> auth_inv c recv s'"
  by (auto simp: auth_inv_def proto_def)

lemma sublist_more: "sublist xs ys \<Longrightarrow> sublist xs (ys @ zs)"
  unfolding sublist_def by (metis append.assoc)

lemma auth_inv_more: "auth_inv c recv s \<Longrightarrow> ss_closed s \<or> ss_state s \<notin> {Handshake, Auth} \<Longrightarrow> auth_inv c (recv @ d) s"
  by (auto simp: auth_inv_def intro: sublist_more)

lemma closed_step: "ev \<noteq> SvStart \<Longrightarrow> ss_closed s \<Longrightarrow> ss_closed (OnIoCompleted e ev s)"
  using closed_run_id [of s "[ev]" e] by (simp add: session_run_def del: OnIoCompleted.simps)

lemma authed_path: "session_path st st' \<Longrightarrow> \<not> protocol_state st \<Longrightarrow> authed st' \<Longrightarrow> authed st"
  using path_ends [of st st'] by (cases st) (auto simp: authed_def protocol_state_def)

lemma auth_inv_late:
  assumes "auth_inv c recv s" and "ss_state s \<in> {Relaying, UdpAssociate}" and "ss_state s' = ss_state s" and "gss_granted s' = gss_granted s"
  shows "auth_inv c (recv @ d) s'"
  using assms sublist_more [of "auth_message (Username c) (Password c)" recv d] unfolding auth_inv_def by auto

lemma auth_inv_quiet:
  assumes "auth_inv c recv s" and "quiet s s'" and "gss_granted s' = gss_granted s" and "ss_closed s \<longrightarrow> ss_closed s'"
  shows "auth_inv c recv s'"
proof (cases "protocol_state (ss_state s)")
  case True
  with assms show ?thesis by (auto simp: auth_inv_def quiet_def)
next
  case False
  with assms(2) have q: "\<not> protocol_state (ss_state s')" "session_path (ss_state s) (ss_state s')" by (auto simp: quiet_def)
  from authed_path [OF q(2) False] assms(1,3) q(1) show ?thesis
    by (auto simp: auth_inv_def protocol_state_def)
qed

lemma select_method_auth: "HasCredentials c \<Longrightarrow> select_method c ms \<noteq> AuthMethod_NoAuth"
  by (simp add: select_method_def)

lemma auth_inv_Handshake:
  assumes "HasCredentials (se_cfg e)" and "ss_state s = Handshake" and "auth_inv (se_cfg e) recv s" and "\<not> ss_closed s"
  shows "auth_inv (se_cfg e) recv (snd (ProcessHandshakeBuffer e s))"
proof -
  have suf: "suffix (ss_ingest s) recv" using assms by (auto simp: auth_inv_def)
  then have "suffix (drop n (ss_ingest s)) recv" for n
    by (metis suffix_drop suffix_order.trans)
  moreover have "select_method c ms \<in> {AuthMethod_NoAuth, AuthMethod_Gssapi, AuthMethod_UsernamePassword, AuthMethod_NoAcceptableMethods} \<and>
      (select_method c ms = AuthMethod_Gssapi \<longrightarrow> EnableGssapi c)" for c ms
    by (simp add: select_method_def Let_def)
  ultimately show ?thesis
    using assms(2,3) suf select_method_auth [OF assms(1), of "take (unat (ss_ingest s ! 1)) (drop 2 (ss_ingest s))"]
    by (auto simp: ProcessHandshakeBuffer_def Let_def auth_inv_def authed_def split: prod.split)
qed

lemma AcceptToken_Complete: "AcceptToken w t g = (Complete, out, g1) \<Longrightarrow> gs_complete g1"
  by (auto simp: AcceptToken_def query_name_def tick_def Let_def split_def split: if_splits option.splits)

lemma auth_inv_Gss:
  assumes "ss_state s = GssapiAuth" and "auth_inv c recv s"
  shows "auth_inv c recv (snd (ProcessGssapiAuthBuffer e s))"
proof -
  have "snd (ProcessGssapiAuthBuffer e s) = s' \<Longrightarrow> ss_state s' = GssapiAuth \<or> (ss_state s' = GssapiProtect \<and> gss_granted s')" for s'
    using assms(1)
    by (auto simp: ProcessGssapiAuthBuffer_def Let_def granted_Some dest: AcceptToken_Complete split: prod.splits gss_read.splits option.splits if_splits)
  moreover have "EnableGssapi c" using assms by (auto simp: auth_inv_def)
  ultimately show ?thesis by (auto simp: auth_inv_def authed_def)
qed

lemma auth_inv_Protect:
  assumes "ss_state s = GssapiProtect" and "auth_inv c recv s"
  shows "auth_inv c recv (snd (ProcessGssapiProtectBuffer e s))"
proof -
  have "gss_granted (snd (ProcessGssapiProtectBuffer e s))" using assms granted_Protect [of e s] by (simp add: auth_inv_def)
  moreover have "ss_state (snd (ProcessGssapiProtectBuffer e s)) \<in> {GssapiProtect, Request}"
    using assms(1) by (auto simp: ProcessGssapiProtectBuffer_def Let_def split: prod.split gss_read.split option.split)
  moreover have "EnableGssapi c" using assms by (auto simp: auth_inv_def)
  ultimately show ?thesis by (auto simp: auth_inv_def)
qed

lemma auth_message_read:
  assumes "ingest ! 0 = AuthProtocol_Version" and ulen: "ulen = unat (ingest ! 1)"
    and plen: "plen = unat (ingest ! (2 + ulen))" and len: "2 + ulen + 1 + plen \<le> length ingest"
  shows "take (2 + ulen + 1 + plen) ingest =
    auth_message (string_of_bytes (take ulen (drop 2 ingest))) (string_of_bytes (take plen (drop (3 + ulen) ingest)))"
proof -
  obtain a b rest where i: "ingest = a # b # rest"
    using len by (cases ingest; cases "tl ingest") auto
  obtain w q where d: "drop ulen rest = w # q"
    using len i by (cases "drop ulen rest") auto
  define u where "u = take ulen rest"
  have r: "rest = u @ w # q" using d u_def by (metis append_take_drop_id)
  have lu: "length u = ulen" using d u_def by (metis drop_eq_Nil length_take list.distinct(1) min.absorb2 nle_le)
  have w: "ingest ! (2 + ulen) = w" using i r lu by (simp add: nth_append)
  have "length (take plen q) = plen" using len i r lu by simp
  then show ?thesis
    using assms(1) ulen plen w i r lu by (simp add: auth_message_def numeral_2_eq_2 numeral_3_eq_3)
qed

lemma auth_inv_Auth:
  assumes "length (Username (se_cfg e)) < 2 ^ 32" and "length (Password (se_cfg e)) < 2 ^ 32" and "ss_state s = Auth"
    and "auth_inv (se_cfg e) recv s" and "\<not> ss_closed s"
  shows "auth_inv (se_cfg e) recv (snd (ProcessAuthBuffer e s))"
proof -
  define ingest where "ingest = ss_ingest s"
  define ulen where "ulen = unat (ingest ! 1)"
  define plen where "plen = unat (ingest ! (2 + ulen))"
  let ?u = "string_of_bytes (take ulen (drop 2 ingest))" and ?p = "string_of_bytes (take plen (drop (3 + ulen) ingest))"
  have suf: "suffix ingest recv" and off: "\<not> EnableGssapi (se_cfg e) \<Longrightarrow> \<not> gss_granted s" using assms by (auto simp: auth_inv_def ingest_def)
  have drop: "suffix (drop n ingest) recv" for n
    using suf by (metis suffix_drop suffix_order.trans)
  have lt: "min a (unat (b :: byte)) < 4294967296" for a b
    using unat_byte_less [of b] by linarith
  have small: "length ?u < 2 ^ 32" "length ?p < 2 ^ 32"
    by (simp_all add: ulen_def plen_def lt)
  have msg: "sublist (auth_message (Username (se_cfg e)) (Password (se_cfg e))) recv"
    if "ingest ! 0 = AuthProtocol_Version" "2 + ulen + 1 + plen \<le> length ingest"
      "ConstantTimeEqual ?u (Username (se_cfg e))" "ConstantTimeEqual ?p (Password (se_cfg e))"
  proof -
    have "?u = Username (se_cfg e)" "?p = Password (se_cfg e)"
      using that(3,4) ConstantTimeEqual_iff [OF small(1) assms(1)] ConstantTimeEqual_iff [OF small(2) assms(2)] by auto
    then have "take (2 + ulen + 1 + plen) ingest = auth_message (Username (se_cfg e)) (Password (se_cfg e))"
      using auth_message_read [OF that(1) ulen_def plen_def that(2)] by simp
    then show ?thesis
      using suf by (metis append_take_drop_id sublist_append_rightI suffix_imp_sublist sublist_order.order.trans)
  qed
  show ?thesis
    using assms(3) suf drop msg off
    unfolding ProcessAuthBuffer_def Let_def ingest_def [symmetric] ulen_def [symmetric] plen_def [symmetric]
    by (auto simp: auth_inv_def authed_def ingest_def)
qed

lemma auth_inv_Request:
  assumes "ss_state s = Request" and "auth_inv c recv s"
  shows "auth_inv c recv (snd (ProcessRequestBuffer e s))"
  using Request_states(1) [OF assms(1), of e] assms by (auto simp: auth_inv_def authed_def)

lemma auth_inv_process:
  assumes "HasCredentials (se_cfg e)" and "length (Username (se_cfg e)) < 2 ^ 32" and "length (Password (se_cfg e)) < 2 ^ 32"
    and "auth_inv (se_cfg e) recv s" and "\<not> ss_closed s"
  shows "auth_inv (se_cfg e) recv (snd (process_buffer e s))"
  using assms auth_inv_Handshake [OF assms(1) _ assms(4,5)] auth_inv_Auth [OF assms(2,3) _ assms(4,5)]
    auth_inv_Request [OF _ assms(4), of e] auth_inv_Gss [OF _ assms(4), of e] auth_inv_Protect [OF _ assms(4), of e]
  by (cases "ss_state s") (auto simp: process_buffer_def)

lemma auth_inv_loop:
  assumes "HasCredentials (se_cfg e)" and "length (Username (se_cfg e)) < 2 ^ 32" and "length (Password (se_cfg e)) < 2 ^ 32"
  shows "auth_inv (se_cfg e) recv s \<Longrightarrow> auth_inv (se_cfg e) recv (snd (protocol_loop e s))"
  using assms
proof (induction e s rule: protocol_loop.induct)
  case (1 e s)
  obtain b s1 where p: "process_buffer e s = (b, s1)" by fastforce
  have flush: "auth_inv (se_cfg e) recv s' \<Longrightarrow> auth_inv (se_cfg e) recv (RequestCloseAfterFlush s')" for s'
    by (erule auth_inv_proto) (simp_all add: RequestCloseAfterFlush_def Let_def)
  have "\<not> ss_closed s \<Longrightarrow> auth_inv (se_cfg e) recv s1"
    using auth_inv_process [OF 1(3-5) 1(2)] p by simp
  with 1 flush show ?case
    by (subst protocol_loop.simps) (auto simp: p split: bool.split)
qed

lemma auth_inv_append:
  assumes "auth_inv c recv s"
  shows "auth_inv c (recv @ d) (s\<lparr>ss_ingest := ss_ingest s @ d\<rparr>)"
  using assms by (auto simp: auth_inv_def intro: sublist_more)

lemma proto_RelayData_Client: "\<not> ss_gssProtectActive s \<Longrightarrow> proto (OnRelayData e Client d s) = proto s"
  by (simp add: OnRelayData_def)

lemma auth_inv_ClientRecv:
  assumes cfg: "HasCredentials (se_cfg e)" "length (Username (se_cfg e)) < 2 ^ 32" "length (Password (se_cfg e)) < 2 ^ 32"
    and inv: "auth_inv (se_cfg e) recv s" and op: "\<not> ss_closed s"
  shows "auth_inv (se_cfg e) (recv @ (if err then [] else d)) (OnClientRecv e d err s)"
proof -
  define s1 where "s1 = (if protocol_state (ss_state s) then ArmIdleTimer e s else s)"
  have cl: "\<not> ss_closed s1" using op by (simp add: s1_def ArmIdleTimer_def Let_def)
  have pr: "proto s1 = proto s" by (simp add: s1_def)
  have gr: "gss_granted s1 = gss_granted s" by (simp add: s1_def)
  from inv pr gr op have inv1: "auth_inv (se_cfg e) recv s1" by (auto intro: auth_inv_proto)
  have read: "auth_inv (se_cfg e) r t \<Longrightarrow> auth_inv (se_cfg e) r (snd (BeginClientRead e t))" for r t
  proof (erule auth_inv_proto)
    show "ss_closed t \<longrightarrow> ss_closed (snd (BeginClientRead e t))" by (simp add: BeginClientRead_def)
  qed simp_all
  consider (stop) "err \<or> d = []"
    | (over) "\<not> err" "d \<noteq> []" "ss_state s1 \<notin> {UdpAssociate, Relaying}"
        "length d > kMaxProtocolBuffered \<or> length (ss_ingest s1) > kMaxProtocolBuffered - length d"
    | (data) "\<not> err" "d \<noteq> []" "ss_state s1 \<in> {UdpAssociate, Relaying}"
    | (proto) "\<not> err" "d \<noteq> []" "ss_state s1 \<notin> {UdpAssociate, Relaying}"
        "\<not> (length d > kMaxProtocolBuffered \<or> length (ss_ingest s1) > kMaxProtocolBuffered - length d)"
    by blast
  then show ?thesis
  proof cases
    case stop
    then have "proto (OnClientRecv e d err s) = proto s" "gss_granted (OnClientRecv e d err s) = gss_granted s"
      by (simp_all add: OnClientRecv_def Let_def)
    moreover have "recv @ (if err then [] else d) = recv" using stop by auto
    ultimately show ?thesis using inv op by (auto intro: auth_inv_proto)
  next
    case over
    then have "OnClientRecv e d err s = Close s1"
      by (simp add: OnClientRecv_def Let_def s1_def [symmetric])
    moreover have "auth_inv (se_cfg e) recv (Close s1)" using inv1 by (rule auth_inv_proto) auto
    ultimately show ?thesis by (simp add: auth_inv_more)
  next
    case data
    then have "ss_state (OnClientRecv e d err s) = ss_state s1" "gss_granted (OnClientRecv e d err s) = gss_granted s1"
      by (auto simp: OnClientRecv_def Let_def s1_def [symmetric])
    then show ?thesis using data(1,3) auth_inv_late [OF inv1] by auto
  next
    case proto
    then have "OnClientRecv e d err s =
        (let (falls, s2) = protocol_loop e (s1\<lparr>ss_ingest := ss_ingest s1 @ d\<rparr>)
         in if falls \<and> protocol_state (ss_state s2) then snd (BeginClientRead e s2) else s2)"
      by (simp add: OnClientRecv_def Let_def s1_def [symmetric])
    moreover have "auth_inv (se_cfg e) (recv @ d) (snd (protocol_loop e (s1\<lparr>ss_ingest := ss_ingest s1 @ d\<rparr>)))"
      by (intro auth_inv_loop cfg auth_inv_append inv1)
    ultimately show ?thesis using proto(1) by (auto simp: split_def Let_def intro: read)
  qed
qed

lemma auth_inv_step:
  assumes "HasCredentials (se_cfg e)" and "length (Username (se_cfg e)) < 2 ^ 32" and "length (Password (se_cfg e)) < 2 ^ 32"
    and "ev \<noteq> SvStart" and inv: "auth_inv (se_cfg e) recv s"
  shows "auth_inv (se_cfg e) (recv @ received [ev]) (OnIoCompleted e ev s)"
proof (cases "\<exists>d err. ev = SvClientRecv d err")
  case False
  then have "received [ev] = []" "quiet s (OnIoCompleted e ev s)"
    using quiet_step [of ev s e] assms(4) by (cases ev; auto)+
  moreover have "gss_granted (OnIoCompleted e ev s) = gss_granted s" using False assms(4) by (intro granted_step) auto
  ultimately show ?thesis using auth_inv_quiet [OF inv] closed_step [OF assms(4), of s e] by simp
next
  case True
  then obtain d err where ev: "ev = SvClientRecv d err" by blast
  define s0 where "s0 = mod_io Client (\<lambda>io. io\<lparr>si_reading := False\<rparr>) s"
  have inv0: "auth_inv (se_cfg e) recv s0" "ss_closed s0 = ss_closed s"
    using inv by (auto simp: s0_def intro: auth_inv_proto)
  show ?thesis
  proof (cases "ss_closed s")
    case True
    then show ?thesis using inv0 auth_inv_more [OF inv0(1)] by (simp add: ev s0_def [symmetric])
  next
    case False
    then show ?thesis
      using auth_inv_ClientRecv [OF assms(1-3) inv0(1), of err d] inv0(2)
      by (cases err) (simp_all add: ev s0_def [symmetric])
  qed
qed

lemma received_append: "received (evs @ evs') = received evs @ received evs'"
  by (induction evs rule: received.induct) simp_all

lemma auth_inv_run:
  assumes "HasCredentials (se_cfg e)" and "length (Username (se_cfg e)) < 2 ^ 32" and "length (Password (se_cfg e)) < 2 ^ 32"
  shows "SvStart \<notin> set evs \<Longrightarrow> auth_inv (se_cfg e) recv s \<Longrightarrow>
    auth_inv (se_cfg e) (recv @ received evs) (session_run e evs s)"
proof (induction evs arbitrary: recv s)
  case (Cons ev evs)
  then have "auth_inv (se_cfg e) (recv @ received [ev]) (OnIoCompleted e ev s)"
    by (intro auth_inv_step assms) auto
  then have "auth_inv (se_cfg e) ((recv @ received [ev]) @ received evs) (session_run e evs (OnIoCompleted e ev s))"
    using Cons by (intro Cons.IH) auto
  then show ?case using received_append [of "[ev]" evs] by (simp add: session_run_def)
qed (simp add: session_run_def)

lemma auth_inv_first:
  "auth_inv c [] (OnIoCompleted e SvStart (new_Socks5Session e clientEp localEp held))"
proof -
  let ?s = "new_Socks5Session e clientEp localEp held"
  have "auth_inv c [] ?s" by (simp add: auth_inv_def gss_granted_def new_Socks5Session_def authed_def)
  moreover have "gss_granted (OnIoCompleted e SvStart ?s) = gss_granted ?s"
    by (auto simp: Session_Start_def Let_def split_def split: prod.split bool.split)
  moreover have "proto (OnIoCompleted e SvStart ?s) = proto ?s" "\<not> ss_closed ?s"
    by (auto simp: Session_Start_def Let_def split_def split: prod.split bool.split)
      (simp_all add: proto_def new_Socks5Session_def)
  ultimately show ?thesis by (auto intro: auth_inv_proto)
qed

text \<open>C2.  No access without authentication: on a proxy with a configured user name and password, a session that has got past authentication (it takes
  requests, resolves, connects, relays or serves UDP) has received, in what its client sent, the sub-negotiation message with
  exactly that user name and password, or it has a completely established GSS-API security context; and without GSS-API
  enabled, it has received the message.\<close>

theorem session_requires_password:
  assumes "HasCredentials (se_cfg e)" and "length (Username (se_cfg e)) < 2 ^ 32" and "length (Password (se_cfg e)) < 2 ^ 32"
    and "SvStart \<notin> set evs" and "s = session_run e (SvStart # evs) (new_Socks5Session e clientEp localEp held)" and "authed (ss_state s)"
  shows "(sublist (auth_message (Username (se_cfg e)) (Password (se_cfg e))) (received evs) \<or> (\<exists>g. ss_gssapi s = Some g \<and> gs_complete g)) \<and>
    (\<not> EnableGssapi (se_cfg e) \<longrightarrow> sublist (auth_message (Username (se_cfg e)) (Password (se_cfg e))) (received evs))"
proof -
  have "auth_inv (se_cfg e) (received evs) s"
    using auth_inv_run [OF assms(1-4) auth_inv_first, of e clientEp localEp held] assms(5) by (simp add: session_run_def del: OnIoCompleted.simps)
  moreover have "gss_granted s \<longleftrightarrow> (\<exists>g. ss_gssapi s = Some g \<and> gs_complete g)" by (cases "ss_gssapi s") (simp_all add: gss_granted_def)
  ultimately show ?thesis using assms(6) unfolding auth_inv_def by blast
qed

definition password_env :: session_env where
  "password_env = sample_session_env\<lparr>se_cfg := default_netcfg\<lparr>Username := ''u'', Password := ''pw'', IdleTimeoutMs := 0\<rparr>\<rparr>"

lemma unat_of_nat_byte: "n < 256 \<Longrightarrow> unat (word_of_nat n :: byte) = n"
  by (simp add: unsigned_of_nat take_bit_nat_eq_self)

lemma auth_message_nth:
  assumes "length u < 256" and "length p < 256"
  shows "auth_message u p ! 0 = AuthProtocol_Version" and "unat (auth_message u p ! 1) = length u"
    and "unat (auth_message u p ! Suc (Suc (length u))) = length p" and "length (auth_message u p) = 2 + length u + 1 + length p"
    and "take (length u) (drop 2 (auth_message u p)) = bytes_of_string u"
    and "take (length p) (drop (3 + length u) (auth_message u p)) = bytes_of_string p"
  using assms by (simp_all add: auth_message_def nth_append unat_of_nat_byte numeral_2_eq_2 numeral_3_eq_3)

lemma ProcessAuth_accepts:
  assumes "length (Username (se_cfg e)) < 256" and "length (Password (se_cfg e)) < 256"
    and "ss_ingest s = auth_message (Username (se_cfg e)) (Password (se_cfg e))"
  shows "ProcessAuthBuffer e s =
    (True, (QueueClientSendRaw e [AuthProtocol_Version, AuthProtocol_Success] (s\<lparr>ss_ingest := []\<rparr>))\<lparr>ss_state := Request\<rparr>)"
proof -
  have "ConstantTimeEqual (Username (se_cfg e)) (Username (se_cfg e))" "ConstantTimeEqual (Password (se_cfg e)) (Password (se_cfg e))"
    using assms(1,2) by (auto intro!: ConstantTimeEqual_iff [THEN iffD2])
  with assms(3) show ?thesis
    by (simp add: ProcessAuthBuffer_def Let_def auth_message_nth [OF assms(1,2)] del: One_nat_def)
qed

lemma loop_waits:
  assumes "ss_state s = Request" and "ss_ingest s = []" and "\<not> ss_gssProtectActive s"
  shows "protocol_loop e s = (True, s)"
  using assms by (subst protocol_loop.simps) (simp add: process_buffer_def ProcessRequestBuffer_def parse_request_def)

lemma auth_accepts:
  assumes len: "length (Username (se_cfg e)) < 256" "length (Password (se_cfg e)) < 256"
    and s: "ss_state s = Auth" "ss_ingest s = []" "\<not> ss_closed s" "\<not> ss_gssProtectActive s"
  shows "ss_state (OnIoCompleted e (SvClientRecv (auth_message (Username (se_cfg e)) (Password (se_cfg e))) False) s) = Request"
proof -
  let ?msg = "auth_message (Username (se_cfg e)) (Password (se_cfg e))"
  define s1 where "s1 = ArmIdleTimer e (mod_io Client (\<lambda>io. io\<lparr>si_reading := False\<rparr>) s)"
  define s2 where "s2 = (QueueClientSendRaw e [AuthProtocol_Version, AuthProtocol_Success]
      (s1\<lparr>ss_ingest := []\<rparr>))\<lparr>ss_state := Request\<rparr>"
  have s1: "ss_state s1 = Auth" "ss_ingest s1 = []" "\<not> ss_closed s1" "\<not> ss_gssProtectActive s1"
    using s by (simp_all add: s1_def) (simp add: ArmIdleTimer_def Let_def)
  have "process_buffer e (s1\<lparr>ss_ingest := ?msg\<rparr>) = (True, s2)"
    using ProcessAuth_accepts [OF len, of "s1\<lparr>ss_ingest := ?msg\<rparr>"] s1 by (simp add: process_buffer_def s2_def)
  moreover have "ss_state s2 = Request" "ss_ingest s2 = []" "\<not> ss_gssProtectActive s2"
    using s1 by (simp_all add: s2_def)
  ultimately have loop: "protocol_loop e (s1\<lparr>ss_ingest := ?msg\<rparr>) = (True, s2)"
    using s1 loop_waits [of s2 e] by (subst protocol_loop.simps) (simp add: protocol_state_def)
  have "length ?msg \<le> 1000" using auth_message_nth(4) [OF len] len by linarith
  moreover have "?msg \<noteq> []" by (simp add: auth_message_def)
  ultimately show ?thesis
    using loop s s1 by (simp add: OnClientRecv_def Let_def s1_def [symmetric] protocol_state_def s2_def)
qed

text \<open>C15.  The right password is let in: a session that waits for authentication and receives the sub-negotiation message with
  the configured user name and password goes on to the request.\<close>

theorem session_accepts_password:
  assumes "length (Username (se_cfg e)) < 256" and "length (Password (se_cfg e)) < 256"
    and "ss_state s = Auth" and "ss_ingest s = []" and "\<not> ss_closed s" and "\<not> ss_gssProtectActive s"
  shows "ss_state (OnIoCompleted e (SvClientRecv (auth_message (Username (se_cfg e)) (Password (se_cfg e))) False) s) = Request"
  using assms by (rule auth_accepts)

theorem session_accepts_password_witness:
  "ss_state (OnIoCompleted password_env (SvClientRecv (auth_message ''u'' ''pw'') False) (sample_session\<lparr>ss_state := Auth\<rparr>)) = Request"
  using session_accepts_password [of password_env "sample_session\<lparr>ss_state := Auth\<rparr>"]
  by (simp add: password_env_def default_netcfg_def sample_session_def new_Socks5Session_def del: OnIoCompleted.simps)

lemma closed_when_posted [simp]:
  assumes "se_ok e = (\<lambda>n. True)"
  shows "ss_closed (PumpSend e t s) = ss_closed s" "ss_closed (snd (BeginClientRead e s)) = ss_closed s"
    "ss_closed (QueueClientSendRaw e d s) = ss_closed s" "ss_closed (ArmIdleTimer e s) = ss_closed s"
  using assms
  by (simp_all add: PumpSend_def BeginClientRead_def QueueClientSendRaw_def ArmIdleTimer_def Let_def session_call_def)

lemma started:
  assumes "se_ok e = (\<lambda>n. True)"
  shows "ss_state (OnIoCompleted e SvStart (new_Socks5Session e c l h)) = Handshake"
    and "ss_ingest (OnIoCompleted e SvStart (new_Socks5Session e c l h)) = []"
    and "\<not> ss_closed (OnIoCompleted e SvStart (new_Socks5Session e c l h))"
    and "\<not> ss_gssProtectActive (OnIoCompleted e SvStart (new_Socks5Session e c l h))"
proof -
  let ?n = "new_Socks5Session e c l h"
  let ?s = "ArmIdleTimer e (?n\<lparr>ss_calls := Suc 0, ss_state := Handshake\<rparr>)"
  have io: "ss_clientIo ?s = new_StreamIo" "\<not> ss_closed ?s"
    using assms by (simp_all add: ArmIdleTimer_def Let_def new_Socks5Session_def)
  then have "fst (BeginClientRead e ?s)"
    using assms by (simp add: BeginClientRead_def session_call_def new_StreamIo_def)
  then have *: "OnIoCompleted e SvStart ?n = snd (BeginClientRead e ?s)"
    using assms by (cases "BeginClientRead e ?s") (simp add: Session_Start_def session_call_def new_Socks5Session_def)
  show "ss_state (OnIoCompleted e SvStart ?n) = Handshake" "ss_ingest (OnIoCompleted e SvStart ?n) = []"
    "\<not> ss_closed (OnIoCompleted e SvStart ?n)" "\<not> ss_gssProtectActive (OnIoCompleted e SvStart ?n)"
    unfolding * using assms io(2) by (simp_all add: new_Socks5Session_def)
qed

lemma handshake_step:
  assumes env: "HasCredentials (se_cfg e)" "\<not> EnableGssapi (se_cfg e)" "se_ok e = (\<lambda>n. True)"
    and s: "ss_state s = Handshake" "ss_ingest s = []" "\<not> ss_closed s" "\<not> ss_gssProtectActive s"
  shows "let s' = OnIoCompleted e (SvClientRecv [5, 1, 2] False) s
         in ss_state s' = Auth \<and> ss_ingest s' = [] \<and> \<not> ss_closed s' \<and> \<not> ss_gssProtectActive s'"
proof -
  define s1 where "s1 = ArmIdleTimer e (mod_io Client (\<lambda>io. io\<lparr>si_reading := False\<rparr>) s)"
  define s2 where "s2 = (QueueClientSendRaw e [kVersion, AuthMethod_UsernamePassword] (s1\<lparr>ss_ingest := []\<rparr>))\<lparr>ss_state := Auth\<rparr>"
  have s1: "ss_state s1 = Handshake" "ss_ingest s1 = []" "\<not> ss_closed s1" "\<not> ss_gssProtectActive s1"
    using s env(3) by (simp_all add: s1_def)
  have s2: "ss_state s2 = Auth" "ss_ingest s2 = []" "\<not> ss_closed s2" "\<not> ss_gssProtectActive s2"
    using s1 env(3) by (simp_all add: s2_def)
  have "process_buffer e (s1\<lparr>ss_ingest := [5, 1, 2]\<rparr>) = (True, s2)"
    using s1 env by (simp add: process_buffer_def ProcessHandshakeBuffer_def select_method_def s2_def Let_def)
  moreover have "protocol_loop e s2 = (True, s2)"
    using s2 by (subst protocol_loop.simps) (simp add: process_buffer_def ProcessAuthBuffer_def)
  ultimately have "protocol_loop e (s1\<lparr>ss_ingest := [5, 1, 2]\<rparr>) = (True, s2)"
    using s1 s2 by (subst protocol_loop.simps) (simp add: protocol_state_def)
  then show ?thesis
    using s s1 s2 env(3) by (simp add: OnClientRecv_def Let_def s1_def [symmetric] protocol_state_def)
qed

theorem session_requires_password_witness:
  "sublist (auth_message ''u'' ''pw'') (received [SvClientRecv [5, 1, 2] False, SvClientRecv (auth_message ''u'' ''pw'') False])"
proof -
  let ?new = "new_Socks5Session password_env (AddrIn 40000 [10, 0, 0, 2]) (AddrIn 1080 [10, 0, 0, 1]) True"
  let ?s1 = "OnIoCompleted password_env SvStart ?new"
  let ?evs = "[SvClientRecv [5, 1, 2] False, SvClientRecv (auth_message ''u'' ''pw'') False]"
  have cfg: "HasCredentials (se_cfg password_env)" "\<not> EnableGssapi (se_cfg password_env)"
    "Username (se_cfg password_env) = ''u''" "Password (se_cfg password_env) = ''pw''" "se_ok password_env = (\<lambda>n. True)"
    by (simp_all add: password_env_def sample_session_env_def default_netcfg_def HasCredentials_def)
  have "ss_state ?s1 = Handshake" "ss_ingest ?s1 = []" "\<not> ss_closed ?s1" "\<not> ss_gssProtectActive ?s1"
    by (rule started [OF cfg(5)])+
  note s2 = handshake_step [OF cfg(1,2,5) this, unfolded Let_def]
  have "ss_state (session_run password_env (SvStart # ?evs) ?new) = Request"
    using auth_accepts [of password_env "OnIoCompleted password_env (SvClientRecv [5, 1, 2] False) ?s1"] s2 cfg
    by (simp add: session_run_def del: OnIoCompleted.simps)
  then have "authed (ss_state (session_run password_env (SvStart # ?evs) ?new))" by (simp add: authed_def)
  with cfg show ?thesis using session_requires_password [of password_env ?evs] by simp
qed

end
