(* ===== verification/SessionRelay.thy ===== *)
theory SessionRelay
  imports SessionAuth
begin

text \<open>
  The relay phase of the session.  The send queue of a stream is a queue of bytes: the locale \<open>send_stream\<close>
  states what its users rely on, and \<open>StreamIo\<close> with \<^verbatim>\<open>push_back\<close> and the pop of the send completions is an instance.
  From it follow the two results on a relaying session: without GSS-API, every byte received on one side is handed to the
  other side once and in order; and, with GSS-API or without, the back pressure stops the reads of one side while 32 buffers wait
  on the other, so that a queue exceeds the limit only by what the last receive before that was cut into.
\<close>


section \<open>A queue of bytes\<close>

locale send_stream =
  fixes pending :: "'q \<Rightarrow> bytes"
    and front :: "'q \<Rightarrow> bytes"
    and push :: "bytes \<Rightarrow> 'q \<Rightarrow> 'q"
    and ack :: "nat \<Rightarrow> 'q \<Rightarrow> 'q"
    and ok :: "'q \<Rightarrow> bool"
  assumes push_pending: "ok q \<Longrightarrow> pending (push d q) = pending q @ d"
    and push_ok: "ok q \<Longrightarrow> ok (push d q)"
    and front_first: "ok q \<Longrightarrow> \<exists>rest. pending q = front q @ rest"
    and ack_pending: "ok q \<Longrightarrow> n \<le> length (front q) \<Longrightarrow> pending (ack n q) = drop n (pending q)"
    and ack_ok: "ok q \<Longrightarrow> n \<le> length (front q) \<Longrightarrow> ok (ack n q)"
begin

lemma ack_delivers: "ok q \<Longrightarrow> n \<le> length (front q) \<Longrightarrow> take n (front q) @ pending (ack n q) = pending q"
  using front_first [of q] ack_pending [of q n] by (metis append_take_drop_id take_append diff_is_0_eq take_0 append_Nil2)

end

definition unsent :: "StreamIo \<Rightarrow> bytes" where
  "unsent io = drop (si_sendFrontOffset io) (concat (si_sendQueue io))"

definition front_bytes :: "StreamIo \<Rightarrow> bytes" where
  "front_bytes io = (case si_sendQueue io of [] \<Rightarrow> [] | d # q \<Rightarrow> drop (si_sendFrontOffset io) d)"

definition push_back :: "bytes \<Rightarrow> StreamIo \<Rightarrow> StreamIo" where
  "push_back d io = io\<lparr>si_sendQueue := si_sendQueue io @ [d]\<rparr>"

definition io_ok :: "StreamIo \<Rightarrow> bool" where
  "io_ok io \<longleftrightarrow> (case si_sendQueue io of [] \<Rightarrow> si_sendFrontOffset io = 0 | d # q \<Rightarrow> si_sendFrontOffset io \<le> length d)"

lemma io_ok_offset: "io_ok io \<Longrightarrow> si_sendFrontOffset io \<le> length (concat (si_sendQueue io))"
  by (cases "si_sendQueue io") (auto simp: io_ok_def)

interpretation stream: send_stream unsent front_bytes push_back pop_sent io_ok
proof (unfold_locales, goal_cases)
  case (1 q d)
  then show ?case using io_ok_offset [OF 1] by (simp add: unsent_def push_back_def)
next
  case (2 q d)
  then show ?case by (cases "si_sendQueue q") (auto simp: io_ok_def push_back_def)
next
  case (3 q)
  then show ?case by (cases "si_sendQueue q") (auto simp: io_ok_def unsent_def front_bytes_def)
next
  case (4 q n)
  show ?case
  proof (cases "si_sendQueue q")
    case (Cons d r)
    with 4 have "si_sendFrontOffset q \<le> length d" "n \<le> length d - si_sendFrontOffset q"
      by (auto simp: io_ok_def front_bytes_def)
    then show ?thesis
      using Cons by (auto simp: unsent_def pop_sent_def Let_def) (simp add: add.commute)
  qed (use 4 in \<open>auto simp: unsent_def pop_sent_def io_ok_def front_bytes_def\<close>)
next
  case (5 q n)
  then show ?case
    by (cases "si_sendQueue q"; cases "tl (si_sendQueue q)") (auto simp: io_ok_def pop_sent_def front_bytes_def Let_def)
qed

section \<open>Which operations touch a send queue\<close>

named_theorems queue_frame "operations that leave the send queues alone"

definition queue_of :: "StreamTag \<Rightarrow> session \<Rightarrow> bytes list \<times> nat" where
  "queue_of t s = (si_sendQueue (get_io t s), si_sendFrontOffset (get_io t s))"

lemma get_io_simps: "get_io t s = (case t of Client \<Rightarrow> ss_clientIo s | Dest \<Rightarrow> ss_destIo s)"
  by (cases t) simp_all

lemma queue_of_flags [queue_frame, simp]:
  "queue_of t (mod_io t' (\<lambda>io. io\<lparr>si_sending := b\<rparr>) s) = queue_of t s"
  "queue_of t (mod_io t' (\<lambda>io. io\<lparr>si_reading := b\<rparr>) s) = queue_of t s"
  "queue_of t (mod_io t' (\<lambda>io. io\<lparr>si_peerClosed := b\<rparr>) s) = queue_of t s"
  "queue_of t (mod_io t' (\<lambda>io. io\<lparr>si_relayReadPaused := b\<rparr>) s) = queue_of t s"
  by (cases "t' = t"; simp add: queue_of_def)+

lemma queue_of_frame [queue_frame, simp]:
  "queue_of t (session_emit as s) = queue_of t s" "queue_of t (snd (session_call e s)) = queue_of t s"
  "queue_of t (CancelIdleTimer s) = queue_of t s" "queue_of t (CancelConnectTimer s) = queue_of t s"
  "queue_of t (s\<lparr>ss_idleTimerId := n\<rparr>) = queue_of t s" "queue_of t (s\<lparr>ss_connectTimerId := n\<rparr>) = queue_of t s"
  "queue_of t (s\<lparr>ss_dnsResult := r\<rparr>) = queue_of t s" "queue_of t (s\<lparr>ss_gssapi := g\<rparr>) = queue_of t s"
  "queue_of t (s\<lparr>ss_ingest := i\<rparr>) = queue_of t s"
  by (simp_all add: queue_of_def get_io_simps split: StreamTag.split)

lemma queue_of_Close [queue_frame, simp]: "queue_of t (Close s) = queue_of t s"
  by (simp add: Close_def Let_def queue_of_def get_io_simps split: StreamTag.split)

lemma queue_of_PumpSend [queue_frame, simp]: "queue_of t (PumpSend e t' s) = queue_of t s"
  by (simp add: PumpSend_def Let_def split_def)

lemma queue_of_reads [queue_frame, simp]:
  "queue_of t (snd (TryPostRelayRead e t' s)) = queue_of t s" "queue_of t (MaybeResumeRelayRead e t' s) = queue_of t s"
  "queue_of t (snd (BeginClientRead e s)) = queue_of t s"
  by (simp_all add: TryPostRelayRead_def MaybeResumeRelayRead_def BeginClientRead_def Let_def split_def)

lemma unsent_queue: "queue_of t s' = queue_of t s \<Longrightarrow> unsent (get_io t s') = unsent (get_io t s)"
  by (simp add: queue_of_def unsent_def)

lemma io_ok_queue: "queue_of t s' = queue_of t s \<Longrightarrow> io_ok (get_io t s') = io_ok (get_io t s)"
  by (simp add: queue_of_def io_ok_def cong: list.case_cong)

definition queue_send :: "session_env \<Rightarrow> StreamTag \<Rightarrow> bytes \<Rightarrow> session \<Rightarrow> session" where
  "queue_send e t d s = PumpSend e t (mod_io t (push_back d) s)"

lemma queue_send_simps: "QueueClientSendRaw e d s = queue_send e Client d s" "QueueDestSend e d s = queue_send e Dest d s"
  by (simp_all add: QueueClientSendRaw_def QueueDestSend_def queue_send_def push_back_def [abs_def])

lemma queue_send_other [simp]: "t' \<noteq> t \<Longrightarrow> queue_of t (queue_send e t' d s) = queue_of t s"
  by (simp add: queue_send_def) (simp add: queue_of_def)

lemma queue_send_unsent:
  assumes "io_ok (get_io t s)"
  shows "unsent (get_io t (queue_send e t d s)) = unsent (get_io t s) @ d" and "io_ok (get_io t (queue_send e t d s))"
proof -
  have q: "queue_of t (queue_send e t d s) = queue_of t (mod_io t (push_back d) s)" by (simp add: queue_send_def)
  show "unsent (get_io t (queue_send e t d s)) = unsent (get_io t s) @ d"
    using unsent_queue [OF q] stream.push_pending [OF assms, of d] by simp
  show "io_ok (get_io t (queue_send e t d s))"
    using io_ok_queue [OF q] stream.push_ok [OF assms, of d] by simp
qed


section \<open>A relaying session\<close>

text \<open>What an event brings for the stream \<open>t\<close>, and how much of it it acknowledges.\<close>

fun arrival :: "StreamTag \<Rightarrow> session_event \<Rightarrow> bytes" where
  "arrival Dest (SvClientRecv d err) = (if err then [] else d)"
| "arrival Client (SvDestRecv d err) = (if err then [] else d)"
| "arrival _ _ = []"

fun acknowledged :: "StreamTag \<Rightarrow> session_event \<Rightarrow> nat" where
  "acknowledged Dest (SvDestSend n err) = (if err then 0 else n)"
| "acknowledged Client (SvClientSend n err) = (if err then 0 else n)"
| "acknowledged _ _ = 0"

text \<open>A completion belongs to an operation that was posted, and a send does not report more than it was given.\<close>

fun honest :: "session_event \<Rightarrow> session \<Rightarrow> bool" where
  "honest (SvClientRecv d err) s = si_reading (ss_clientIo s)"
| "honest (SvDestRecv d err) s = si_reading (ss_destIo s)"
| "honest (SvClientSend n err) s = (si_sending (ss_clientIo s) \<and> n \<le> length (front_bytes (ss_clientIo s)))"
| "honest (SvDestSend n err) s = (si_sending (ss_destIo s) \<and> n \<le> length (front_bytes (ss_destIo s)))"
| "honest SvStart s = False"
| "honest _ s = True"

definition relaying :: "session \<Rightarrow> bool" where
  "relaying s \<longleftrightarrow> ss_state s = Relaying \<and> \<not> ss_gssProtectActive s \<and> io_ok (ss_clientIo s) \<and> io_ok (ss_destIo s)"

lemma relaying_state: "relaying s \<Longrightarrow> ss_state s = Relaying"
  by (simp add: relaying_def)

lemma relaying_io: "relaying s \<Longrightarrow> io_ok (get_io t s)"
  by (cases t) (simp_all add: relaying_def)

text \<open>What one event does to a relaying session: it keeps the queues, appends a chunk to one of them, or takes
  the acknowledged bytes off one of them.\<close>

lemma relay_data_cases:
  assumes "relaying s" and "\<not> ss_closed s"
  shows "OnIoCompleted e (SvClientRecv d False) s =
      (let s0 = mod_io Client (\<lambda>io. io\<lparr>si_reading := False\<rparr>) s
       in if d = [] then OnClientRecv e [] False s0 else snd (TryPostRelayRead e Client (queue_send e Dest d s0)))"
    and "OnIoCompleted e (SvDestRecv d False) s =
      (let s0 = mod_io Dest (\<lambda>io. io\<lparr>si_reading := False\<rparr>) s
       in if d = [] then OnDestRecv e [] False s0 else snd (TryPostRelayRead e Dest (queue_send e Client d s0)))"
  using assms
  by (auto simp: relaying_def OnClientRecv_def OnDestRecv_def OnRelayData_def Let_def queue_send_simps protocol_state_def)

lemma relay_eof_queue:
  assumes "ss_state s = Relaying" and "err \<or> d = []"
  shows "queue_of t (OnClientRecv e d err s) = queue_of t s" and "queue_of t (OnDestRecv e d err s) = queue_of t s"
  using assms by (auto simp: OnClientRecv_def OnDestRecv_def Let_def)

fun carries_data :: "session_event \<Rightarrow> bool" where
  "carries_data (SvClientRecv d err) = (\<not> err \<and> d \<noteq> [])"
| "carries_data (SvDestRecv d err) = (\<not> err \<and> d \<noteq> [])"
| "carries_data (SvClientSend n err) = (\<not> err)"
| "carries_data (SvDestSend n err) = (\<not> err)"
| "carries_data _ = False"

lemma relay_idle_queue:
  assumes "ss_state s = Relaying" and "\<not> ss_closed s" and "\<not> carries_data ev" and "ev \<noteq> SvStart"
  shows "queue_of t (OnIoCompleted e ev s) = queue_of t s"
proof (cases ev)
  case (SvClientRecv d err)
  let ?s0 = "mod_io Client (\<lambda>io. io\<lparr>si_reading := False\<rparr>) s"
  have "ss_state ?s0 = Relaying" using assms(1) by simp
  with SvClientRecv assms show ?thesis using relay_eof_queue(1) [of ?s0 err d t e] by (simp add: Let_def)
next
  case (SvDestRecv d err)
  let ?s0 = "mod_io Dest (\<lambda>io. io\<lparr>si_reading := False\<rparr>) s"
  have "ss_state ?s0 = Relaying" using assms(1) by simp
  with SvDestRecv assms show ?thesis using relay_eof_queue(2) [of ?s0 err d t e] by (simp add: Let_def)
qed (use assms in \<open>auto simp: OnDnsAnswer_def OnDnsResolved_def OnUdpRelayStopped_def OnTimer_def
    OnDestConnect_def OnClientSend_def OnDestSend_def Let_def split_def\<close>)

lemma protect_frame [simp]:
  "ss_gssProtectActive (snd (TryPostRelayRead e t s)) = ss_gssProtectActive s"
  "ss_gssProtectActive (queue_send e t d s) = ss_gssProtectActive s"
  using proto_eqD [of "snd (TryPostRelayRead e t s)" s] proto_eqD [of "queue_send e t d s" s] by (simp_all add: queue_send_def)

lemma relay_state_keeps:
  assumes st: "ss_state s = Relaying" and ns: "ev \<noteq> SvStart"
  shows "ss_state (OnIoCompleted e ev s) = Relaying" and "ss_gssProtectActive (OnIoCompleted e ev s) = ss_gssProtectActive s"
proof -
  show "ss_state (OnIoCompleted e ev s) = Relaying"
    using path_ends [OF path_step [OF ns, of s e]] st by simp
  show "ss_gssProtectActive (OnIoCompleted e ev s) = ss_gssProtectActive s"
  proof (cases "\<exists>d err. ev = SvClientRecv d err")
    case True
    then obtain d err where ev: "ev = SvClientRecv d err" by blast
    have "ss_gssProtectActive (OnClientRecv e d err s0) = ss_gssProtectActive s0" if "ss_state s0 = Relaying" for s0
      using that by (simp add: OnClientRecv_def OnRelayData_def Let_def split_def protocol_state_def queue_send_simps)
    then show ?thesis using st by (simp add: ev Let_def)
  next
    case False
    then have "quiet s (OnIoCompleted e ev s)" using ns by (intro quiet_step) auto
    then show ?thesis by (simp add: quiet_def)
  qed
qed

lemma ack_step:
  assumes ok: "io_ok (get_io t s)" and n: "n \<le> length (front_bytes (get_io t s))"
    and q: "queue_of t s' = queue_of t (mod_io t (pop_sent n) s)"
  shows "take n (front_bytes (get_io t s)) @ unsent (get_io t s') = unsent (get_io t s) \<and> io_ok (get_io t s')"
  using unsent_queue [OF q] io_ok_queue [OF q] stream.ack_delivers [OF ok n] stream.ack_ok [OF ok n] by simp

lemma queue_of_pop_other [simp]: "t' \<noteq> t \<Longrightarrow> queue_of t (mod_io t' (pop_sent n) s) = queue_of t s"
  by (simp add: queue_of_def)

lemma queue_of_pop_sending: "queue_of t (mod_io t (pop_sent n) (mod_io t (\<lambda>io. io\<lparr>si_sending := b\<rparr>) s)) = queue_of t (mod_io t (pop_sent n) s)"
  by (simp add: queue_of_def pop_sent_def Let_def split: list.split)

lemma relay_send_queue:
  "queue_of t (OnClientSend e n False s) = (if t = Client then queue_of t (mod_io t (pop_sent n) s) else queue_of t s)"
  "queue_of t (OnDestSend e n False s) = (if t = Dest then queue_of t (mod_io t (pop_sent n) s) else queue_of t s)"
  using queue_of_pop_sending [of t n False s]
  by (auto simp: OnClientSend_def OnDestSend_def Let_def)

lemma relay_step:
  assumes rel: "relaying s" and hon: "honest ev s" and op: "\<not> ss_closed s"
  shows "take (acknowledged t ev) (front_bytes (get_io t s)) @ unsent (get_io t (OnIoCompleted e ev s)) =
      unsent (get_io t s) @ arrival t ev \<and> io_ok (get_io t (OnIoCompleted e ev s))"
proof (cases "carries_data ev")
  case False
  have "ev \<noteq> SvStart" using hon by (cases ev) auto
  note q = relay_idle_queue [OF relaying_state [OF rel] op False this, of t e]
  have "acknowledged t ev = 0" "arrival t ev = []" using False by (cases t; cases ev; auto)+
  then show ?thesis using relaying_io [OF rel, of t] unsent_queue [OF q] io_ok_queue [OF q] by (simp del: OnIoCompleted.simps)
next
  case True
  note io = relaying_io [OF rel]
  show ?thesis
  proof (cases ev)
    case (SvClientRecv d err)
    let ?s0 = "mod_io Client (\<lambda>io. io\<lparr>si_reading := False\<rparr>) s"
    have q: "queue_of t (OnIoCompleted e ev s) = queue_of t (queue_send e Dest d ?s0)"
      using True relay_data_cases(1) [OF rel op, of e d] by (simp add: SvClientRecv Let_def del: OnIoCompleted.simps)
    have ok0: "io_ok (get_io Dest ?s0)" "unsent (get_io Dest ?s0) = unsent (get_io Dest s)"
      using io [of Dest] io_ok_queue [of Dest ?s0 s] unsent_queue [of Dest ?s0 s] by auto
    show ?thesis
    proof (cases t)
      case Dest
      then show ?thesis
        using queue_send_unsent [OF ok0(1), of e d] ok0(2) unsent_queue [OF q] io_ok_queue [OF q] True
        by (simp add: SvClientRecv del: OnIoCompleted.simps)
    next
      case Client
      then have q': "queue_of t (OnIoCompleted e ev s) = queue_of t s" using q by simp
      show ?thesis using Client io [of t] unsent_queue [OF q'] io_ok_queue [OF q']
        by (simp add: SvClientRecv del: OnIoCompleted.simps get_io.simps)
    qed
  next
    case (SvDestRecv d err)
    let ?s0 = "mod_io Dest (\<lambda>io. io\<lparr>si_reading := False\<rparr>) s"
    have q: "queue_of t (OnIoCompleted e ev s) = queue_of t (queue_send e Client d ?s0)"
      using True relay_data_cases(2) [OF rel op, of e d] by (simp add: SvDestRecv Let_def del: OnIoCompleted.simps)
    have ok0: "io_ok (get_io Client ?s0)" "unsent (get_io Client ?s0) = unsent (get_io Client s)"
      using io [of Client] io_ok_queue [of Client ?s0 s] unsent_queue [of Client ?s0 s] by auto
    show ?thesis
    proof (cases t)
      case Client
      then show ?thesis
        using queue_send_unsent [OF ok0(1), of e d] ok0(2) unsent_queue [OF q] io_ok_queue [OF q] True
        by (simp add: SvDestRecv del: OnIoCompleted.simps)
    next
      case Dest
      then have q': "queue_of t (OnIoCompleted e ev s) = queue_of t s" using q by simp
      show ?thesis using Dest io [of t] unsent_queue [OF q'] io_ok_queue [OF q']
        by (simp add: SvDestRecv del: OnIoCompleted.simps get_io.simps)
    qed
  next
    case (SvClientSend n err)
    then have "OnIoCompleted e ev s = OnClientSend e n False s" using True op by simp
    then show ?thesis
      using ack_step [OF io [of Client], of n "OnClientSend e n False s"] relay_send_queue(1) [of t e n s] hon SvClientSend True io [of Dest]
        unsent_queue [of Dest "OnClientSend e n False s" s] io_ok_queue [of Dest "OnClientSend e n False s" s]
      by (cases t) (simp_all del: OnIoCompleted.simps)
  next
    case (SvDestSend n err)
    then have "OnIoCompleted e ev s = OnDestSend e n False s" using True op by simp
    then show ?thesis
      using ack_step [OF io [of Dest], of n "OnDestSend e n False s"] relay_send_queue(2) [of t e n s] hon SvDestSend True io [of Client]
        unsent_queue [of Client "OnDestSend e n False s" s] io_ok_queue [of Client "OnDestSend e n False s" s]
      by (cases t) (simp_all del: OnIoCompleted.simps)
  qed (use True in simp_all)
qed

fun honest_run :: "session_env \<Rightarrow> session_event list \<Rightarrow> session \<Rightarrow> bool" where
  "honest_run e [] s = True"
| "honest_run e (ev # evs) s = (honest ev s \<and> honest_run e evs (OnIoCompleted e ev s))"

text \<open>The bytes of the stream \<open>t\<close> that the completions of a run acknowledge.\<close>

fun delivered_bytes :: "session_env \<Rightarrow> StreamTag \<Rightarrow> session_event list \<Rightarrow> session \<Rightarrow> bytes" where
  "delivered_bytes e t [] s = []"
| "delivered_bytes e t (ev # evs) s =
     take (acknowledged t ev) (front_bytes (get_io t s)) @ delivered_bytes e t evs (OnIoCompleted e ev s)"

declare honest_run.simps(2) [simp del] delivered_bytes.simps(2) [simp del]

lemma honest_not_start: "honest ev s \<Longrightarrow> ev \<noteq> SvStart"
  by (cases ev) auto

lemma relaying_step:
  assumes "relaying s" and "honest ev s" and "\<not> ss_closed s"
  shows "relaying (OnIoCompleted e ev s)"
  using relay_state_keeps [OF relaying_state [OF assms(1)] honest_not_start [OF assms(2)], of e] assms(1)
    relay_step [OF assms, of Client e] relay_step [OF assms, of Dest e]
  by (simp add: relaying_def del: OnIoCompleted.simps)

lemma honest_run_starts: "honest_run e evs s \<Longrightarrow> SvStart \<notin> set evs"
  by (induction evs arbitrary: s) (auto simp: honest_run.simps(2) dest: honest_not_start)

lemma still_open:
  assumes "\<not> ss_closed (session_run e evs (OnIoCompleted e ev s))" and "honest_run e (ev # evs) s"
  shows "\<not> ss_closed s"
  using assms closed_step [of ev s e] closed_run_id [of "OnIoCompleted e ev s" evs e]
    honest_run_starts [of e evs] honest_not_start [of ev s]
  by (auto simp: honest_run.simps(2) simp del: OnIoCompleted.simps)

lemma relay_run:
  assumes "relaying s" and "honest_run e evs s" and "\<not> ss_closed (session_run e evs s)"
  shows "delivered_bytes e t evs s @ unsent (get_io t (session_run e evs s)) =
    unsent (get_io t s) @ concat (map (arrival t) evs)"
  using assms
proof (induction evs arbitrary: s)
  case (Cons ev evs)
  let ?s' = "OnIoCompleted e ev s"
  have run: "session_run e (ev # evs) s = session_run e evs ?s'" by (simp add: session_run_def del: OnIoCompleted.simps)
  have op: "\<not> ss_closed s" using still_open [of e evs ev s] Cons.prems run by simp
  have h: "honest ev s" "honest_run e evs ?s'" using Cons.prems(2) by (simp_all add: honest_run.simps(2))
  note step = relay_step [OF Cons.prems(1) h(1) op, of t e, THEN conjunct1]
  have "delivered_bytes e t evs ?s' @ unsent (get_io t (session_run e evs ?s')) = unsent (get_io t ?s') @ concat (map (arrival t) evs)"
    using Cons.IH [OF relaying_step [OF Cons.prems(1) h(1) op] h(2)] Cons.prems(3) run by simp
  with step show ?case by (metis run delivered_bytes.simps(2) append.assoc concat.simps(2) list.simps(9))
qed (simp add: session_run_def)

definition relay_sample :: session where
  "relay_sample = sample_session\<lparr>ss_state := Relaying, ss_dest := True, ss_clientIo := new_StreamIo\<lparr>si_reading := True\<rparr>,
     ss_destIo := new_StreamIo\<lparr>si_reading := True\<rparr>\<rparr>"




section \<open>Back pressure\<close>

text \<open>
  The number of buffers one receive can add to the queue of the stream \<open>t\<close>.  Without protection a receive is one buffer.  With it, a
  receive from the client is as many messages as its frames, of four bytes at least, fit the ingest buffer, and a receive of
  \<open>buf\<close> bytes from the destination is cut into parts of 16 KiB.
\<close>

definition relay_burst :: "nat \<Rightarrow> StreamTag \<Rightarrow> session \<Rightarrow> nat" where
  "relay_burst buf t s =
     (if \<not> ss_gssProtectActive s then 1
      else case t of Dest \<Rightarrow> kMaxProtocolBuffered div 4 | Client \<Rightarrow> (buf + (kGssRelayChunk - 1)) div kGssRelayChunk)"

abbreviation queue_depth :: "StreamTag \<Rightarrow> session \<Rightarrow> nat" where
  "queue_depth t s \<equiv> length (si_sendQueue (get_io t s))"

definition backed_off :: "nat \<Rightarrow> StreamTag \<Rightarrow> session \<Rightarrow> bool" where
  "backed_off buf t s \<longleftrightarrow> (si_reading (get_io (other_end t) s) \<longrightarrow> queue_depth t s < kMaxRelayQueueDepth) \<and>
     queue_depth t s < kMaxRelayQueueDepth + relay_burst buf t s"

fun fits :: "nat \<Rightarrow> session_event \<Rightarrow> bool" where
  "fits buf (SvClientRecv d err) = (length d \<le> buf)"
| "fits buf (SvDestRecv d err) = (length d \<le> buf)"
| "fits buf _ = True"

lemma get_io_Close [simp]: "get_io t (Close s) = get_io t s"
  by (simp add: Close_def Let_def get_io_simps split: StreamTag.split)

lemma reading_frame [simp]:
  "si_reading (get_io t (CancelConnectTimer s)) = si_reading (get_io t s)"
  "si_reading (get_io t (PumpSend e t' s)) = si_reading (get_io t s)"
  by (simp add: get_io_simps split: StreamTag.split) (cases "t' = t"; simp add: PumpSend_def Let_def split_def)

lemma reading_TryPost:
  "si_reading (get_io t (snd (TryPostRelayRead e t' s))) \<Longrightarrow>
     si_reading (get_io t s) \<or> (t' = t \<and> length (si_sendQueue (get_io (other_end t) s)) < kMaxRelayQueueDepth)"
  by (cases "t' = t") (auto simp: TryPostRelayRead_def Let_def split_def split: if_splits)

lemma reading_Resume:
  "si_reading (get_io t (MaybeResumeRelayRead e t' s)) \<Longrightarrow>
     si_reading (get_io t s) \<or> (t' = t \<and> length (si_sendQueue (get_io (other_end t) s)) < kMaxRelayQueueDepth)"
proof -
  have o: "get_io (other_end t) (mod_io t f s) = get_io (other_end t) s" for f by (cases t) simp_all
  assume "si_reading (get_io t (MaybeResumeRelayRead e t' s))"
  then show ?thesis
    using reading_TryPost [of t e t' "mod_io t' (\<lambda>io. io\<lparr>si_relayReadPaused := False\<rparr>) s"] o
    by (cases "t' = t") (auto simp: MaybeResumeRelayRead_def split: if_splits)
qed

lemma queue_length: "queue_of t s' = queue_of t s \<Longrightarrow> length (si_sendQueue (get_io t s')) = length (si_sendQueue (get_io t s))"
  by (simp add: queue_of_def)

lemma idle_reading:
  assumes "ss_state s = Relaying" and "\<not> ss_closed s" and "\<not> carries_data ev" and "ev \<noteq> SvStart"
  shows "si_reading (get_io t (OnIoCompleted e ev s)) \<Longrightarrow> si_reading (get_io t s)"
proof -
  have frame: "si_reading (get_io t (mod_io t' (\<lambda>io. io\<lparr>si_sending := b\<rparr>) s)) = si_reading (get_io t s)"
    "si_reading (get_io t (mod_io t' (\<lambda>io. io\<lparr>si_peerClosed := b\<rparr>) s)) = si_reading (get_io t s)"
    "si_reading (get_io t (mod_io t' (\<lambda>io. io\<lparr>si_reading := False\<rparr>) s)) \<Longrightarrow> si_reading (get_io t s)"
    "si_reading (get_io t (mod_io t' (\<lambda>io. io\<lparr>si_peerClosed := b\<rparr>) (mod_io t'' (\<lambda>io. io\<lparr>si_reading := False\<rparr>) s))) \<Longrightarrow> si_reading (get_io t s)"
    for t' t'' b by (cases "t' = t"; cases "t'' = t"; simp)+
  have upd: "get_io t (s\<lparr>ss_dnsResult := r\<rparr>) = get_io t s" "get_io t (s\<lparr>ss_idleTimerId := n\<rparr>) = get_io t s"
    "get_io t (s\<lparr>ss_connectTimerId := n\<rparr>) = get_io t s" for r n
    by (simp_all add: get_io_simps split: StreamTag.split)
  show "si_reading (get_io t (OnIoCompleted e ev s)) \<Longrightarrow> si_reading (get_io t s)"
    using assms frame upd
    by (cases ev) (auto simp: OnDnsAnswer_def OnDnsResolved_def OnUdpRelayStopped_def OnTimer_def
        OnDestConnect_def OnClientSend_def OnDestSend_def OnClientRecv_def OnDestRecv_def Let_def split_def split: if_splits)
qed

lemma send_reading:
  "si_reading (get_io t (OnClientSend e n False s)) \<Longrightarrow> si_reading (get_io t s) \<or>
     (t = Dest \<and> length (si_sendQueue (ss_clientIo (OnClientSend e n False s))) < kMaxRelayQueueDepth)"
  "si_reading (get_io t (OnDestSend e n False s)) \<Longrightarrow> si_reading (get_io t s) \<or>
     (t = Client \<and> length (si_sendQueue (ss_destIo (OnDestSend e n False s))) < kMaxRelayQueueDepth)"
proof -
  have pop: "si_reading (get_io t (mod_io t' (pop_sent n) (mod_io t' (\<lambda>io. io\<lparr>si_sending := False\<rparr>) s))) = si_reading (get_io t s)" for t'
    by (cases "t' = t") (auto simp: pop_sent_def Let_def split: list.split)
  define c where "c = PumpSend e Client (mod_io Client (pop_sent n) (mod_io Client (\<lambda>io. io\<lparr>si_sending := False\<rparr>) s))"
  define d where "d = PumpSend e Dest (mod_io Dest (pop_sent n) (mod_io Dest (\<lambda>io. io\<lparr>si_sending := False\<rparr>) s))"
  have r: "si_reading (get_io t c) = si_reading (get_io t s)" "si_reading (get_io t d) = si_reading (get_io t s)"
    by (simp_all add: c_def d_def pop)
  have qc: "queue_of Client (OnClientSend e n False s) = queue_of Client c" and qd: "queue_of Dest (OnDestSend e n False s) = queue_of Dest d"
    by (simp_all add: OnClientSend_def OnDestSend_def Let_def c_def d_def)
  { assume "si_reading (get_io t (OnClientSend e n False s))"
    then have "si_reading (get_io t (Close c)) \<or> si_reading (get_io t (MaybeResumeRelayRead e Dest c))"
      by (auto simp: OnClientSend_def Let_def c_def [symmetric] split: if_splits)
    then show "si_reading (get_io t s) \<or> (t = Dest \<and> length (si_sendQueue (ss_clientIo (OnClientSend e n False s))) < kMaxRelayQueueDepth)"
      using reading_Resume [of t e Dest c] queue_length [OF qc] r by auto }
  { assume "si_reading (get_io t (OnDestSend e n False s))"
    then have "si_reading (get_io t (MaybeResumeRelayRead e Client d))"
      by (simp add: OnDestSend_def Let_def d_def [symmetric])
    then show "si_reading (get_io t s) \<or> (t = Client \<and> length (si_sendQueue (ss_destIo (OnDestSend e n False s))) < kMaxRelayQueueDepth)"
      using reading_Resume [of t e Client d] queue_length [OF qd] r by auto }
qed

lemma pop_sent_length: "length (si_sendQueue (pop_sent n io)) \<le> length (si_sendQueue io)"
  by (simp add: pop_sent_def Let_def split: list.split)

lemma backed_off_mono:
  assumes "backed_off buf t s" and "ss_gssProtectActive s' = ss_gssProtectActive s" and "queue_depth t s' \<le> queue_depth t s"
    and "si_reading (get_io (other_end t) s') \<Longrightarrow>
      si_reading (get_io (other_end t) s) \<or> queue_depth t s' < kMaxRelayQueueDepth"
  shows "backed_off buf t s'"
  using assms by (auto simp: backed_off_def relay_burst_def)

text \<open>Handing on what was received: buffers are added to one queue, and nothing else of the streams that matters here changes.\<close>

definition fills :: "StreamTag \<Rightarrow> nat \<Rightarrow> session \<Rightarrow> session \<Rightarrow> bool" where
  "fills t n s s' \<longleftrightarrow> (\<forall>u. si_reading (get_io u s') = si_reading (get_io u s)) \<and>
     queue_of (other_end t) s' = queue_of (other_end t) s \<and> queue_depth t s' \<le> queue_depth t s + n"

lemma fills_refl: "(\<And>u. get_io u s' = get_io u s) \<Longrightarrow> fills t n s s'"
  by (simp add: fills_def queue_of_def)

lemma fills_trans: "fills t n s s' \<Longrightarrow> fills t m s' s'' \<Longrightarrow> n + m \<le> k \<Longrightarrow> fills t k s s''"
  by (fastforce simp: fills_def)

lemma fills_mono: "fills t n s s' \<Longrightarrow> n \<le> k \<Longrightarrow> fills t k s s'"
  by (auto simp: fills_def)

lemma fills_queue_send: "fills t 1 s (queue_send e t d s)"
proof -
  have o: "t \<noteq> other_end t" by (cases t) simp_all
  have "si_reading (get_io u (mod_io t (push_back d) s)) = si_reading (get_io u s)" for u
    by (cases "u = t") (simp_all add: push_back_def)
  moreover have "queue_of t (queue_send e t d s) = queue_of t (mod_io t (push_back d) s)" by (simp add: queue_send_def)
  ultimately show ?thesis
    using queue_send_other [OF o] queue_length [of t "queue_send e t d s" "mod_io t (push_back d) s"]
    by (simp add: fills_def queue_send_def push_back_def)
qed

lemma get_io_gss [simp]: "get_io u (s\<lparr>ss_gssapi := g\<rparr>) = get_io u s" "get_io u (s\<lparr>ss_ingest := i\<rparr>) = get_io u s"
  by (cases u; simp)+

lemma fills_Wrap: "fills Client 1 s (snd (WrapAndQueueClient e d s))"
proof -
  have "fills Client 1 s (queue_send e Client x (s\<lparr>ss_gssapi := g\<rparr>))" for x g
    by (rule fills_trans [OF fills_refl fills_queue_send]) simp_all
  then show ?thesis
    by (auto simp: WrapAndQueueClient_def SendGssFrame_def queue_send_simps Let_def fills_refl split: option.split prod.split)
qed

lemma fills_wrap_all: "fills Client (length parts) s (snd (wrap_all e parts s))"
proof (induction parts arbitrary: s)
  case (Cons p parts)
  obtain ok s1 where w: "WrapAndQueueClient e p s = (ok, s1)" by fastforce
  then have f: "fills Client 1 s s1" using fills_Wrap [of s e p] by simp
  show ?case using fills_trans [OF f Cons.IH] fills_mono [OF f] by (cases ok) (simp_all add: w)
qed (simp add: fills_refl)

lemma gss_chunks_length: "length (gss_chunks d) = (length d + (kGssRelayChunk - 1)) div kGssRelayChunk"
proof (induction d rule: gss_chunks.induct)
  case (1 d)
  show ?case
  proof (cases "d = []")
    case False
    then have "length (gss_chunks d) = Suc ((length d - kGssRelayChunk + (kGssRelayChunk - 1)) div kGssRelayChunk)"
      using 1 by (subst gss_chunks.simps) simp
    moreover have "Suc ((n - kGssRelayChunk + (kGssRelayChunk - 1)) div kGssRelayChunk) = (n + (kGssRelayChunk - 1)) div kGssRelayChunk"
      if "0 < n" for n :: nat
    proof (cases "n \<le> kGssRelayChunk")
      case True
      with that have "(n + (kGssRelayChunk - 1)) div kGssRelayChunk = 1" by (intro div_nat_eqI) simp_all
      with True show ?thesis by simp
    next
      case False
      then obtain k where "n = kGssRelayChunk + k" by (metis nat_le_linear le_Suc_ex)
      then show ?thesis by simp
    qed
    ultimately show ?thesis using False by simp
  qed (simp add: gss_chunks.simps)
qed

lemma TryReadGssFrame_takes: "TryReadGssFrame m ingest = (Frame t, rest) \<Longrightarrow> length rest + 4 \<le> length ingest"
  by (auto simp: TryReadGssFrame_def Let_def split: if_splits)

lemma fills_GssRelay: "fills Dest (length (ss_ingest s) div 4) s (snd (ProcessGssRelayInput e s))"
proof (induction e s rule: ProcessGssRelayInput.induct)
  case (1 e s)
  show ?case
  proof (cases "\<exists>token rest g clear g1. ss_ingest s \<noteq> [] \<and> ss_gssapi s = Some g \<and>
      TryReadGssFrame Gssapi_MsgEncapsulated (ss_ingest s) = (Frame token, rest) \<and> Unwrap (se_sspi e) token g = (Some clear, g1)")
    case False
    then show ?thesis
      by (subst ProcessGssRelayInput.simps) (auto intro!: fills_refl split: prod.split gss_read.split option.split)
  next
    case True
    then obtain token rest g clear g1 where step: "ss_ingest s \<noteq> []" "ss_gssapi s = Some g"
      "TryReadGssFrame Gssapi_MsgEncapsulated (ss_ingest s) = (Frame token, rest)" "Unwrap (se_sspi e) token g = (Some clear, g1)"
      by blast
    define s1 where "s1 = s\<lparr>ss_ingest := rest, ss_gssapi := Some g1\<rparr>"
    define s2 where "s2 = (if clear \<noteq> [] then QueueDestSend e clear s1 else s1)"
    have eq: "ProcessGssRelayInput e s = ProcessGssRelayInput e s2"
      using step by (simp add: ProcessGssRelayInput.simps [of e s] s1_def s2_def Let_def)
    have "fills Dest 1 s s1" by (rule fills_refl) (simp add: s1_def)
    moreover have "fills Dest 0 s s1" by (rule fills_refl) (simp add: s1_def)
    ultimately have "fills Dest 1 s s2"
      using fills_trans [OF _ fills_queue_send [of Dest s1 e clear]] by (simp add: s2_def queue_send_simps)
    moreover have "ss_ingest s2 = rest" by (simp add: s2_def s1_def)
    then have "fills Dest (length rest div 4) s2 (snd (ProcessGssRelayInput e s2))"
      using "1.IH" [OF step(1) step(3) [symmetric] refl step(2) step(4) [symmetric] refl s1_def] unfolding s2_def [symmetric] by simp
    ultimately show ?thesis
      unfolding eq by (rule fills_trans) (use TryReadGssFrame_takes [OF step(3)] in linarith)
  qed
qed

text \<open>A receive on the other end of \<open>t\<close> that adds no more than a burst, and then posts the next read where there is room, or closes.\<close>

lemma recv_backs_off:
  assumes calm: "\<And>u. backed_off buf u s" and reading: "si_reading (get_io (other_end t) s)"
    and f: "fills t (relay_burst buf t s) (mod_io (other_end t) (\<lambda>io. io\<lparr>si_reading := False\<rparr>) s) s1"
    and next_read: "s' = Close s1 \<or> s' = snd (TryPostRelayRead e (other_end t) s1)"
    and prot: "ss_gssProtectActive s' = ss_gssProtectActive s"
  shows "backed_off buf u s'"
proof -
  have o: "other_end (other_end t) = t" "other_end t \<noteq> t" "t \<noteq> other_end t" by (cases t; simp)+
  have q: "queue_of v s' = queue_of v s1" for v using next_read by auto
  have r1: "\<not> si_reading (get_io (other_end t) s1)" "si_reading (get_io t s1) = si_reading (get_io t s)"
    using f o by (auto simp: fills_def)
  have d1: "queue_depth (other_end t) s1 = queue_depth (other_end t) s"
    using f o by (auto simp: fills_def queue_of_def)
  have dt: "queue_depth t s1 \<le> queue_depth t s + relay_burst buf t s" using f o by (simp add: fills_def)
  have rd: "si_reading (get_io v s') \<Longrightarrow> si_reading (get_io v s1) \<or> (v = other_end t \<and> queue_depth t s1 < kMaxRelayQueueDepth)" for v
    using next_read reading_TryPost [of v e "other_end t" s1] o by auto
  show ?thesis
  proof (cases "u = t")
    case True
    have "queue_depth t s < kMaxRelayQueueDepth" using calm [of t] reading by (simp add: backed_off_def)
    then show ?thesis
      using dt rd [of "other_end t"] r1 queue_length [OF q] prot True by (auto simp: backed_off_def relay_burst_def)
  next
    case False
    then have u: "u = other_end t" by (cases u; cases t; simp)
    show ?thesis
      using backed_off_mono [OF calm [of u] prot] rd [of t] r1 d1 queue_length [OF q] o by (simp add: u)
  qed
qed

lemma burst_bounds:
  assumes "ss_gssProtectActive s"
  shows "length i \<le> kMaxProtocolBuffered \<Longrightarrow> length i div 4 \<le> relay_burst buf Dest s"
    and "length d \<le> buf \<Longrightarrow> length (gss_chunks d) \<le> relay_burst buf Client s"
  using assms by (auto simp: relay_burst_def gss_chunks_length intro!: div_le_mono)

lemma send_backs_off:
  assumes "backed_off buf t s"
  shows "backed_off buf t (OnClientSend e n False s)" and "backed_off buf t (OnDestSend e n False s)"
proof -
  have pop: "queue_depth t (mod_io t (pop_sent n) s) \<le> queue_depth t s" by (simp add: pop_sent_length)
  have "queue_depth t (OnClientSend e n False s) \<le> queue_depth t s" "queue_depth t (OnDestSend e n False s) \<le> queue_depth t s"
    using relay_send_queue [of t e n s] pop by (auto simp: queue_of_def split: if_splits)
  moreover have "t = Client \<longleftrightarrow> other_end t = Dest" "t = Dest \<longleftrightarrow> other_end t = Client" by (cases t; simp)+
  moreover have "ss_gssProtectActive (OnClientSend e n False s) = ss_gssProtectActive s"
    "ss_gssProtectActive (OnDestSend e n False s) = ss_gssProtectActive s"
    using proto_eqD [OF proto_sends(1) [of e n False s]] proto_eqD [OF proto_sends(2) [of e n False s]] by simp_all
  ultimately show "backed_off buf t (OnClientSend e n False s)" "backed_off buf t (OnDestSend e n False s)"
    using send_reading [of "other_end t" e n s] backed_off_mono [OF assms]
    by (auto simp: get_io_simps)
qed

lemma relay_recv_fills:
  assumes "ss_state s = Relaying" and "\<not> ss_closed s" and "d \<noteq> []" and "length d \<le> buf"
  shows "\<exists>s1. fills Dest (relay_burst buf Dest s) (mod_io Client (\<lambda>io. io\<lparr>si_reading := False\<rparr>) s) s1 \<and>
      (OnIoCompleted e (SvClientRecv d False) s = Close s1 \<or>
       OnIoCompleted e (SvClientRecv d False) s = snd (TryPostRelayRead e Client s1))" (is "\<exists>s1. ?C s1")
    and "\<exists>s1. fills Client (relay_burst buf Client s) (mod_io Dest (\<lambda>io. io\<lparr>si_reading := False\<rparr>) s) s1 \<and>
      (OnIoCompleted e (SvDestRecv d False) s = Close s1 \<or>
       OnIoCompleted e (SvDestRecv d False) s = snd (TryPostRelayRead e Dest s1))" (is "\<exists>s1. ?D s1")
proof -
  let ?c = "mod_io Client (\<lambda>io. io\<lparr>si_reading := False\<rparr>) s" and ?d = "mod_io Dest (\<lambda>io. io\<lparr>si_reading := False\<rparr>) s"
  have c: "OnIoCompleted e (SvClientRecv d False) s = OnRelayData e Client d ?c"
    and d: "OnIoCompleted e (SvDestRecv d False) s = OnRelayData e Dest d ?d"
    using assms by (simp_all add: OnClientRecv_def OnDestRecv_def protocol_state_def Let_def)
  show "\<exists>s1. ?C s1"
  proof (cases "ss_gssProtectActive s")
    case False
    then show ?thesis unfolding c
      by (intro exI [of _ "queue_send e Dest d ?c"]) (simp add: OnRelayData_def queue_send_simps relay_burst_def fills_queue_send [simplified])
  next
    case True
    let ?i = "?c\<lparr>ss_ingest := ss_ingest s @ d\<rparr>"
    show ?thesis
    proof (cases "length d > kMaxProtocolBuffered \<or> length (ss_ingest s) > kMaxProtocolBuffered - length d")
      case True
      with \<open>ss_gssProtectActive s\<close> show ?thesis unfolding c
        by (intro exI [of _ ?c]) (auto simp: OnRelayData_def fills_refl)
    next
      case False
      then have "length (ss_ingest ?i) div 4 \<le> relay_burst buf Dest s"
        by (intro burst_bounds(1) [OF True]) auto
      then have "fills Dest (relay_burst buf Dest s) ?i (snd (ProcessGssRelayInput e ?i))"
        by (rule fills_mono [OF fills_GssRelay])
      from fills_trans [OF fills_refl [of ?i ?c Dest 0] this] have "fills Dest (relay_burst buf Dest s) ?c (snd (ProcessGssRelayInput e ?i))"
        by simp
      with True False show ?thesis unfolding c
        by (intro exI [of _ "snd (ProcessGssRelayInput e ?i)"]) (simp add: OnRelayData_def Let_def split_def)
    qed
  qed
  show "\<exists>s1. ?D s1"
  proof (cases "ss_gssProtectActive s")
    case False
    then show ?thesis unfolding d
      by (intro exI [of _ "queue_send e Client d ?d"]) (simp add: OnRelayData_def queue_send_simps relay_burst_def fills_queue_send [simplified])
  next
    case True
    then show ?thesis unfolding d
      using fills_mono [OF fills_wrap_all burst_bounds(2) [OF True assms(4)], of ?d e]
      by (intro exI [of _ "snd (wrap_all e (gss_chunks d) ?d)"]) (simp add: OnRelayData_def Let_def split_def)
  qed
qed

lemma backed_off_step:
  assumes rel: "ss_state s = Relaying" and hon: "honest ev s" and op: "\<not> ss_closed s" and "fits buf ev"
    and calm: "\<And>u. backed_off buf u s"
  shows "backed_off buf t (OnIoCompleted e ev s)"
proof (cases "carries_data ev")
  case False
  note ns = honest_not_start [OF hon]
  show ?thesis
    using backed_off_mono [OF calm relay_state_keeps(2) [OF rel ns]] queue_length [OF relay_idle_queue [OF rel op False ns, of t e]]
      idle_reading [OF rel op False ns, of "other_end t" e] by simp
next
  case True
  note prot = relay_state_keeps(2) [OF rel honest_not_start [OF hon], of e]
  show ?thesis
  proof (cases ev)
    case (SvClientRecv d err)
    with True assms(4) have d: "d \<noteq> []" "length d \<le> buf" "\<not> err" by auto
    with relay_recv_fills(1) [OF rel op d(1,2), of e] obtain s1
      where "fills Dest (relay_burst buf Dest s) (mod_io Client (\<lambda>io. io\<lparr>si_reading := False\<rparr>) s) s1"
        "OnIoCompleted e ev s = Close s1 \<or> OnIoCompleted e ev s = snd (TryPostRelayRead e Client s1)"
      by (auto simp: SvClientRecv simp del: OnIoCompleted.simps)
    then show ?thesis using recv_backs_off [OF calm, of Dest s1 _ e t] hon prot by (simp add: SvClientRecv del: OnIoCompleted.simps)
  next
    case (SvDestRecv d err)
    with True assms(4) have d: "d \<noteq> []" "length d \<le> buf" "\<not> err" by auto
    with relay_recv_fills(2) [OF rel op d(1,2), of e] obtain s1
      where "fills Client (relay_burst buf Client s) (mod_io Dest (\<lambda>io. io\<lparr>si_reading := False\<rparr>) s) s1"
        "OnIoCompleted e ev s = Close s1 \<or> OnIoCompleted e ev s = snd (TryPostRelayRead e Dest s1)"
      by (auto simp: SvDestRecv simp del: OnIoCompleted.simps)
    then show ?thesis using recv_backs_off [OF calm, of Client s1 _ e t] hon prot by (simp add: SvDestRecv del: OnIoCompleted.simps)
  qed (use True op send_backs_off [OF calm] in auto)
qed

lemma backed_off_run:
  assumes "ss_state s = Relaying" and "honest_run e evs s" and "\<not> ss_closed (session_run e evs s)"
    and "list_all (fits buf) evs" and "\<And>u. backed_off buf u s"
  shows "backed_off buf t (session_run e evs s) \<and> ss_gssProtectActive (session_run e evs s) = ss_gssProtectActive s"
  using assms
proof (induction evs arbitrary: s)
  case (Cons ev evs)
  let ?s' = "OnIoCompleted e ev s"
  have run: "session_run e (ev # evs) s = session_run e evs ?s'" by (simp add: session_run_def del: OnIoCompleted.simps)
  have op: "\<not> ss_closed s" using still_open [of e evs ev s] Cons.prems run by simp
  have h: "honest ev s" "honest_run e evs ?s'" using Cons.prems(2) by (simp_all add: honest_run.simps(2))
  note keeps = relay_state_keeps [OF Cons.prems(1) honest_not_start [OF h(1)], of e]
  have "backed_off buf u ?s'" for u
    using backed_off_step [OF Cons.prems(1) h(1) op _ Cons.prems(5)] Cons.prems(4) by simp
  then show ?case using Cons.IH [OF keeps(1) h(2)] Cons.prems(3,4) run keeps(2) by simp
qed (simp add: session_run_def)

text \<open>A relay without protection starts with room for its first two reads.\<close>

lemma queue_of_state [simp]: "queue_of t (s\<lparr>ss_state := st\<rparr>) = queue_of t s"
  by (cases t) (simp_all add: queue_of_def)

lemma relay_starts_backed_off:
  assumes "\<not> ss_gssProtectActive s" and "queue_depth Client s < kMaxRelayQueueDepth" and "queue_depth Dest s < kMaxRelayQueueDepth - 1"
  shows "backed_off buf t (StartRelay e s)"
proof -
  define s1 where "s1 = CancelIdleTimer (s\<lparr>ss_state := Relaying\<rparr>)"
  define s2 where "s2 = (if ss_ingest s1 = [] then s1 else queue_send e Dest (ss_ingest s1) (s1\<lparr>ss_ingest := []\<rparr>))"
  have "\<not> ss_gssProtectActive s1" using assms(1) by (simp add: s1_def)
  then have q: "queue_of u (StartRelay e s) = queue_of u s2" for u
    by (auto simp: StartRelay_def s1_def [symmetric] s2_def Let_def split_def queue_send_simps)
  have "fills Dest 1 s1 s2"
    using fills_trans [OF fills_refl [of "s1\<lparr>ss_ingest := []\<rparr>" s1 Dest 0] fills_queue_send [of Dest _ e "ss_ingest s1"]]
    by (simp add: s2_def fills_refl)
  moreover have "queue_depth u s1 = queue_depth u s" for u by (rule queue_length) (simp add: s1_def)
  ultimately have "queue_depth Client s2 < kMaxRelayQueueDepth" "queue_depth Dest s2 < kMaxRelayQueueDepth"
    using assms(2,3) queue_length [of Client s2 s1] by (simp_all add: fills_def del: get_io.simps)
  then have "queue_depth u s2 < kMaxRelayQueueDepth" for u by (cases u) simp_all
  then show ?thesis using queue_length [OF q, of t] by (simp add: backed_off_def trans_less_add1)
qed


definition protected_sample :: session where
  "protected_sample = relay_sample\<lparr>ss_gssProtectActive := True,
     ss_gssapi := Some (new_GssapiContext\<lparr>gs_haveContext := True, gs_complete := True\<rparr>)\<rparr>"


end
