(* ===== verification/SessionProtocol.thy ===== *)
theory SessionProtocol
  imports SessionRelay
begin

text \<open>
  The messages of the session on the wire, its timers and its failures.  The locale \<open>framing\<close> states what it takes to cut a TCP
  byte stream into messages; the GSS-API frames and the request header are instances, so neither depends on how the
  stream is cut into receives.  Then the stale-timer rule, the socket options, the reply to a failed
  connection, and two behaviours that lose data or leave a session behind.
\<close>


section \<open>Messages in a byte stream\<close>

locale framing =
  fixes enc :: "'m \<Rightarrow> bytes"
    and dec :: "bytes \<Rightarrow> ('m \<times> bytes) option"
    and ok :: "'m \<Rightarrow> bool"
  assumes dec_enc: "ok m \<Longrightarrow> dec (enc m @ rest) = Some (m, rest)"
    and dec_partial: "ok m \<Longrightarrow> strict_prefix p (enc m) \<Longrightarrow> dec p = None"
begin

lemma enc_inject: "ok m \<Longrightarrow> ok m' \<Longrightarrow> enc m @ r = enc m' @ r' \<Longrightarrow> m = m' \<and> r = r'"
  by (metis dec_enc option.inject prod.inject)

text \<open>No message is the beginning of another one, so a reader never stops too early.\<close>

lemma prefix_free: "ok m \<Longrightarrow> ok m' \<Longrightarrow> \<not> strict_prefix (enc m) (enc m')"
  by (metis append_Nil2 dec_enc dec_partial option.distinct(1))

end

lemma word_bytes_length: "n < 65536 \<Longrightarrow> unat (be16 (hi8 (word_of_nat n)) (lo8 (word_of_nat n))) = n"
  by (simp add: unsigned_of_nat take_bit_nat_eq_self)

definition gss_dec :: "byte \<Rightarrow> bytes \<Rightarrow> (bytes \<times> bytes) option" where
  "gss_dec m i = (case TryReadGssFrame m i of (Frame t, rest) \<Rightarrow> Some (t, rest) | _ \<Rightarrow> None)"

lemma TryRead_frame:
  assumes "length t \<le> 65535" and "m \<noteq> Gssapi_MsgAbort"
  shows "TryReadGssFrame m (gss_frame m t @ rest) = (Frame t, rest)"
proof -
  have "drop (4 + length t) (a # b # c # d # t @ rest) = rest" for a b c d :: byte
    by (metis append_eq_conv_conj drop_drop drop_Suc_Cons drop0 add.commute numeral_Bit0 numeral_One one_add_one add_Suc_right plus_1_eq_Suc)
  then show ?thesis
    using assms word_bytes_length [of "length t"] by (simp add: TryReadGssFrame_def gss_frame_def Let_def)
qed

lemma TryRead_partial:
  assumes "length t \<le> 65535" and "m \<noteq> Gssapi_MsgAbort" and "strict_prefix p (gss_frame m t)"
  shows "TryReadGssFrame m p = (NeedMore, p)"
proof -
  obtain q where q: "gss_frame m t = p @ q" "q \<noteq> []" using assms(3) by (auto simp: strict_prefix_def prefix_def)
  have len: "length p < 4 + length t" using arg_cong [OF q(1), of length] q(2) by (cases q) (auto simp: gss_frame_def)
  have nth: "p ! i = gss_frame m t ! i" if "i < length p" for i using that by (simp add: q(1) nth_append)
  show ?thesis
  proof (cases "length p < 2")
    case False
    then have "0 < length p" "1 < length p" by linarith+
    then have 2: "p ! 0 = Gssapi_Version" "p ! 1 = m" using nth [of 0] nth [of 1] by (simp_all add: gss_frame_def)
    have 4: "unat (be16 (p ! 2) (p ! 3)) = length t" if "\<not> length p < 4"
      using that nth [of 2] nth [of 3] word_bytes_length [of "length t"] assms(1)
      by (simp add: gss_frame_def numeral_2_eq_2 numeral_3_eq_3)
    show ?thesis using 2 4 len assms(2) False by (simp add: TryReadGssFrame_def Let_def)
  qed (simp add: TryReadGssFrame_def)
qed

interpretation gss: framing "gss_frame Gssapi_MsgEncapsulated" "gss_dec Gssapi_MsgEncapsulated" "\<lambda>t. length t \<le> 65535"
proof (unfold_locales, goal_cases)
  case (1 m rest)
  then show ?case using TryRead_frame [of m Gssapi_MsgEncapsulated rest] by (simp add: gss_dec_def)
next
  case (2 m p)
  then show ?case using TryRead_partial [of m Gssapi_MsgEncapsulated p] by (simp add: gss_dec_def)
qed

text \<open>C16.  A GSS-API frame is read back as it was written, with the rest of the stream left for the next one, and as long as a
  part of the frame is missing the reader waits and consumes nothing, however the stream was cut into receives.\<close>

theorem gss_frame_roundtrip:
  assumes "length token \<le> 65535" and "mtyp \<noteq> Gssapi_MsgAbort"
  shows "TryReadGssFrame mtyp (gss_frame mtyp token @ rest) = (Frame token, rest) \<and>
    (strict_prefix part (gss_frame mtyp token) \<longrightarrow> TryReadGssFrame mtyp part = (NeedMore, part))"
  using TryRead_frame [OF assms] TryRead_partial [OF assms] by blast

theorem gss_frame_roundtrip_witness:
  "TryReadGssFrame 3 (gss_frame 3 [7, 8] @ [9]) = (Frame [7, 8], [9]) \<and> TryReadGssFrame 3 [1, 3, 0, 2, 7] = (NeedMore, [1, 3, 0, 2, 7])"
proof -
  have "strict_prefix [1, 3, 0, 2, 7] (gss_frame 3 [7, 8])" by (simp add: gss_frame_def strict_prefix_def hi8_def lo8_def)
  then show ?thesis using gss_frame_roundtrip [of "[7, 8]" 3 "[9]" "[1, 3, 0, 2, 7]"] by simp
qed


section \<open>The request\<close>

datatype req_addr = ReqIPv4 bytes | ReqIPv6 bytes | ReqDomain string

fun req_addr_ok :: "req_addr \<Rightarrow> bool" where
  "req_addr_ok (ReqIPv4 a) = (length a = 4)"
| "req_addr_ok (ReqIPv6 a) = (length a = 16)"
| "req_addr_ok (ReqDomain d) = (0 < length d \<and> length d < 256)"

fun req_addr_bytes :: "req_addr \<Rightarrow> bytes" where
  "req_addr_bytes (ReqIPv4 a) = AddressType_IPv4 # a"
| "req_addr_bytes (ReqIPv6 a) = AddressType_IPv6 # a"
| "req_addr_bytes (ReqDomain d) = AddressType_DomainName # word_of_nat (length d) # bytes_of_string d"

fun req_addr_text :: "winsock \<Rightarrow> req_addr \<Rightarrow> string" where
  "req_addr_text ws (ReqIPv4 a) = inet_ntop4 ws a"
| "req_addr_text ws (ReqIPv6 a) = inet_ntop6 ws a"
| "req_addr_text ws (ReqDomain d) = d"

definition request_msg :: "byte \<Rightarrow> req_addr \<Rightarrow> u16 \<Rightarrow> bytes" where
  "request_msg command a port = [kVersion, command, kReserved] @ req_addr_bytes a @ [hi8 port, lo8 port]"

lemma parse_request_msg:
  assumes "req_addr_ok a"
  shows "parse_request ws (request_msg command a port @ rest) =
    ReqOk command (req_addr_text ws a) port (length (request_msg command a port))"
proof (cases a)
  case (ReqIPv4 b)
  with assms obtain b0 b1 b2 b3 where "b = [b0, b1, b2, b3]" by (auto simp: length_Suc_conv eval_nat_numeral)
  with ReqIPv4 show ?thesis by (simp add: parse_request_def request_msg_def)
next
  case (ReqIPv6 b)
  with assms have b: "length b = 16" by simp
  have "(b @ hi8 port # lo8 port # rest) ! 16 = hi8 port" "(b @ hi8 port # lo8 port # rest) ! 17 = lo8 port"
    using b by (simp_all add: nth_append)
  with ReqIPv6 b show ?thesis by (simp add: parse_request_def request_msg_def)
next
  case (ReqDomain d)
  with assms have d: "0 < length d" "length d < 256" by auto
  then have l: "unat (word_of_nat (length d) :: byte) = length d" by (simp add: unat_of_nat_byte)
  have "(bytes_of_string d @ hi8 port # lo8 port # rest) ! length d = hi8 port"
    "(bytes_of_string d @ hi8 port # lo8 port # rest) ! Suc (length d) = lo8 port"
    by (simp_all add: nth_append)
  with ReqDomain d l show ?thesis by (simp add: parse_request_def request_msg_def)
qed

lemma parse_request_partial:
  assumes "req_addr_ok a" and "strict_prefix p (request_msg command a port)"
  shows "parse_request ws p = ReqMore"
proof -
  let ?m = "request_msg command a port"
  obtain q where q: "?m = p @ q" "q \<noteq> []" using assms(2) by (auto simp: strict_prefix_def prefix_def)
  have len: "length p < length ?m" using q by (cases q) auto
  have nth: "p ! i = ?m ! i" if "i < length p" for i using that by (simp add: q(1) nth_append)
  show ?thesis
  proof (cases "length p < 4")
    case False
    then have "0 < length p" "2 < length p" "3 < length p" by linarith+
    from nth [OF this(1)] nth [OF this(2)] nth [OF this(3)]
    have hd: "p ! 0 = kVersion" "p ! 2 = kReserved" "p ! 3 = hd (req_addr_bytes a)"
      by (cases a; simp add: request_msg_def eval_nat_numeral(2,3))+
    show ?thesis
    proof (cases a)
      case (ReqDomain d)
      have "unat (p ! 4) = length d" if "\<not> length p < 5"
        using that nth [of 4] ReqDomain assms(1) by (simp add: request_msg_def unat_of_nat_byte)
      then show ?thesis using hd False len ReqDomain assms(1) by (simp add: parse_request_def request_msg_def Let_def)
    qed (use hd False len assms(1) in \<open>auto simp: parse_request_def request_msg_def Let_def\<close>)
  qed (simp add: parse_request_def)
qed

definition request_enc :: "byte \<times> string \<times> u16 \<Rightarrow> bytes" where
  "request_enc r = (case r of (command, d, port) \<Rightarrow> request_msg command (ReqDomain d) port)"

definition request_dec :: "bytes \<Rightarrow> ((byte \<times> string \<times> u16) \<times> bytes) option" where
  "request_dec i = (case parse_request sample_ws i of ReqOk command d port n \<Rightarrow> Some ((command, d, port), drop n i) | _ \<Rightarrow> None)"

interpretation request: framing request_enc request_dec "\<lambda>(command, d, port). req_addr_ok (ReqDomain d)"
proof (unfold_locales, goal_cases)
  case (1 m rest)
  then obtain c d port where m: "m = (c, d, port)" "req_addr_ok (ReqDomain d)" by (cases m) auto
  show ?case using parse_request_msg [OF m(2), of sample_ws c port rest] by (simp add: m(1) request_dec_def request_enc_def)
next
  case (2 m p)
  then obtain c d port where m: "m = (c, d, port)" "req_addr_ok (ReqDomain d)" by (cases m) auto
  show ?case using 2(2) parse_request_partial [OF m(2), of p c port sample_ws] by (simp add: m(1) request_dec_def request_enc_def)
qed

text \<open>C22.  A request is understood whichever way it is written: for an IPv4 or IPv6 address and for a name of 1 to 255 bytes, the
  request header parses back to its command, address and port and takes exactly its own bytes, and a part of it is answered by
  waiting for the rest.\<close>

theorem request_roundtrip:
  assumes "req_addr_ok a"
  shows "parse_request ws (request_msg command a port @ rest) =
      ReqOk command (req_addr_text ws a) port (length (request_msg command a port)) \<and>
    (strict_prefix part (request_msg command a port) \<longrightarrow> parse_request ws part = ReqMore)"
  using parse_request_msg [OF assms] parse_request_partial [OF assms] by blast

theorem request_roundtrip_witness:
  "parse_request sample_ws ([5, 1, 0, 3, 1, 97, 0, 80] @ [9]) = ReqOk 1 ''a'' 80 8 \<and> parse_request sample_ws [5, 1, 0] = ReqMore"
proof -
  have m: "request_msg 1 (ReqDomain ''a'') 80 = [5, 1, 0, 3, 1, 97, 0, 80]"
    by (simp add: request_msg_def bytes_of_string_def byte_of_chr_def hi8_def lo8_def)
  then have "strict_prefix [5, 1, 0] (request_msg 1 (ReqDomain ''a'') 80)" by (simp add: strict_prefix_def)
  with m show ?thesis using request_roundtrip [of "ReqDomain ''a''" sample_ws 1 80 "[9]" "[5, 1, 0]"] by simp
qed


section \<open>Timers\<close>

lemma small_word_bits: "unat (w :: u64) < 2 ^ n \<Longrightarrow> bit w i \<Longrightarrow> i < n"
proof -
  assume "unat w < 2 ^ n" and i: "bit w i"
  then have "unat (take_bit n w) = unat w" by (simp add: unsigned_take_bit_eq take_bit_nat_eq_self)
  then have "take_bit n w = w" by (simp only: word_unat_eq_iff)
  with i show "i < n" by (metis bit_take_bit_iff)
qed

lemma timer_key_split:
  assumes "g < 2 ^ 56" and "k < 2 ^ 8"
  shows "drop_bit 8 (timer_key g k) = g" and "timer_key g k AND 0xFF = k"
proof -
  have g: "bit g n \<Longrightarrow> n < 56" and k: "bit k n \<Longrightarrow> n < 8" for n
    using small_word_bits [of g 56] small_word_bits [of k 8] assms by (simp_all add: word_less_nat_alt)
  have m: "(0xFF :: u64) = mask 8" by (simp add: mask_eq_exp_minus_1)
  show "drop_bit 8 (timer_key g k) = g"
    by (rule bit_word_eqI) (use k g in \<open>auto simp: timer_key_def bit_simps\<close>)
  show "timer_key g k AND 0xFF = k"
    unfolding m by (rule bit_word_eqI) (use k in \<open>auto simp: timer_key_def bit_simps\<close>)
qed

lemma stale_timer:
  assumes "g < 2 ^ 56"
  shows "g \<noteq> ss_idleTimerGeneration s \<Longrightarrow> OnTimer e (timer_key g kTimerIdle) s = s"
    and "g \<noteq> ss_connectTimerGeneration s \<Longrightarrow> OnTimer e (timer_key g kTimerConnect) s = s"
  using timer_key_split [OF assms, of kTimerIdle] timer_key_split [OF assms, of kTimerConnect]
  by (simp_all add: OnTimer_def Let_def)

text \<open>C24.  A timer that has been cancelled or re-armed cannot act any more: its completion may already be queued, but as the
  generation in its key is not the current one the session ignores it.  The generations fit in the 56 bits the key has for them.\<close>

theorem session_ignores_stale_timers:
  assumes "ss_idleTimerGeneration s < 2 ^ 56" and "ss_connectTimerGeneration s < 2 ^ 56"
  shows "OnTimer e (timer_key (ss_idleTimerGeneration s) kTimerIdle) (CancelIdleTimer s) = CancelIdleTimer s \<and>
    OnTimer e (timer_key (ss_idleTimerGeneration s) kTimerIdle) (ArmIdleTimer e s) = ArmIdleTimer e s \<and>
    OnTimer e (timer_key (ss_connectTimerGeneration s) kTimerConnect) (CancelConnectTimer s) = CancelConnectTimer s \<and>
    OnTimer e (timer_key (ss_connectTimerGeneration s) kTimerConnect) (snd (ArmConnectTimer e s)) = snd (ArmConnectTimer e s)"
proof -
  have "ss_idleTimerGeneration (CancelIdleTimer s) = ss_idleTimerGeneration s + 1"
    "ss_idleTimerGeneration (ArmIdleTimer e s) \<in> {ss_idleTimerGeneration s + 1, ss_idleTimerGeneration s + 2}"
    "ss_connectTimerGeneration (CancelConnectTimer s) = ss_connectTimerGeneration s + 1"
    "ss_connectTimerGeneration (snd (ArmConnectTimer e s)) \<in> {ss_connectTimerGeneration s + 1, ss_connectTimerGeneration s + 2}"
    by (simp_all add: CancelIdleTimer_def CancelConnectTimer_def ArmIdleTimer_def ArmConnectTimer_def session_emit_def Let_def)
  then show ?thesis using stale_timer(1) [OF assms(1)] stale_timer(2) [OF assms(2)] by (intro conjI) auto
qed

theorem session_ignores_stale_timers_witness:
  "OnTimer sample_session_env (timer_key 0 kTimerIdle) (CancelIdleTimer sample_session) = CancelIdleTimer sample_session"
proof -
  have "ss_idleTimerGeneration sample_session = 0" "ss_connectTimerGeneration sample_session = 0"
    by (simp_all add: sample_session_def new_Socks5Session_def)
  then show ?thesis using session_ignores_stale_timers [of sample_session sample_session_env] by simp
qed

section \<open>Socket options\<close>

fun option_exact :: "netcfg \<Rightarrow> sockopt \<Rightarrow> bool" where
  "option_exact c (SO_SNDTIMEO v) = (uint v = SendTimeoutMs c)"
| "option_exact c (SO_RCVTIMEO v) = (uint v = ReceiveTimeoutMs c)"
| "option_exact c (SO_LINGER b v) = (b = LingerEnabled c \<and> uint v = LingerTimeoutSec c)"
| "option_exact c (KEEPALIVE_VALS t i) = (uint t = 1000 * TcpKeepAliveTime c \<and> uint i = 1000 * TcpKeepAliveInterval c)"
| "option_exact c (TCP_KEEPCNT v) = (uint v = TcpKeepAliveRetryCount c)"
| "option_exact c (SO_SNDBUF v) = (v = SendBufferSize c)"
| "option_exact c (SO_RCVBUF v) = (v = ReceiveBufferSize c)"
| "option_exact c (TCP_NODELAY b) = (b = NoDelay c)"
| "option_exact c (SO_KEEPALIVE b) = (b = KeepAlive c)"

lemma uint_small: "0 \<le> n \<Longrightarrow> n < 4294967296 \<Longrightarrow> uint (word_of_int n :: u32) = n"
  by (simp add: unsigned_of_int take_bit_int_eq_self)

lemma uint_thousand: "0 \<le> n \<Longrightarrow> n \<le> 4294967 \<Longrightarrow> uint (word_of_int n * 1000 :: u32) = 1000 * n"
proof -
  assume n: "0 \<le> n" "n \<le> 4294967"
  have "word_of_int n * 1000 = (word_of_int (1000 * n) :: u32)" by simp
  then show ?thesis using uint_small [of "1000 * n"] n by (simp add: mult.commute)
qed

text \<open>With a configuration that passed validation, the narrowing conversions and the multiplication by 1000 in the
  socket options never wrap: every option of a session socket has exactly the configured value, the keep-alive times in milliseconds.\<close>

theorem socket_options_exact:
  assumes "netcfg_ok c"
  shows "list_all (option_exact c) (ConfigureSocket c)"
proof -
  have "0 \<le> LingerTimeoutSec c" "LingerTimeoutSec c \<le> 65535" using assms by (auto simp: netcfg_ok_def)
  then have "uint (word_of_int (LingerTimeoutSec c) :: u16) = LingerTimeoutSec c"
    by (simp add: unsigned_of_int take_bit_int_eq_self)
  then show ?thesis
    using assms by (auto simp: ConfigureSocket_def netcfg_ok_def uint_small uint_thousand)
qed

theorem socket_options_exact_witness:
  "list_all (option_exact default_netcfg) (ConfigureSocket default_netcfg) \<and> KEEPALIVE_VALS 60000 10000 \<in> set (ConfigureSocket default_netcfg)"
  using socket_options_exact [OF default_netcfg_ok] by (simp add: ConfigureSocket_def default_netcfg_def)


section \<open>Failures\<close>

lemma PumpSend_posts:
  assumes "se_ok e = (\<lambda>n. True)" and "ss_client s" and "\<not> si_sending (ss_clientIo s)" and "si_sendQueue (ss_clientIo s) = []"
  shows "QueueClientSendRaw e d s =
    session_emit [SSend Client (drop (si_sendFrontOffset (ss_clientIo s)) d)]
      (s\<lparr>ss_clientIo := (ss_clientIo s)\<lparr>si_sendQueue := [d], si_sending := True\<rparr>, ss_calls := Suc (ss_calls s)\<rparr>)"
  using assms by (simp add: QueueClientSendRaw_def PumpSend_def Let_def session_call_def mod_io.simps)

text \<open>C25.  A failed connection is reported and cleaned up: when the outgoing connection fails, the client is sent the SOCKS reply with the code of
  the error, the destination socket is closed, and as soon as the reply has been sent the session is closed.\<close>

theorem session_reports_connect_failure:
  assumes "ss_state s = Connecting" and "\<not> ss_closed s" and "\<not> ss_gssProtectActive s" and "ss_client s" and "err \<noteq> 0"
    and "si_sendQueue (ss_clientIo s) = []" and "si_sendFrontOffset (ss_clientIo s) = 0" and "\<not> si_sending (ss_clientIo s)"
    and "se_ok e = (\<lambda>n. True)"
  shows "let s1 = OnIoCompleted e (SvConnect err) s; s2 = OnIoCompleted e (SvClientSend 10 False) s1 in
     last (ss_out s1) = SSend Client [kVersion, connect_error_code err, kReserved, AddressType_IPv4, 0, 0, 0, 0, 0, 0] \<and>
     ss_state s1 = Closing \<and> \<not> ss_dest s1 \<and> \<not> ss_closed s1 \<and> ss_closed s2"
proof -
  let ?reply = "[kVersion, connect_error_code err, kReserved, AddressType_IPv4, 0, 0, 0, 0, 0, 0]"
  define s0 where "s0 = close_dest (CancelIdleTimer (CancelConnectTimer ((close_dest (CancelConnectTimer s))\<lparr>ss_state := Closing\<rparr>)))"
  have cd: "ss_clientIo (close_dest x) = ss_clientIo x" "ss_client (close_dest x) = ss_client x" "ss_closed (close_dest x) = ss_closed x"
    "\<not> ss_dest (close_dest x)" for x by (simp_all add: close_dest_def)
  have s0: "ss_client s0" "\<not> ss_closed s0" "ss_clientIo s0 = ss_clientIo s" "\<not> ss_dest s0" "ss_state s0 = Closing" "\<not> ss_gssProtectActive s0"
    using assms by (simp_all add: s0_def cd)
  define s1 where "s1 = QueueClientSendRaw e ?reply s0"
  have s1: "s1 = session_emit [SSend Client ?reply]
      (s0\<lparr>ss_clientIo := (ss_clientIo s)\<lparr>si_sendQueue := [?reply], si_sending := True\<rparr>, ss_calls := Suc (ss_calls s0)\<rparr>)"
    using PumpSend_posts [of e s0 ?reply] assms s0 by (simp add: s1_def)
  have "replicate 6 (0 :: byte) = [0, 0, 0, 0, 0, 0]" by (simp add: numeral_eq_Suc)
  then have "SendSocksReply e (connect_error_code err) None s0 = s1"
    using s0 by (simp add: SendSocksReply_def QueueClientSend_def s1_def)
  then have "OnIoCompleted e (SvConnect err) s = RequestCloseAfterFlush s1"
    using assms by (simp add: OnDestConnect_def FailAndClose_def cd Let_def s0_def [symmetric])
  then have "OnIoCompleted e (SvConnect err) s = s1\<lparr>ss_closeAfterFlush := True\<rparr>"
    by (simp add: RequestCloseAfterFlush_def client_flushed_def s1)
  moreover have "ss_closed (OnIoCompleted e (SvClientSend 10 False) (s1\<lparr>ss_closeAfterFlush := True\<rparr>))"
    using s0 assms by (simp add: s1 OnClientSend_def Let_def pop_sent_def mod_io.simps PumpSend_def client_flushed_def)
  ultimately show ?thesis using s0 by (simp add: s1 Let_def del: OnIoCompleted.simps)
qed

definition connecting_sample :: session where
  "connecting_sample = sample_session\<lparr>ss_state := Connecting, ss_dest := True\<rparr>"

theorem session_reports_connect_failure_witness:
  "ss_closed (session_run sample_session_env [SvConnect 10061, SvClientSend 10 False] connecting_sample)"
  using session_reports_connect_failure [of connecting_sample 10061 sample_session_env]
  by (simp add: connecting_sample_def sample_session_def new_Socks5Session_def new_StreamIo_def sample_session_env_def session_run_def Let_def
      del: OnIoCompleted.simps)

text \<open>C33.  The end of the client's stream is passed on without waiting for the queue: when a relaying client closes its sending side, the session
  shuts down the sending side of the destination at once, whatever is still queued for it, and the queue stays as it is.\<close>

theorem session_eof_overtakes_queue:
  assumes "ss_state s = Relaying" and "\<not> ss_closed s" and "ss_dest s" and "unsent (ss_destIo s) = backlog"
  shows "let s' = OnIoCompleted e (SvClientRecv [] False) s in
    (\<exists>more. ss_out s' = ss_out s @ SShutdownSend Dest # more) \<and> unsent (ss_destIo s') = backlog"
  using assms by (auto simp: Let_def OnClientRecv_def Close_def unsent_def CancelIdleTimer_def CancelConnectTimer_def session_emit_def)

theorem session_eof_overtakes_queue_witness:
  "let s' = OnIoCompleted sample_session_env (SvClientRecv [] False)
       (relay_sample\<lparr>ss_destIo := new_StreamIo\<lparr>si_sendQueue := [[1, 2, 3]], si_sending := True\<rparr>\<rparr>) in
   (\<exists>more. ss_out s' = ss_out relay_sample @ SShutdownSend Dest # more) \<and> unsent (ss_destIo s') = [1, 2, 3]"
  using session_eof_overtakes_queue [of "relay_sample\<lparr>ss_destIo := new_StreamIo\<lparr>si_sendQueue := [[1, 2, 3]], si_sending := True\<rparr>\<rparr>"
      "[1, 2, 3]" sample_session_env]
  by (simp add: relay_sample_def sample_session_def new_Socks5Session_def new_StreamIo_def unsent_def Let_def del: OnIoCompleted.simps)

text \<open>C34.  A client that goes away while its UDP relay is set up takes the process with it: once the relay of a UDP ASSOCIATE request has started, the
  session dereferences the relay after it posted the reply, and it survives exactly if that post was accepted, because a refused post
  closes the session and drops the relay.\<close>

theorem udp_reply_failure_crashes:
  assumes "parse_request (se_ws e) (ss_ingest s) = ReqOk Command_UdpAssociate address port need"
    and "UdpRelay_Start (se_relay e) (new_UdpRelay (ss_clientEp s) (ss_clientLocalEp s) True (se_clock e (ss_calls s))) = (True, relay)"
    and "\<not> ss_gssProtectActive s" and "ss_client s" and "\<not> ss_closed s" and "\<not> si_sending (ss_clientIo s)" and "\<not> ss_crashed s"
  shows "ss_crashed (snd (ProcessRequestBuffer e s)) \<longleftrightarrow> \<not> se_ok e (ss_calls s)"
proof -
  define s1 where "s1 = CancelIdleTimer (s\<lparr>ss_ingest := drop need (ss_ingest s), ss_udpRelay := Some relay\<rparr>)"
  have s1: "ss_client s1" "\<not> ss_closed s1" "ss_clientIo s1 = ss_clientIo s" "\<not> ss_gssProtectActive s1" "ss_calls s1 = ss_calls s"
    "ss_udpRelay s1 = Some relay" "\<not> ss_crashed s1"
    using assms by (simp_all add: s1_def CancelIdleTimer_def Let_def session_emit_def)
  define s2 where "s2 = SendSocksReply e ReplyCode_Succeeded (Some (ur_advertised relay)) s1"
  have "ss_crashed (snd (BeginClientRead e x)) = ss_crashed x" for x
    by (simp add: BeginClientRead_def Let_def split_def Close_def CancelIdleTimer_def CancelConnectTimer_def session_emit_def)
      (simp add: session_call_def mod_io.simps)
  then have "ss_crashed (snd (ProcessRequestBuffer e s)) \<longleftrightarrow> ss_crashed s2 \<or> ss_udpRelay s2 = None"
    using assms by (simp add: ProcessRequestBuffer_def StartUdpAssociate_def Let_def s2_def s1_def)
  also have "\<dots> \<longleftrightarrow> \<not> se_ok e (ss_calls s)"
    using s1 assms(6) by (simp add: s2_def SendSocksReply_def QueueClientSend_def QueueClientSendRaw_def PumpSend_def
        session_call_def mod_io.simps Let_def Close_def CancelIdleTimer_def CancelConnectTimer_def session_emit_def)
  finally show ?thesis .
qed

definition udp_request_sample :: session where
  "udp_request_sample = sample_session\<lparr>ss_state := Request, ss_ingest := [5, 3, 0, 1, 0, 0, 0, 0, 0, 0]\<rparr>"

theorem udp_reply_failure_crashes_witness:
  "ss_crashed (snd (ProcessRequestBuffer (sample_session_env\<lparr>se_ok := (\<lambda>n. False)\<rparr>) udp_request_sample))"
proof -
  let ?e = "sample_session_env\<lparr>se_ok := (\<lambda>n. False)\<rparr>" and ?s = udp_request_sample
  obtain relay where "UdpRelay_Start (se_relay ?e) (new_UdpRelay (ss_clientEp ?s) (ss_clientLocalEp ?s) True (se_clock ?e (ss_calls ?s))) = (True, relay)"
    by (simp add: udp_request_sample_def sample_session_def new_Socks5Session_def sample_session_env_def UdpRelay_Start_def BindRelaySocket_def tryBind_def relay_close_def
        PostNextRecv_def advertise_def relay_call_def new_UdpRelay_def relay_emit_def Let_def)
  moreover obtain address port need where "parse_request (se_ws ?e) (ss_ingest ?s) = ReqOk Command_UdpAssociate address port need"
    by (simp add: udp_request_sample_def parse_request_def sample_session_env_def Let_def)
  moreover have "\<not> ss_gssProtectActive ?s" "ss_client ?s" "\<not> ss_closed ?s" "\<not> si_sending (ss_clientIo ?s)" "\<not> ss_crashed ?s"
    by (simp_all add: udp_request_sample_def sample_session_def new_Socks5Session_def new_StreamIo_def)
  ultimately show ?thesis using udp_reply_failure_crashes [of ?e ?s] by simp
qed

definition newline :: char where
  "newline = CHR 0x0A"

lemma meta_fails:
  assumes "c \<notin> {CHR 0x00, CHR ''-'', CHR ''+''}" and "\<not> isspace_c c" and "\<not> isdigit_c c"
  shows "\<not> meta_parses (newline # newline # c # rest)"
  using assms by (simp add: meta_parses_def c_str_def stoi_text_def newline_def Let_def)

lemma reply_keeps_reads:
  "si_reading (get_io t (SendSocksReply e code (Some a) s)) = si_reading (get_io t s)" if "\<not> ss_gssProtectActive s"
proof -
  have "si_reading (get_io t (queue_send e Client d s)) = si_reading (get_io t s)" for d
    by (cases "Client = t") (simp_all add: queue_send_def push_back_def del: get_io.simps)
  then show ?thesis using that by (simp add: SendSocksReply_def QueueClientSend_def queue_send_simps)
qed

lemma reply_fields:
  assumes "se_ok e = (\<lambda>n. True)" and "\<not> ss_gssProtectActive s"
  shows "ss_connectMeta (SendSocksReply e code a s) = ss_connectMeta s" "ss_closed (SendSocksReply e code a s) = ss_closed s"
    "ss_connectTimerId (SendSocksReply e code a s) = ss_connectTimerId s"
    "ss_connectTimerGeneration (SendSocksReply e code a s) = ss_connectTimerGeneration s"
  using assms
  by (simp_all add: SendSocksReply_def QueueClientSend_def QueueClientSendRaw_def PumpSend_def session_call_def Let_def)

text \<open>C35.  A connected session can be left behind: the host name is put in front of the address and port in the buffer that \<^verbatim>\<open>OnDestConnect\<close> reads
  back with \<^verbatim>\<open>std::stoi\<close>, so for a name that starts with two line breaks and a letter the conversion throws after the success
  reply has been queued.  The session then stays in \<open>Connecting\<close>, open, with its connect timer cancelled and without a read on
  either socket, and no later timer, stale or idle, gets it out of there.\<close>

theorem session_connect_can_hang:
  assumes "ss_state s = Connecting" and "\<not> ss_closed s" and "\<not> ss_gssProtectActive s" and "se_ok e = (\<lambda>n. True)"
    and "ss_connectMeta s = (newline # newline # c # name) @ [newline] @ ip @ [newline] @ to_string port"
    and "c \<notin> {CHR 0x00, CHR ''-'', CHR ''+''}" and "\<not> isspace_c c" and "\<not> isdigit_c c"
    and "\<not> si_reading (ss_clientIo s)" and "\<not> si_reading (ss_destIo s)" and "g < 2 ^ 56"
    and "ss_connectTimerGeneration s < 2 ^ 56"
  shows "let s' = OnIoCompleted e (SvConnect 0) s in
     ss_state s' = Connecting \<and> \<not> ss_closed s' \<and> ss_connectTimerId s' = 0 \<and>
     \<not> si_reading (ss_clientIo s') \<and> \<not> si_reading (ss_destIo s') \<and>
     ss_state (OnIoCompleted e (SvTimer (timer_key g kTimerIdle)) s') = Connecting \<and>
     OnIoCompleted e (SvTimer (timer_key (ss_connectTimerGeneration s) kTimerConnect)) s' = s'"
proof -
  let ?s1 = "CancelConnectTimer s"
  define s2 where "s2 = SendSocksReply e ReplyCode_Succeeded (Some (se_local e (ss_calls ?s1))) ?s1"
  have gen: "ss_connectTimerGeneration ?s1 = ss_connectTimerGeneration s + 1"
    by (simp add: CancelConnectTimer_def session_emit_def Let_def)
  have s2: "ss_state s2 = Connecting" "\<not> ss_closed s2" "ss_connectTimerId s2 = 0" "ss_connectMeta s2 = ss_connectMeta s"
    "ss_connectTimerGeneration s2 = ss_connectTimerGeneration s + 1"
    using assms(1-4) gen by (simp_all add: s2_def reply_fields)
  have reads: "\<not> si_reading (get_io t s2)" for t
  proof -
    have "\<not> si_reading (get_io t s)" using assms(9,10) by (cases t) simp_all
    then show ?thesis using assms(3) by (simp add: s2_def reply_keeps_reads del: get_io.simps)
  qed
  have "OnDestConnect e 0 s = (if meta_parses (ss_connectMeta s2) then StartRelay e s2 else s2)"
    using assms(1) unfolding OnDestConnect_def Let_def s2_def by simp
  then have hang: "OnIoCompleted e (SvConnect 0) s = s2"
    using assms(2) meta_fails [OF assms(6-8), of "name @ [newline] @ ip @ [newline] @ to_string port"] s2(4) assms(5) by simp
  have idle: "ss_state (OnTimer e (timer_key g kTimerIdle) s2) = Connecting"
    using s2(1,2) timer_key_split [OF assms(11), of kTimerIdle] by (simp add: OnTimer_def Let_def)
  have "OnTimer e (timer_key (ss_connectTimerGeneration s) kTimerConnect) s2 = s2"
    using s2(5) stale_timer(2) [OF assms(12), of s2 e] by simp
  with hang s2 reads [of Client] reads [of Dest] idle show ?thesis by (simp add: Let_def del: OnIoCompleted.simps(7))
qed

definition hang_sample :: session where
  "hang_sample = connecting_sample\<lparr>ss_connectMeta :=
     (newline # newline # ''x.example'') @ [newline] @ ''10.0.0.1'' @ [newline] @ to_string 80\<rparr>"

theorem session_connect_can_hang_witness:
  "ss_state (OnIoCompleted sample_session_env (SvConnect 0) hang_sample) = Connecting \<and>
   \<not> ss_closed (OnIoCompleted sample_session_env (SvConnect 0) hang_sample)"
  using session_connect_can_hang [of hang_sample sample_session_env "CHR ''x''" "''.example''" "''10.0.0.1''" 80 0]
  by (simp add: hang_sample_def connecting_sample_def sample_session_def new_Socks5Session_def new_StreamIo_def sample_session_env_def
      isspace_c_def isdigit_c_def Let_def del: OnIoCompleted.simps to_string.simps)

section \<open>The protected stream\<close>

lemma gssapi_Close [simp]: "ss_gssapi (Close s) = ss_gssapi s"
  by (simp add: Close_def Let_def)

lemma gssapi_queue_send [simp]: "ss_gssapi (queue_send e t d s) = ss_gssapi s"
  by (simp add: queue_send_def PumpSend_def Let_def split_def)

lemma ingest_queue_send [simp]: "ss_ingest (queue_send e t d s) = ss_ingest s"
  by (simp add: queue_send_def)

lemma gss_relay_step:
  assumes "ss_ingest s = gss_frame Gssapi_MsgEncapsulated t @ rest" and "length t \<le> 65535"
    and "ss_gssapi s = Some g" and "Unwrap (se_sspi e) t g = (Some d, g1)" and "d \<noteq> []"
  shows "ProcessGssRelayInput e s = ProcessGssRelayInput e (queue_send e Dest d (s\<lparr>ss_ingest := rest, ss_gssapi := Some g1\<rparr>))"
proof -
  have "ss_ingest s \<noteq> []" using assms(1) by (simp add: gss_frame_def)
  moreover have "TryReadGssFrame Gssapi_MsgEncapsulated (ss_ingest s) = (Frame t, rest)"
    using TryRead_frame [OF assms(2), of Gssapi_MsgEncapsulated rest] assms(1) by simp
  ultimately show ?thesis
    using assms(3-5) by (subst ProcessGssRelayInput.simps) (simp add: Let_def queue_send_simps)
qed

lemma gss_relay_rest:
  assumes "ss_ingest s = part" and "part = [] \<or> (\<exists>t. length t \<le> 65535 \<and> strict_prefix part (gss_frame Gssapi_MsgEncapsulated t))"
  shows "ProcessGssRelayInput e s = (True, s)"
proof (cases "part = []")
  case False
  then obtain t where "length t \<le> 65535" "strict_prefix part (gss_frame Gssapi_MsgEncapsulated t)" using assms(2) by blast
  then have "TryReadGssFrame Gssapi_MsgEncapsulated (ss_ingest s) = (NeedMore, ss_ingest s)"
    using TryRead_partial [of t Gssapi_MsgEncapsulated part] assms(1) by simp
  then show ?thesis by (subst ProcessGssRelayInput.simps) simp
qed (use assms in \<open>subst ProcessGssRelayInput.simps, simp\<close>)

text \<open>The messages of a peer, each with its plain text, in the order in which they were sealed: the security context is stateful and
  detects replays and gaps, so that the message \<open>k\<close> places behind is only opened by the call \<open>k\<close> places later.\<close>

fun unwraps_in_order :: "sspi \<Rightarrow> nat \<Rightarrow> (bytes \<times> bytes) list \<Rightarrow> bool" where
  "unwraps_in_order w n [] \<longleftrightarrow> True"
| "unwraps_in_order w n ((t, clear) # ms) \<longleftrightarrow>
     t \<noteq> [] \<and> length t \<le> 65535 \<and> clear \<noteq> [] \<and> sspi_decrypt w n t = Some clear \<and> unwraps_in_order w (Suc n) ms"

lemma Unwrap_ready:
  assumes "gs_haveContext g" and "gs_complete g" and "unwraps_in_order w (gs_calls g) ((t, clear) # ms)"
  shows "Unwrap w t g = (Some clear, tick g)"
proof -
  have "length t \<le> 4294967295" using assms(3) by simp
  then show ?thesis using assms by (simp add: Unwrap_def)
qed

lemma gss_relay_run:
  assumes "part = [] \<or> (\<exists>t. length t \<le> 65535 \<and> strict_prefix part (gss_frame Gssapi_MsgEncapsulated t))"
  shows "ss_gssapi s = Some g \<Longrightarrow> gs_haveContext g \<Longrightarrow> gs_complete g \<Longrightarrow> io_ok (get_io Dest s) \<Longrightarrow>
    unwraps_in_order (se_sspi e) (gs_calls g) ms \<Longrightarrow>
    ss_ingest s = concat (map (\<lambda>m. gss_frame Gssapi_MsgEncapsulated (fst m)) ms) @ part \<Longrightarrow>
    (case ProcessGssRelayInput e s of (ok, s') \<Rightarrow>
       ok \<and> ss_ingest s' = part \<and> unsent (get_io Dest s') = unsent (get_io Dest s) @ concat (map snd ms))"
proof (induction ms arbitrary: s g)
  case Nil
  then show ?case using gss_relay_rest [of s part e] assms by simp
next
  case (Cons m ms)
  obtain t clear where m: "m = (t, clear)" by fastforce
  define i where "i = concat (map (\<lambda>m. gss_frame Gssapi_MsgEncapsulated (fst m)) ms) @ part"
  define s0 where "s0 = s\<lparr>ss_ingest := i, ss_gssapi := Some (tick g)\<rparr>"
  let ?s1 = "queue_send e Dest clear s0"
  have t: "length t \<le> 65535" "clear \<noteq> []" "unwraps_in_order (se_sspi e) (gs_calls (tick g)) ms"
    using Cons.prems(5) by (simp_all add: m tick_def)
  have ok0: "queue_of Dest s0 = queue_of Dest s" by (simp add: s0_def)
  then have io0: "io_ok (get_io Dest s0)" "unsent (get_io Dest s0) = unsent (get_io Dest s)"
    using Cons.prems(4) io_ok_queue [OF ok0] unsent_queue [OF ok0] by simp_all
  have "ss_ingest s = gss_frame Gssapi_MsgEncapsulated t @ i" using Cons.prems(6) by (simp add: i_def m)
  then have step: "ProcessGssRelayInput e s = ProcessGssRelayInput e ?s1"
    using gss_relay_step [OF _ _ Cons.prems(1) Unwrap_ready [OF Cons.prems(2,3) Cons.prems(5) [unfolded m]]] t(1,2) by (simp add: s0_def)
  have "ss_gssapi ?s1 = Some (tick g)" "ss_ingest ?s1 = concat (map (\<lambda>m. gss_frame Gssapi_MsgEncapsulated (fst m)) ms) @ part"
    by (simp_all add: s0_def i_def)
  then show ?case
    using Cons.IH [of ?s1 "tick g"] Cons.prems(2,3) t(3) queue_send_unsent [OF io0(1), of e clear] io0(2)
    by (simp add: step m tick_def del: get_io.simps split: prod.splits)
qed

text \<open>C23.  In the protected relay the client's stream is recovered from its frames: for the encapsulated messages of the client, in the order in which the
  security package opens them, with or without a part of the next one behind them, exactly the plain texts are appended in order to
  the queue of the destination and the incomplete part is kept for later.\<close>

theorem gss_relay_recovers_stream:
  assumes "ss_gssapi s = Some g" and "gs_haveContext g" and "gs_complete g" and "io_ok (get_io Dest s)"
    and "unwraps_in_order (se_sspi e) (gs_calls g) ms"
    and "part = [] \<or> (\<exists>t. length t \<le> 65535 \<and> strict_prefix part (gss_frame Gssapi_MsgEncapsulated t))"
    and "ss_ingest s = concat (map (\<lambda>m. gss_frame Gssapi_MsgEncapsulated (fst m)) ms) @ part"
  shows "case ProcessGssRelayInput e s of (ok, s') \<Rightarrow>
    ok \<and> ss_ingest s' = part \<and> unsent (get_io Dest s') = unsent (get_io Dest s) @ concat (map snd ms)"
  using gss_relay_run [OF assms(6,1-5,7)] .

text \<open>A package that seals with a sequence number and opens a message only in its turn.\<close>

definition numbering_sspi :: sspi where
  "numbering_sspi = sample_sspi\<lparr>sspi_encrypt := (\<lambda>n c d. Some ([word_of_nat n], d, [])),
     sspi_decrypt := (\<lambda>n t. case t of [] \<Rightarrow> None | k # d \<Rightarrow> if k = word_of_nat n then Some d else None)\<rparr>"

theorem gss_relay_recovers_stream_witness:
  "sspi_decrypt numbering_sspi 6 [5, 7, 8] = None \<and>
   (case ProcessGssRelayInput (sample_session_env\<lparr>se_sspi := numbering_sspi\<rparr>)
       (relay_sample\<lparr>ss_gssapi := Some (new_GssapiContext\<lparr>gs_haveContext := True, gs_complete := True, gs_calls := 5\<rparr>),
          ss_ingest := [1, 3, 0, 3, 5, 7, 8, 1, 3, 0, 2, 6, 9, 1, 3]\<rparr>) of
      (ok, s') \<Rightarrow> ok \<and> ss_ingest s' = [1, 3] \<and> unsent (get_io Dest s') = [7, 8, 9])"
proof -
  let ?s = "relay_sample\<lparr>ss_gssapi := Some (new_GssapiContext\<lparr>gs_haveContext := True, gs_complete := True, gs_calls := 5\<rparr>),
       ss_ingest := [1, 3, 0, 3, 5, 7, 8, 1, 3, 0, 2, 6, 9, 1, 3]\<rparr>"
  let ?e = "sample_session_env\<lparr>se_sspi := numbering_sspi\<rparr>" and ?ms = "[([5, 7, 8], [7, 8]), ([6, 9], [9])] :: (bytes \<times> bytes) list"
  have "ss_ingest ?s = concat (map (\<lambda>m. gss_frame Gssapi_MsgEncapsulated (fst m)) ?ms) @ [1, 3]"
    by (simp add: gss_frame_def hi8_def lo8_def)
  moreover have "io_ok (get_io Dest ?s)" "unsent (get_io Dest ?s) = []"
    by (simp_all add: relay_sample_def io_ok_def new_StreamIo_def unsent_def)
  moreover have "unwraps_in_order (se_sspi ?e) 5 ?ms" "sspi_decrypt numbering_sspi 6 [5, 7, 8] = None"
    by (simp_all add: numbering_sspi_def)
  moreover have "\<exists>t. length t \<le> 65535 \<and> strict_prefix [1, 3] (gss_frame Gssapi_MsgEncapsulated t)"
    by (rule exI [of _ "[7]"]) (simp add: gss_frame_def strict_prefix_def hi8_def lo8_def)
  ultimately show ?thesis
    using gss_relay_recovers_stream [of ?s _ ?e ?ms "[1, 3]"] by (simp del: get_io.simps split: prod.splits)
qed

end
