(* ===== verification/Iocp.thy ===== *)
theory Iocp
  imports NetworkUtils
begin

text \<open>
  The completion-port service of \<^verbatim>\<open>network/Iocp.cpp\<close>: posting overlapped operations, the timers, the worker threads and
  the orderly shutdown.

  Handles (objects derived from \<^verbatim>\<open>IocpHandle\<close>), sockets and the callers' \<^verbatim>\<open>IoContext\<close> objects are numbered; an
  \<^verbatim>\<open>INVALID_SOCKET\<close> or a null pointer is \<open>None\<close>.  The contexts of the callers are in \<open>io_ctxs\<close>; the context of a timer
  belongs to its \<open>TimerState\<close> until the timer is claimed and then travels inside the packet.  \<open>io_queue\<close> holds the packets
  posted with \<^verbatim>\<open>PostQueuedCompletionStatus\<close>; the completion of an overlapped operation comes from the kernel, as an event.

  The atomic counters are updated as in the source, with the guard against underflow.  A worker thread is a state machine: one
  step is the code between two points where another thread can observe or change the shared state.  A lock that a step holds
  throughout makes it one step; what a blocking wait waits for is the guard of the step after it.  The answers of the
  operating system are the arguments of the steps.  Debug output is left out.
\<close>

type_synonym handle = nat
type_synonym sock_id = nat
type_synonym ctx_id = nat

datatype IoOp = Op_Recv | Op_Send | Op_Connect | Op_RecvFrom | Op_SendTo | Op_Accept | Op_User

abbreviation (input) "ULONG_MAX \<equiv> (4294967295 :: nat)"
abbreviation (input) "SIZE_T_MAX \<equiv> (18446744073709551615 :: nat)"
abbreviation (input) "INFINITE \<equiv> (4294967295 :: int)"
abbreviation (input) "sockaddr_storage_size \<equiv> (128 :: nat)"


section \<open>Buffer ranges\<close>

definition FitsULong :: "nat \<Rightarrow> bool" where
  "FitsULong value \<longleftrightarrow> value \<le> ULONG_MAX"

definition ToULong :: "nat \<Rightarrow> u32" where
  "ToULong value = word_of_nat value"

definition ValidExternalSendRange :: "nat \<Rightarrow> nat \<Rightarrow> bool" where
  "ValidExternalSendRange offset len = (if len = 0 \<or> \<not> FitsULong len then False else offset \<le> SIZE_T_MAX - len)"

definition ValidBufferSendRange :: "bytes \<Rightarrow> nat \<Rightarrow> nat \<Rightarrow> bool" where
  "ValidBufferSendRange buffer offset len =
     (if \<not> ValidExternalSendRange offset len then False
      else offset \<le> length buffer \<and> len \<le> length buffer - offset)"

definition ValidRecvRange :: "bytes \<Rightarrow> nat \<Rightarrow> nat \<Rightarrow> bool" where
  "ValidRecvRange buffer offset len =
     (if offset > length buffer then False
      else
        let available = length buffer - offset;
            recvLen = (if len = 0 then available else len)
        in if recvLen = 0 \<or> \<not> FitsULong recvLen then False
           else if len \<noteq> 0 \<and> len > available then False
           else True)"

text \<open>The length of a socket address buffer and whether it is the context's own.\<close>

definition ValidAcceptExAddrBuf :: "bool \<Rightarrow> nat \<Rightarrow> bool" where
  "ValidAcceptExAddrBuf addrBuf addrBufLen \<longleftrightarrow>
     addrBuf \<and> addrBufLen \<ge> (sockaddr_storage_size + 16) * 2 \<and> addrBufLen mod 2 = 0"


section \<open>Contexts\<close>

text \<open>\<open>ic_window\<close> is \<^verbatim>\<open>wsaBuf\<close>: where the data of the operation starts in \<^verbatim>\<open>buffer\<close> (or in the pinned copy), and its length.\<close>

record IoContext =
  ic_op :: IoOp
  ic_socket :: "sock_id option"
  ic_window :: "nat \<times> u32"
  ic_buffer :: bytes
  ic_addr :: sockaddr_storage
  ic_addrLen :: nat
  ic_flags :: u32
  ic_sendOffset :: nat
  ic_sendLength :: nat
  ic_userKey :: u64
  ic_iocpOwned :: bool
  ic_handlePin :: "handle option"
  ic_accountingPin :: "handle option"
  ic_bufferPin :: "bytes option"
  ic_cancellationSocket :: "sock_id option"

definition new_IoContext :: "IoOp \<Rightarrow> nat \<Rightarrow> IoContext" where
  "new_IoContext operation bufSize =
     \<lparr>ic_op = operation, ic_socket = None, ic_window = (0, ToULong bufSize), ic_buffer = replicate bufSize 0, ic_addr = AddrNone, ic_addrLen = 0,
      ic_flags = 0, ic_sendOffset = 0, ic_sendLength = 0, ic_userKey = 0, ic_iocpOwned = False, ic_handlePin = None,
      ic_accountingPin = None, ic_bufferPin = None, ic_cancellationSocket = None\<rparr>"

definition IoContext_Reset :: "IoOp \<Rightarrow> IoContext \<Rightarrow> IoContext" where
  "IoContext_Reset operation c =
     (if ic_handlePin c \<noteq> None \<or> ic_accountingPin c \<noteq> None then c
      else c\<lparr>ic_op := operation, ic_flags := 0, ic_sendOffset := 0, ic_sendLength := 0, ic_userKey := 0, ic_bufferPin := None,
             ic_cancellationSocket := None, ic_addrLen := sockaddr_storage_size\<rparr>)"

definition ClearContextPins :: "IoContext \<Rightarrow> IoContext" where
  "ClearContextPins c = c\<lparr>ic_handlePin := None, ic_accountingPin := None, ic_cancellationSocket := None\<rparr>"


section \<open>The service\<close>

datatype TimerPhase = Publishing | Pending | Claimed | Cancelled

record TimerState =
  ts_due :: int
  ts_handle :: handle
  ts_ctx :: "IoContext option"
  ts_phase :: TimerPhase

datatype packet = Wake | TimerPacket IoContext

text \<open>Where a worker thread is in \<^verbatim>\<open>WorkerLoop\<close>: at the top of the loop, between claiming timers and posting them, waiting in
  \<^verbatim>\<open>GetQueuedCompletionStatus\<close> (with a lease on the port), in the handler of a completion, or gone.\<close>

datatype worker =
    AtTop
  | Posting "IoContext list" int
  | Waiting int
  | Handling handle
  | Exited

text \<open>Where the thread inside \<^verbatim>\<open>Stop\<close> is: waiting for the outstanding operations, joining the workers, or waiting for the leases.\<close>

datatype stopper = NoStop | Draining | Joining | Closing

record iocp =
  io_port :: bool
  io_users :: int
  io_outstanding :: int
  io_running :: bool
  io_stopping :: bool
  io_stopper :: stopper
  io_pendingSockets :: "(sock_id, nat) umap"
  io_workers :: "worker list"
  io_timers :: "(u64, TimerState) umap"
  io_nextTimerId :: u64
  io_pending :: "handle \<Rightarrow> int"
  io_ctxs :: "IoContext list"
  io_queue :: "packet list"
  io_cancelled :: "sock_id list"

definition new_IocpService :: iocp where
  "new_IocpService =
     \<lparr>io_port = False, io_users = 0, io_outstanding = 0, io_running = False, io_stopping = False, io_stopper = NoStop, io_pendingSockets = [],
      io_workers = [], io_timers = [], io_nextTimerId = 1, io_pending = (\<lambda>h. 0), io_ctxs = [], io_queue = [], io_cancelled = []\<rparr>"

definition worker_count :: "nat \<Rightarrow> nat \<Rightarrow> nat" where
  "worker_count requested processors = (if requested = 0 then min 32 (max 2 (processors * 2 mod 2 ^ 32)) else requested)"

section \<open>Accounting\<close>

definition dec_guarded :: "int \<Rightarrow> int" where
  "dec_guarded n = (if n > 0 then n - 1 else n)"

definition AddPending :: "handle \<Rightarrow> iocp \<Rightarrow> iocp" where
  "AddPending h s = s\<lparr>io_pending := (io_pending s)(h := io_pending s h + 1)\<rparr>"

definition ReleasePending :: "handle \<Rightarrow> iocp \<Rightarrow> iocp" where
  "ReleasePending h s = s\<lparr>io_pending := (io_pending s)(h := dec_guarded (io_pending s h))\<rparr>"

definition PinIocpHandle :: "iocp \<Rightarrow> iocp" where
  "PinIocpHandle s = s\<lparr>io_users := io_users s + 1\<rparr>"

definition UnpinIocpHandle :: "iocp \<Rightarrow> iocp" where
  "UnpinIocpHandle s = s\<lparr>io_users := dec_guarded (io_users s)\<rparr>"

definition pinned :: "handle \<Rightarrow> sock_id option \<Rightarrow> IoContext \<Rightarrow> IoContext" where
  "pinned h sk c = c\<lparr>ic_handlePin := Some h, ic_accountingPin := Some h, ic_cancellationSocket := sk\<rparr>"

text \<open>\<^verbatim>\<open>AddOutstanding\<close> on the shared state; the context itself becomes \<open>pinned h sk c\<close>.\<close>

definition AddOutstanding :: "handle \<Rightarrow> sock_id option \<Rightarrow> iocp \<Rightarrow> iocp" where
  "AddOutstanding h sk s =
     (let s1 = (case sk of
                  None \<Rightarrow> s
                | Some k \<Rightarrow> s\<lparr>io_pendingSockets :=
                    um_set k (Suc (case um_find (io_pendingSockets s) k of None \<Rightarrow> 0 | Some n \<Rightarrow> n)) (io_pendingSockets s)\<rparr>);
          s2 = AddPending h s1
      in s2\<lparr>io_outstanding := io_outstanding s2 + 1\<rparr>)"

definition UnregisterPendingSocket :: "sock_id option \<Rightarrow> iocp \<Rightarrow> iocp" where
  "UnregisterPendingSocket sk s =
     (case sk of
        None \<Rightarrow> s
      | Some k \<Rightarrow>
          (case um_find (io_pendingSockets s) k of
             None \<Rightarrow> s
           | Some 0 \<Rightarrow> s
           | Some (Suc n) \<Rightarrow>
               s\<lparr>io_pendingSockets := (if n = 0 then um_erase k (io_pendingSockets s) else um_set k n (io_pendingSockets s))\<rparr>))"

definition ReleaseOutstandingWithoutHandle :: "sock_id option \<Rightarrow> iocp \<Rightarrow> iocp" where
  "ReleaseOutstandingWithoutHandle sk s =
     (let s1 = UnregisterPendingSocket sk s in s1\<lparr>io_outstanding := dec_guarded (io_outstanding s1)\<rparr>)"

definition ReleaseOutstanding :: "handle \<Rightarrow> sock_id option \<Rightarrow> iocp \<Rightarrow> iocp" where
  "ReleaseOutstanding h sk s = ReleaseOutstandingWithoutHandle None (ReleasePending h (UnregisterPendingSocket sk s))"

text \<open>\<open>ok\<close> is the answer of \<^verbatim>\<open>PostQueuedCompletionStatus\<close>.\<close>

definition PostIocpCompletion :: "packet \<Rightarrow> bool \<Rightarrow> iocp \<Rightarrow> iocp" where
  "PostIocpCompletion p ok s =
     (let s1 = PinIocpHandle s; s2 = (if ok then s1\<lparr>io_queue := io_queue s1 @ [p]\<rparr> else s1) in UnpinIocpHandle s2)"

text \<open>The result of a post is ignored; \<open>oks\<close> says which of the \<^verbatim>\<open>count\<close> posts succeed, counted from the last.\<close>

fun WakeWorkers :: "(nat \<Rightarrow> bool) \<Rightarrow> nat \<Rightarrow> iocp \<Rightarrow> iocp" where
  "WakeWorkers oks 0 s = s"
| "WakeWorkers oks (Suc n) s = WakeWorkers oks n (PostIocpCompletion Wake (oks n) s)"

text \<open>The sockets \<^verbatim>\<open>CancelIoEx\<close> is called for; its failures are only logged.  A cancelled operation completes like any other.\<close>

definition CancelOutstandingSocketIo :: "iocp \<Rightarrow> iocp" where
  "CancelOutstandingSocketIo s =
     s\<lparr>io_cancelled := io_cancelled s @ map fst (filter (\<lambda>(k, count). count \<noteq> 0) (io_pendingSockets s))\<rparr>"


section \<open>Posting operations\<close>

definition Associate :: "sock_id option \<Rightarrow> handle option \<Rightarrow> bool \<Rightarrow> iocp \<Rightarrow> bool" where
  "Associate socket h ok s = (if \<not> io_running s \<or> \<not> io_port s \<or> socket = None \<or> h = None then False else ok)"

definition get_ctx :: "ctx_id option \<Rightarrow> iocp \<Rightarrow> IoContext option" where
  "get_ctx ctx s = (case ctx of None \<Rightarrow> None | Some i \<Rightarrow> if i < length (io_ctxs s) then Some (io_ctxs s ! i) else None)"

definition put_ctx :: "ctx_id \<Rightarrow> IoContext \<Rightarrow> iocp \<Rightarrow> iocp" where
  "put_ctx i c s = s\<lparr>io_ctxs := (io_ctxs s)[i := c]\<rparr>"

definition idle_ctx :: "IoContext \<Rightarrow> bool" where
  "idle_ctx c \<longleftrightarrow> \<not> ic_iocpOwned c \<and> \<not> (ic_handlePin c \<noteq> None \<or> ic_accountingPin c \<noteq> None)"

definition service_up :: "iocp \<Rightarrow> bool" where
  "service_up s \<longleftrightarrow> io_running s \<and> io_port s"

text \<open>The end of every posting function: account for the operation, issue it, and take everything back if the call fails at once.
  \<open>ok\<close> says whether the call succeeded or is pending.\<close>

definition issue :: "ctx_id \<Rightarrow> IoContext \<Rightarrow> handle \<Rightarrow> sock_id option \<Rightarrow> bool \<Rightarrow> bool \<Rightarrow> iocp \<Rightarrow> bool \<times> iocp" where
  "issue i c h sk drop_copy ok s =
     (let s1 = AddOutstanding h sk s; c1 = pinned h sk c
      in if ok then (True, put_ctx i c1 s1)
         else
           let s2 = ReleaseOutstanding h (ic_cancellationSocket c1) s1; c2 = ClearContextPins c1
           in (False, put_ctx i (if drop_copy then c2\<lparr>ic_bufferPin := None\<rparr> else c2) s2))"

definition PostRecv :: "sock_id option \<Rightarrow> ctx_id option \<Rightarrow> handle option \<Rightarrow> nat \<Rightarrow> nat \<Rightarrow> bool \<Rightarrow> iocp \<Rightarrow> bool \<times> iocp" where
  "PostRecv socket ctx handle offset len ok s =
     (case (get_ctx ctx s, ctx, handle, socket) of
        (Some c, Some i, Some h, Some sk) \<Rightarrow>
          if \<not> service_up s \<or> \<not> idle_ctx c \<or> \<not> ValidRecvRange (ic_buffer c) offset len then (False, s)
          else
            let recvLen = (if len = 0 then length (ic_buffer c) - offset else len);
                c1 = (IoContext_Reset Op_Recv c)\<lparr>ic_socket := Some sk, ic_window := (offset, ToULong recvLen), ic_flags := 0\<rparr>
            in issue i c1 h (Some sk) True ok s
      | _ \<Rightarrow> (False, s))"

text \<open>\<open>data\<close> is the caller's memory from the given pointer on.\<close>

definition PostSend :: "sock_id option \<Rightarrow> ctx_id option \<Rightarrow> bytes option \<Rightarrow> nat \<Rightarrow> nat \<Rightarrow> handle option \<Rightarrow> bool \<Rightarrow> iocp \<Rightarrow> bool \<times> iocp" where
  "PostSend socket ctx data offset len handle ok s =
     (case (get_ctx ctx s, ctx, handle, socket, data) of
        (Some c, Some i, Some h, Some sk, Some d) \<Rightarrow>
          if \<not> service_up s \<or> \<not> idle_ctx c \<or> \<not> ValidExternalSendRange offset len then (False, s)
          else
            let c1 = (IoContext_Reset Op_Send c)\<lparr>ic_bufferPin := Some (take len (drop offset d)), ic_socket := Some sk,
                       ic_sendOffset := offset, ic_sendLength := len, ic_window := (0, ToULong len)\<rparr>
            in issue i c1 h (Some sk) True ok s
      | _ \<Rightarrow> (False, s))"

definition PostSend_own :: "sock_id option \<Rightarrow> ctx_id option \<Rightarrow> nat \<Rightarrow> nat \<Rightarrow> handle option \<Rightarrow> bool \<Rightarrow> iocp \<Rightarrow> bool \<times> iocp" where
  "PostSend_own socket ctx offset len handle ok s =
     (case get_ctx ctx s of
        None \<Rightarrow> (False, s)
      | Some c \<Rightarrow>
          if \<not> ValidBufferSendRange (ic_buffer c) offset len then (False, s)
          else PostSend socket ctx (Some (ic_buffer c)) offset len handle ok s)"

definition PostRecvFrom :: "sock_id option \<Rightarrow> ctx_id option \<Rightarrow> handle option \<Rightarrow> bool \<Rightarrow> iocp \<Rightarrow> bool \<times> iocp" where
  "PostRecvFrom socket ctx handle ok s =
     (case (get_ctx ctx s, ctx, handle, socket) of
        (Some c, Some i, Some h, Some sk) \<Rightarrow>
          if \<not> service_up s \<or> \<not> idle_ctx c \<or> ic_buffer c = [] \<or> \<not> FitsULong (length (ic_buffer c)) then (False, s)
          else
            let c1 = (IoContext_Reset Op_RecvFrom c)\<lparr>ic_socket := Some sk, ic_window := (0, ToULong (length (ic_buffer c))),
                       ic_flags := 0, ic_addrLen := sockaddr_storage_size\<rparr>
            in issue i c1 h (Some sk) False ok s
      | _ \<Rightarrow> (False, s))"

text \<open>An address argument is a pointer to a socket address and its length.\<close>

definition PostSendTo :: "sock_id option \<Rightarrow> ctx_id option \<Rightarrow> bytes option \<Rightarrow> nat \<Rightarrow> sockaddr_storage option \<Rightarrow> int \<Rightarrow> handle option
    \<Rightarrow> bool \<Rightarrow> iocp \<Rightarrow> bool \<times> iocp" where
  "PostSendTo socket ctx data len to toLen handle ok s =
     (case (get_ctx ctx s, ctx, handle, socket, data, to) of
        (Some c, Some i, Some h, Some sk, Some d, Some a) \<Rightarrow>
          if \<not> service_up s \<or> \<not> idle_ctx c \<or> toLen \<le> 0 \<or> nat toLen > sockaddr_storage_size \<or> len = 0 \<or> \<not> FitsULong len
          then (False, s)
          else
            let c1 = (IoContext_Reset Op_SendTo c)\<lparr>ic_bufferPin := Some (take len d), ic_socket := Some sk,
                       ic_window := (0, ToULong len), ic_addr := a, ic_addrLen := nat toLen\<rparr>
            in issue i c1 h (Some sk) True ok s
      | _ \<Rightarrow> (False, s))"

definition PostSendTo_own :: "sock_id option \<Rightarrow> ctx_id option \<Rightarrow> nat \<Rightarrow> sockaddr_storage option \<Rightarrow> int \<Rightarrow> handle option
    \<Rightarrow> bool \<Rightarrow> iocp \<Rightarrow> bool \<times> iocp" where
  "PostSendTo_own socket ctx len to toLen handle ok s =
     (case get_ctx ctx s of
        None \<Rightarrow> (False, s)
      | Some c \<Rightarrow>
          if \<not> ValidBufferSendRange (ic_buffer c) 0 len then (False, s)
          else PostSendTo socket ctx (Some (ic_buffer c)) len to toLen handle ok s)"

text \<open>\<open>bound\<close>: \<^verbatim>\<open>IsBoundForConnectEx\<close>; \<open>loaded\<close>: \<^verbatim>\<open>LoadConnectEx\<close>.\<close>

definition PostConnect :: "sock_id option \<Rightarrow> ctx_id option \<Rightarrow> sockaddr_storage option \<Rightarrow> int \<Rightarrow> handle option \<Rightarrow> bool \<Rightarrow> bool \<Rightarrow> bool
    \<Rightarrow> iocp \<Rightarrow> bool \<times> iocp" where
  "PostConnect socket ctx name namelen handle bound loaded ok s =
     (case (get_ctx ctx s, ctx, handle, socket, name) of
        (Some c, Some i, Some h, Some sk, Some a) \<Rightarrow>
          if \<not> service_up s \<or> \<not> idle_ctx c \<or> namelen \<le> 0 \<or> nat namelen > sockaddr_storage_size then (False, s)
          else if (ss_family a \<noteq> AF_INET \<and> ss_family a \<noteq> AF_INET6) \<or> \<not> bound then (False, s)
          else if \<not> loaded then (False, s)
          else
            let c1 = (IoContext_Reset Op_Connect c)\<lparr>ic_socket := Some sk, ic_addr := a, ic_addrLen := nat namelen\<rparr>
            in issue i c1 h (Some sk) False ok s
      | _ \<Rightarrow> (False, s))"

text \<open>\<open>own\<close>: \<^verbatim>\<open>addrBuf\<close> is \<^verbatim>\<open>ctx->buffer.data()\<close>, and not null.\<close>

definition Service_PostAccept :: "sock_id option \<Rightarrow> sock_id option \<Rightarrow> ctx_id option \<Rightarrow> bool \<Rightarrow> nat \<Rightarrow> handle option \<Rightarrow> bool \<Rightarrow> bool
    \<Rightarrow> iocp \<Rightarrow> bool \<times> iocp" where
  "Service_PostAccept listenSocket acceptSocket ctx own addrBufLen handle acceptEx ok s =
     (case (get_ctx ctx s, ctx, handle, listenSocket, acceptSocket) of
        (Some c, Some i, Some h, Some ls, Some as) \<Rightarrow>
          if \<not> service_up s \<or> \<not> idle_ctx c \<or> \<not> acceptEx \<or> \<not> own \<or> length (ic_buffer c) < addrBufLen \<or>
             \<not> ValidAcceptExAddrBuf own addrBufLen
          then (False, s)
          else issue i ((IoContext_Reset Op_Accept c)\<lparr>ic_socket := Some as\<rparr>) h (Some ls) False ok s
      | _ \<Rightarrow> (False, s))"

text \<open>\<^verbatim>\<open>PostUser\<close> goes through the queue of posted packets; its context is the caller's, so its completion is an event like
  that of any other operation.\<close>

definition PostUser :: "handle option \<Rightarrow> ctx_id option \<Rightarrow> u64 \<Rightarrow> bool \<Rightarrow> iocp \<Rightarrow> bool \<times> iocp" where
  "PostUser handle ctx userKey ok s =
     (case (get_ctx ctx s, ctx, handle) of
        (Some c, Some i, Some h) \<Rightarrow>
          if \<not> service_up s \<or> \<not> idle_ctx c then (False, s)
          else issue i ((IoContext_Reset Op_User c)\<lparr>ic_userKey := userKey\<rparr>) h None False ok s
      | _ \<Rightarrow> (False, s))"

section \<open>Timers\<close>

text \<open>Times are in nanoseconds, as the steady clock counts; delays and waits are in milliseconds.  The loop over identifiers skips 0 and
  those in use; its fuel is two more than there are timers, which is enough (\<open>fresh_timer_id_returns\<close>).\<close>

fun fresh_timer_id :: "nat \<Rightarrow> (u64, TimerState) umap \<Rightarrow> u64 \<Rightarrow> (u64 \<times> u64) option" where
  "fresh_timer_id 0 timers next = None"
| "fresh_timer_id (Suc fuel) timers next =
     (if next = 0 \<or> um_find timers next \<noteq> None then fresh_timer_id fuel timers (next + 1) else Some (next, next + 1))"

definition timer_ctx :: "handle \<Rightarrow> u64 \<Rightarrow> IoContext" where
  "timer_ctx h userKey = pinned h None ((new_IoContext Op_User 0)\<lparr>ic_userKey := userKey, ic_iocpOwned := True\<rparr>)"

text \<open>The first half of \<^verbatim>\<open>ScheduleTimeout\<close>, up to the timer's entry in the map in phase \<open>Publishing\<close>; \<open>stored\<close> is false when the map cannot
  take it and throws.\<close>

definition schedule_publish :: "handle option \<Rightarrow> u64 \<Rightarrow> int \<Rightarrow> int \<Rightarrow> bool \<Rightarrow> iocp \<Rightarrow> u64 \<times> iocp" where
  "schedule_publish handle userKey delayMs now stored s =
     (case handle of
        None \<Rightarrow> (0, s)
      | Some h \<Rightarrow>
          if \<not> service_up s \<or> delayMs < 0 then (0, s)
          else
            let s1 = AddOutstanding h None s
            in case fresh_timer_id (length (io_timers s1) + 2) (io_timers s1) (io_nextTimerId s1) of
                 None \<Rightarrow> (0, ReleaseOutstanding h None s1)
               | Some (i, next) \<Rightarrow>
                   let s2 = s1\<lparr>io_nextTimerId := next\<rparr>;
                       t = \<lparr>ts_due = now + delayMs * 1000000, ts_handle = h, ts_ctx = Some (timer_ctx h userKey), ts_phase = Publishing\<rparr>
                   in if stored then (i, s2\<lparr>io_timers := um_set i t (io_timers s2)\<rparr>)
                      else (0, ReleaseOutstanding h None s2))"

text \<open>The second half: wake a worker; the timer becomes \<open>Pending\<close>, or is withdrawn if that fails.\<close>

definition schedule_finish :: "u64 \<Rightarrow> bool \<Rightarrow> iocp \<Rightarrow> u64 \<times> iocp" where
  "schedule_finish i scheduled s =
     (let s1 = PostIocpCompletion Wake scheduled s
      in case um_find (io_timers s1) i of
           None \<Rightarrow> (0, s1)
         | Some t \<Rightarrow>
             if \<not> scheduled then (0, ReleaseOutstanding (ts_handle t) None (s1\<lparr>io_timers := um_erase i (io_timers s1)\<rparr>))
             else (i, s1\<lparr>io_timers := um_set i (t\<lparr>ts_phase := Pending\<rparr>) (io_timers s1)\<rparr>))"

definition ScheduleTimeout :: "handle option \<Rightarrow> u64 \<Rightarrow> int \<Rightarrow> int \<Rightarrow> bool \<Rightarrow> bool \<Rightarrow> iocp \<Rightarrow> u64 \<times> iocp" where
  "ScheduleTimeout handle userKey delayMs now stored scheduled s =
     (let (i, s1) = schedule_publish handle userKey delayMs now stored s
      in if i = 0 then (0, s1) else schedule_finish i scheduled s1)"

definition Service_CancelTimeout :: "u64 \<Rightarrow> bool \<Rightarrow> iocp \<Rightarrow> iocp" where
  "Service_CancelTimeout i ok s =
     (if i = 0 then s
      else case um_find (io_timers s) i of
        None \<Rightarrow> s
      | Some t \<Rightarrow>
          if ts_phase t \<noteq> Pending then s
          else
            let s1 = ReleaseOutstanding (ts_handle t) None (s\<lparr>io_timers := um_erase i (io_timers s)\<rparr>)
            in if io_port s1 then UnpinIocpHandle (PostIocpCompletion Wake ok (PinIocpHandle s1)) else s1)"

definition due_now :: "int \<Rightarrow> TimerState \<Rightarrow> bool" where
  "due_now now t \<longleftrightarrow> ts_due t \<le> now \<and> ts_phase t = Pending"

definition claim_ctx :: "TimerState \<Rightarrow> IoContext list" where
  "claim_ctx t = (case ts_ctx t of None \<Rightarrow> [] | Some c \<Rightarrow> [c\<lparr>ic_handlePin := Some (ts_handle t)\<rparr>])"

definition nearest_due :: "(u64, TimerState) umap \<Rightarrow> int \<Rightarrow> int" where
  "nearest_due timers first = fold (\<lambda>kt near. if ts_due (snd kt) < near then ts_due (snd kt) else near) timers first"

definition timer_wait :: "int \<Rightarrow> (u64, TimerState) umap \<Rightarrow> int" where
  "timer_wait now timers =
     (case timers of
        [] \<Rightarrow> INFINITE
      | kt # _ \<Rightarrow>
          let nearest = nearest_due timers (ts_due (snd kt))
          in if nearest \<le> now then 0
             else
               let ms = (nearest - now) div 1000000
               in if ms \<le> 0 then 0 else if ms \<ge> INFINITE - 1 then INFINITE - 1 else ms)"

text \<open>The part of \<^verbatim>\<open>AdvanceTimers\<close> under the timer lock: the claimed contexts and the time to wait.\<close>

definition claim_timers :: "int \<Rightarrow> iocp \<Rightarrow> IoContext list \<times> int \<times> iocp" where
  "claim_timers now s =
     (let due = filter (\<lambda>kt. due_now now (snd kt)) (io_timers s);
          rest = filter (\<lambda>kt. \<not> due_now now (snd kt)) (io_timers s)
      in (concat (map (claim_ctx \<circ> snd) due), timer_wait now rest, s\<lparr>io_timers := rest\<rparr>))"

definition discardClaimed :: "IoContext \<Rightarrow> iocp \<Rightarrow> iocp" where
  "discardClaimed c s =
     (case (if ic_handlePin c \<noteq> None then ic_handlePin c else ic_accountingPin c) of
        Some h \<Rightarrow> ReleaseOutstanding h (ic_cancellationSocket c) s
      | None \<Rightarrow> ReleaseOutstandingWithoutHandle (ic_cancellationSocket c) s)"

text \<open>The rest of \<^verbatim>\<open>AdvanceTimers\<close>: one answer of \<^verbatim>\<open>PostQueuedCompletionStatus\<close> per claimed timer.\<close>

fun post_claimed :: "IoContext list \<Rightarrow> bool list \<Rightarrow> iocp \<Rightarrow> iocp" where
  "post_claimed [] oks s = s"
| "post_claimed (c # cs) oks s =
     post_claimed cs (tl oks)
       (if oks \<noteq> [] \<and> hd oks then PostIocpCompletion (TimerPacket c) True s else discardClaimed c (PostIocpCompletion Wake False s))"

definition post_timers :: "IoContext list \<Rightarrow> int \<Rightarrow> bool list \<Rightarrow> iocp \<Rightarrow> int \<times> iocp" where
  "post_timers claimed waitMs oks s =
     (if \<not> io_running s then (0, fold discardClaimed claimed s)
      else if \<not> io_port s then (waitMs, fold discardClaimed claimed s)
      else (waitMs, UnpinIocpHandle (post_claimed claimed oks (PinIocpHandle s))))"

definition ClearTimers :: "iocp \<Rightarrow> iocp" where
  "ClearTimers s =
     fold (\<lambda>kt s. if ts_phase (snd kt) = Pending \<or> ts_phase (snd kt) = Publishing
                  then ReleaseOutstanding (ts_handle (snd kt)) None s else s)
       (io_timers s) (s\<lparr>io_timers := []\<rparr>)"


section \<open>Workers\<close>

definition set_worker :: "nat \<Rightarrow> worker \<Rightarrow> iocp \<Rightarrow> iocp" where
  "set_worker i w s = s\<lparr>io_workers := (io_workers s)[i := w]\<rparr>"

text \<open>Take the lease and wait; without a port the loop ends.\<close>

definition begin_wait :: "nat \<Rightarrow> int \<Rightarrow> iocp \<Rightarrow> iocp" where
  "begin_wait i waitMs s = (if io_port s then set_worker i (Waiting waitMs) (PinIocpHandle s) else set_worker i Exited s)"

definition worker_top :: "nat \<Rightarrow> int \<Rightarrow> iocp \<Rightarrow> iocp" where
  "worker_top i now s =
     (if io_running s then
        let (claimed, waitMs, s1) = claim_timers now s in set_worker i (Posting claimed waitMs) s1
      else begin_wait i (if io_outstanding s = 0 then 0 else INFINITE) s)"

definition worker_post :: "nat \<Rightarrow> IoContext list \<Rightarrow> int \<Rightarrow> bool list \<Rightarrow> iocp \<Rightarrow> iocp" where
  "worker_post i claimed waitMs oks s = (let (w, s1) = post_timers claimed waitMs oks s in begin_wait i w s1)"

definition leave_or_loop :: "nat \<Rightarrow> iocp \<Rightarrow> iocp" where
  "leave_or_loop i s = set_worker i (if \<not> io_running s \<and> io_outstanding s = 0 then Exited else AtTop) s"

text \<open>A completion has been dequeued: its accounting starts to be undone, and its handler is called.\<close>

definition dispatch :: "nat \<Rightarrow> IoContext \<Rightarrow> iocp \<Rightarrow> iocp" where
  "dispatch i c s =
     (let s1 = UnregisterPendingSocket (ic_cancellationSocket c) s
      in case (if ic_handlePin c \<noteq> None then ic_handlePin c else ic_accountingPin c) of
           None \<Rightarrow> set_worker i AtTop (ReleaseOutstandingWithoutHandle None s1)
         | Some h \<Rightarrow> set_worker i (Handling h) s1)"

datatype gqcs = GotPacket | GotCompletion ctx_id | TimedOut | WaitFailed

definition worker_result :: "nat \<Rightarrow> gqcs \<Rightarrow> iocp \<Rightarrow> iocp" where
  "worker_result i r s =
     (let s1 = UnpinIocpHandle s
      in case r of
           TimedOut \<Rightarrow> leave_or_loop i s1
         | WaitFailed \<Rightarrow> set_worker i Exited s1
         | GotPacket \<Rightarrow>
             (case io_queue s1 of
                [] \<Rightarrow> s
              | Wake # q \<Rightarrow> leave_or_loop i (s1\<lparr>io_queue := q\<rparr>)
              | TimerPacket c # q \<Rightarrow> dispatch i c (s1\<lparr>io_queue := q\<rparr>))
         | GotCompletion k \<Rightarrow>
             (if k < length (io_ctxs s1) then
                let c = io_ctxs s1 ! k
                in dispatch i c (put_ctx k (c\<lparr>ic_handlePin := None, ic_accountingPin := None\<rparr>) s1)
              else s))"

definition worker_done :: "nat \<Rightarrow> handle \<Rightarrow> iocp \<Rightarrow> iocp" where
  "worker_done i h s = set_worker i AtTop (ReleaseOutstanding h None s)"

text \<open>The error a handler is given: that of the dequeued completion, or of the socket option that completes a connect or an accept
  (\<open>update\<close>, 0 when it succeeds).\<close>

definition completion_error :: "IoOp \<Rightarrow> bool \<Rightarrow> nat \<Rightarrow> nat \<Rightarrow> nat" where
  "completion_error op ok gqcsError update =
     (let err = (if ok then 0 else gqcsError)
      in if err = 0 \<and> (op = Op_Connect \<or> op = Op_Accept) then update else err)"


section \<open>Start and stop\<close>

text \<open>\<open>threads\<close>: \<open>None\<close> when every worker thread could be created; otherwise the service is taken down again at once.\<close>

definition Service_Start :: "nat \<Rightarrow> bool \<Rightarrow> nat option \<Rightarrow> iocp \<Rightarrow> bool \<times> iocp" where
  "Service_Start workerCount created threads s =
     (if io_stopping s then (False, s)
      else if io_running s then (io_port s, s)
      else if io_workers s \<noteq> [] then (False, s)
      else if \<not> created then (False, s)
      else
        case threads of
          None \<Rightarrow> (True, s\<lparr>io_port := True, io_running := True, io_queue := [], io_workers := replicate workerCount AtTop\<rparr>)
        | Some k \<Rightarrow> (False, s\<lparr>io_port := False, io_running := False, io_queue := [], io_workers := [], io_stopping := False\<rparr>))"

definition stop_begin :: "(nat \<Rightarrow> bool) \<Rightarrow> iocp \<Rightarrow> iocp" where
  "stop_begin oks s =
     (if \<not> io_running s then s
      else
        let s1 = CancelOutstandingSocketIo (ClearTimers (s\<lparr>io_running := False, io_stopping := True\<rparr>))
        in (if io_port s1 then WakeWorkers oks (length (io_workers s1)) s1 else s1)\<lparr>io_stopper := Draining\<rparr>)"

definition stop_drained :: "(nat \<Rightarrow> bool) \<Rightarrow> iocp \<Rightarrow> iocp" where
  "stop_drained oks s =
     (if io_stopper s = Draining \<and> io_outstanding s = 0
      then (if io_port s then WakeWorkers oks (length (io_workers s)) s else s)\<lparr>io_stopper := Joining\<rparr> else s)"

definition stop_joined :: "iocp \<Rightarrow> iocp" where
  "stop_joined s =
     (if io_stopper s = Joining \<and> (\<forall>w \<in> set (io_workers s). w = Exited)
      then s\<lparr>io_port := False, io_workers := [], io_stopper := Closing\<rparr> else s)"

definition stop_closed :: "iocp \<Rightarrow> iocp" where
  "stop_closed s =
     (if io_stopper s = Closing \<and> io_users s = 0 then s\<lparr>io_stopping := False, io_stopper := NoStop, io_queue := []\<rparr> else s)"


section \<open>Interleavings\<close>

datatype post =
    PRecv "sock_id option" "ctx_id option" "handle option" nat nat bool
  | PSend "sock_id option" "ctx_id option" "bytes option" nat nat "handle option" bool
  | PSendOwn "sock_id option" "ctx_id option" nat nat "handle option" bool
  | PRecvFrom "sock_id option" "ctx_id option" "handle option" bool
  | PSendTo "sock_id option" "ctx_id option" "bytes option" nat "sockaddr_storage option" int "handle option" bool
  | PSendToOwn "sock_id option" "ctx_id option" nat "sockaddr_storage option" int "handle option" bool
  | PConnect "sock_id option" "ctx_id option" "sockaddr_storage option" int "handle option" bool bool bool
  | PAccept "sock_id option" "sock_id option" "ctx_id option" bool nat "handle option" bool bool
  | PUser "handle option" "ctx_id option" u64 bool

fun run_post :: "post \<Rightarrow> iocp \<Rightarrow> bool \<times> iocp" where
  "run_post (PRecv sk c h off len ok) s = PostRecv sk c h off len ok s"
| "run_post (PSend sk c d off len h ok) s = PostSend sk c d off len h ok s"
| "run_post (PSendOwn sk c off len h ok) s = PostSend_own sk c off len h ok s"
| "run_post (PRecvFrom sk c h ok) s = PostRecvFrom sk c h ok s"
| "run_post (PSendTo sk c d len a n h ok) s = PostSendTo sk c d len a n h ok s"
| "run_post (PSendToOwn sk c len a n h ok) s = PostSendTo_own sk c len a n h ok s"
| "run_post (PConnect sk c a n h bound loaded ok) s = PostConnect sk c a n h bound loaded ok s"
| "run_post (PAccept ls as c own n h ex ok) s = Service_PostAccept ls as c own n h ex ok s"
| "run_post (PUser h c k ok) s = PostUser h c k ok s"

datatype iocp_event =
    IvStart nat bool "nat option"
  | IvNewContext IoOp nat
  | IvPost post
  | IvPublish "handle option" u64 int int bool
  | IvPublished u64 bool
  | IvCancel u64 bool
  | IvTop nat int
  | IvPosted nat "bool list"
  | IvResult nat gqcs
  | IvHandled nat
  | IvStop "nat \<Rightarrow> bool"
  | IvDrained "nat \<Rightarrow> bool"
  | IvJoined
  | IvClosed

text \<open>A worker event finds the worker at the point of the loop it belongs to, or does not happen.\<close>

fun iocp_step :: "iocp_event \<Rightarrow> iocp \<Rightarrow> iocp" where
  "iocp_step (IvStart n created threads) s = snd (Service_Start n created threads s)"
| "iocp_step (IvNewContext op n) s = s\<lparr>io_ctxs := io_ctxs s @ [new_IoContext op n]\<rparr>"
| "iocp_step (IvPost p) s = snd (run_post p s)"
| "iocp_step (IvPublish h key delay now stored) s = snd (schedule_publish h key delay now stored s)"
| "iocp_step (IvPublished i ok) s = snd (schedule_finish i ok s)"
| "iocp_step (IvCancel i ok) s = Service_CancelTimeout i ok s"
| "iocp_step (IvTop i now) s = (if i < length (io_workers s) \<and> io_workers s ! i = AtTop then worker_top i now s else s)"
| "iocp_step (IvPosted i oks) s =
     (if i < length (io_workers s) then
        (case io_workers s ! i of Posting cs w \<Rightarrow> worker_post i cs w oks s | _ \<Rightarrow> s) else s)"
| "iocp_step (IvResult i r) s =
     (if i < length (io_workers s) then (case io_workers s ! i of Waiting w \<Rightarrow> worker_result i r s | _ \<Rightarrow> s) else s)"
| "iocp_step (IvHandled i) s =
     (if i < length (io_workers s) then (case io_workers s ! i of Handling h \<Rightarrow> worker_done i h s | _ \<Rightarrow> s) else s)"
| "iocp_step (IvStop oks) s = stop_begin oks s"
| "iocp_step (IvDrained oks) s = stop_drained oks s"
| "iocp_step IvJoined s = stop_joined s"
| "iocp_step IvClosed s = stop_closed s"

definition iocp_run :: "iocp_event list \<Rightarrow> iocp" where
  "iocp_run evs = fold iocp_step evs new_IocpService"

text \<open>The contract of the kernel and of the locks: a completion is dequeued only for an operation that is outstanding; the second half of
  \<^verbatim>\<open>ScheduleTimeout\<close> follows its first half, and both hold the lifecycle lock, so Stop does not come between them.\<close>

fun lawful :: "iocp_event \<Rightarrow> iocp \<Rightarrow> bool" where
  "lawful (IvResult i (GotCompletion k)) s \<longleftrightarrow> k < length (io_ctxs s) \<and> ic_accountingPin (io_ctxs s ! k) \<noteq> None"
| "lawful (IvPublished i ok) s \<longleftrightarrow> (\<exists>t. um_find (io_timers s) i = Some t \<and> ts_phase t = Publishing)"
| "lawful (IvStop oks) s \<longleftrightarrow> (\<forall>kt \<in> set (io_timers s). ts_phase (snd kt) = Pending)"
| "lawful _ s \<longleftrightarrow> True"

fun lawful_run :: "iocp_event list \<Rightarrow> iocp \<Rightarrow> bool" where
  "lawful_run [] s \<longleftrightarrow> True"
| "lawful_run (ev # evs) s \<longleftrightarrow> lawful ev s \<and> lawful_run evs (iocp_step ev s)"

end
