(* ===== verification/IocpLaws.thy ===== *)
theory IocpLaws
  imports Iocp
begin

text \<open>
  The books of the completion-port service: the counters of outstanding operations, per handle and in total, and the table of sockets
  with pending operations are exact, for every interleaving of posts, timers, workers and shutdown.  From this follow what a
  wait for zero means, that no guard against underflow is ever taken, and that the shutdown ends.
\<close>


section \<open>Balanced books\<close>

text \<open>\<open>balanced s P S\<close>: the counters stand at what the multiset \<open>P\<close> of pinned handles and the multiset \<open>S\<close> of registered sockets say.\<close>

definition opt_mset :: "'a option \<Rightarrow> 'a multiset" where
  "opt_mset x = (case x of None \<Rightarrow> {#} | Some y \<Rightarrow> {#y#})"

lemma opt_mset_simps [simp]: "opt_mset None = {#}" "opt_mset (Some x) = {#x#}"
  by (simp_all add: opt_mset_def)

definition socket_table :: "(sock_id, nat) umap \<Rightarrow> sock_id multiset \<Rightarrow> bool" where
  "socket_table m S \<longleftrightarrow> (\<forall>k. um_find m k = (if count S k = 0 then None else Some (count S k)))"

definition balanced :: "iocp \<Rightarrow> handle multiset \<Rightarrow> sock_id multiset \<Rightarrow> bool" where
  "balanced s P S \<longleftrightarrow> io_outstanding s = int (size P) \<and> (\<forall>h. io_pending s h = int (count P h)) \<and> socket_table (io_pendingSockets s) S"

lemma balanced_frame [simp]:
  "balanced (s\<lparr>io_port := a\<rparr>) P S = balanced s P S" "balanced (s\<lparr>io_users := n\<rparr>) P S = balanced s P S"
  "balanced (s\<lparr>io_running := a\<rparr>) P S = balanced s P S" "balanced (s\<lparr>io_stopping := a\<rparr>) P S = balanced s P S"
  "balanced (s\<lparr>io_stopper := x\<rparr>) P S = balanced s P S" "balanced (s\<lparr>io_workers := ws\<rparr>) P S = balanced s P S"
  "balanced (s\<lparr>io_timers := tm\<rparr>) P S = balanced s P S" "balanced (s\<lparr>io_nextTimerId := i\<rparr>) P S = balanced s P S"
  "balanced (s\<lparr>io_ctxs := cs\<rparr>) P S = balanced s P S" "balanced (s\<lparr>io_queue := q\<rparr>) P S = balanced s P S"
  "balanced (set_worker j w s) P S = balanced s P S" "balanced (put_ctx j c s) P S = balanced s P S"
  "balanced (PinIocpHandle s) P S = balanced s P S" "balanced (UnpinIocpHandle s) P S = balanced s P S"
  "balanced (PostIocpCompletion p ok s) P S = balanced s P S"
  by (simp_all add: balanced_def set_worker_def put_ctx_def PinIocpHandle_def UnpinIocpHandle_def PostIocpCompletion_def Let_def)

lemma balanced_Add: "balanced s P S \<Longrightarrow> balanced (AddOutstanding h sk s) (add_mset h P) (S + opt_mset sk)"
  by (cases sk) (auto simp: balanced_def AddOutstanding_def AddPending_def socket_table_def Let_def simp flip: count_eq_zero_iff)

lemma balanced_Unregister:
  assumes "balanced s P (S + opt_mset sk)"
  shows "balanced (UnregisterPendingSocket sk s) P S"
proof (cases sk)
  case (Some k)
  then have "um_find (io_pendingSockets s) k = Some (Suc (count S k))"
    using assms by (auto simp: balanced_def socket_table_def)
  then show ?thesis
    using assms Some by (auto simp: balanced_def socket_table_def UnregisterPendingSocket_def simp flip: count_eq_zero_iff split: if_splits)
qed (use assms in \<open>simp add: UnregisterPendingSocket_def\<close>)

lemma balanced_Release:
  assumes "balanced s (add_mset h P) (S + opt_mset sk)"
  shows "balanced (ReleaseOutstanding h sk s) P S"
proof -
  have "balanced (UnregisterPendingSocket sk s) (add_mset h P) S" using assms by (rule balanced_Unregister)
  then show ?thesis
    by (auto simp: balanced_def ReleaseOutstanding_def ReleaseOutstandingWithoutHandle_def ReleasePending_def UnregisterPendingSocket_def [of None]
        dec_guarded_def Let_def)
qed

text \<open>What the clients of such a counter need, once and for all: it can be returned to many times in any order.\<close>

locale counted =
  fixes acquire :: "'h \<Rightarrow> 's \<Rightarrow> 's" and release :: "'h \<Rightarrow> 's \<Rightarrow> 's" and bal :: "'s \<Rightarrow> 'h multiset \<Rightarrow> bool"
  assumes acquire_bal: "bal s P \<Longrightarrow> bal (acquire h s) (add_mset h P)"
    and release_bal: "bal s (add_mset h P) \<Longrightarrow> bal (release h s) P"
begin

lemma release_all: "bal s (mset hs + P) \<Longrightarrow> bal (fold release hs s) P"
proof (induction hs arbitrary: s)
  case (Cons h hs)
  then show ?case using release_bal [of s h "mset hs + P"] by simp
qed simp

lemma acquire_all: "bal s P \<Longrightarrow> bal (fold acquire hs s) (mset hs + P)"
proof (induction hs arbitrary: s P)
  case (Cons h hs)
  then show ?case using acquire_bal [of s P h] Cons.IH [of "acquire h s" "add_mset h P"] by simp
qed simp

lemma borrow: "bal s P \<Longrightarrow> mset hs = mset hs' \<Longrightarrow> bal (fold release hs' (fold acquire hs s)) P"
  using acquire_all [of s P hs] release_all [of "fold acquire hs s" hs' P] by simp

end

interpretation ops: counted "\<lambda>h. AddOutstanding h None" "\<lambda>h. ReleaseOutstanding h None" "\<lambda>s P. balanced s P S" for S
  by unfold_locales (use balanced_Add [of _ _ S _ None] balanced_Release [of _ _ _ S None] in simp_all)


section \<open>What is pinned\<close>

definition ctx_pins :: "IoContext list \<Rightarrow> handle multiset" where
  "ctx_pins cs = (\<Sum>c \<leftarrow> cs. opt_mset (ic_accountingPin c))"

fun packet_pins :: "packet \<Rightarrow> handle multiset" where
  "packet_pins Wake = {#}"
| "packet_pins (TimerPacket c) = opt_mset (ic_accountingPin c)"

fun worker_pins :: "worker \<Rightarrow> handle multiset" where
  "worker_pins (Posting cs w) = ctx_pins cs"
| "worker_pins (Handling h) = {#h#}"
| "worker_pins _ = {#}"

definition timer_pins :: "(u64, TimerState) umap \<Rightarrow> handle multiset" where
  "timer_pins tm = image_mset (ts_handle \<circ> snd) (mset tm)"

definition pins :: "iocp \<Rightarrow> handle multiset" where
  "pins s = ctx_pins (io_ctxs s) + timer_pins (io_timers s) + (\<Sum>p \<leftarrow> io_queue s. packet_pins p) + (\<Sum>w \<leftarrow> io_workers s. worker_pins w)"

definition ctx_socks :: "IoContext \<Rightarrow> sock_id multiset" where
  "ctx_socks c = (if ic_accountingPin c = None then {#} else opt_mset (ic_cancellationSocket c))"

definition socks :: "iocp \<Rightarrow> sock_id multiset" where
  "socks s = (\<Sum>c \<leftarrow> io_ctxs s. ctx_socks c)"

text \<open>The contexts: both pins of a caller's context agree; a timer's context is pinned by the timer's handle and has no socket.\<close>

definition timer_ctx_ok :: "handle \<Rightarrow> IoContext \<Rightarrow> bool" where
  "timer_ctx_ok h c \<longleftrightarrow> ic_handlePin c = Some h \<and> ic_accountingPin c = Some h \<and> ic_cancellationSocket c = None \<and> ic_iocpOwned c"

definition timer_ok :: "TimerState \<Rightarrow> bool" where
  "timer_ok t \<longleftrightarrow> ts_phase t \<in> {Publishing, Pending} \<and> (\<exists>c. ts_ctx t = Some c \<and> timer_ctx_ok (ts_handle t) c)"

fun packet_ok :: "packet \<Rightarrow> bool" where
  "packet_ok Wake = True"
| "packet_ok (TimerPacket c) = (\<exists>h. timer_ctx_ok h c)"

fun worker_ok :: "worker \<Rightarrow> bool" where
  "worker_ok (Posting cs w) = (\<forall>c \<in> set cs. \<exists>h. timer_ctx_ok h c)"
| "worker_ok _ = True"

definition ctx_ok :: "IoContext \<Rightarrow> bool" where
  "ctx_ok c \<longleftrightarrow> ic_handlePin c = ic_accountingPin c"

definition is_waiting :: "worker \<Rightarrow> bool" where
  "is_waiting w = (case w of Waiting n \<Rightarrow> True | _ \<Rightarrow> False)"

definition shape :: "iocp \<Rightarrow> bool" where
  "shape s \<longleftrightarrow> um_wf (io_timers s) \<and> um_find (io_timers s) 0 = None \<and> (\<forall>kt \<in> set (io_timers s). timer_ok (snd kt)) \<and>
     list_all packet_ok (io_queue s) \<and> list_all worker_ok (io_workers s) \<and> list_all ctx_ok (io_ctxs s)"

definition leases :: "iocp \<Rightarrow> bool" where
  "leases s \<longleftrightarrow> io_users s = int (length (filter is_waiting (io_workers s)))"

definition books :: "iocp \<Rightarrow> bool" where
  "books s \<longleftrightarrow> balanced s (pins s) (socks s) \<and> shape s \<and> leases s"

section \<open>Frames\<close>

lemma sum_update:
  fixes f :: "'a \<Rightarrow> 'b multiset"
  assumes "i < length xs"
  shows "(\<Sum>x \<leftarrow> xs[i := v]. f x) + f (xs ! i) = (\<Sum>x \<leftarrow> xs. f x) + f v"
  using assms
proof (induction xs arbitrary: i)
  case (Cons y ys)
  then show ?case by (cases i) (auto simp: ac_simps)
qed simp

lemma ledger_fields [simp]:
  "io_port (AddOutstanding h sk s) = io_port s" "io_users (AddOutstanding h sk s) = io_users s"
  "io_running (AddOutstanding h sk s) = io_running s" "io_workers (AddOutstanding h sk s) = io_workers s"
  "io_timers (AddOutstanding h sk s) = io_timers s" "io_nextTimerId (AddOutstanding h sk s) = io_nextTimerId s"
  "io_ctxs (AddOutstanding h sk s) = io_ctxs s" "io_queue (AddOutstanding h sk s) = io_queue s"
  "io_stopper (AddOutstanding h sk s) = io_stopper s" "io_stopping (AddOutstanding h sk s) = io_stopping s"
  by (simp_all add: AddOutstanding_def AddPending_def Let_def split: option.split)

lemma unregister_fields [simp]:
  "io_port (UnregisterPendingSocket sk s) = io_port s" "io_users (UnregisterPendingSocket sk s) = io_users s"
  "io_running (UnregisterPendingSocket sk s) = io_running s" "io_workers (UnregisterPendingSocket sk s) = io_workers s"
  "io_timers (UnregisterPendingSocket sk s) = io_timers s" "io_nextTimerId (UnregisterPendingSocket sk s) = io_nextTimerId s"
  "io_ctxs (UnregisterPendingSocket sk s) = io_ctxs s" "io_queue (UnregisterPendingSocket sk s) = io_queue s"
  "io_stopper (UnregisterPendingSocket sk s) = io_stopper s" "io_stopping (UnregisterPendingSocket sk s) = io_stopping s"
  "io_outstanding (UnregisterPendingSocket sk s) = io_outstanding s"
  by (simp_all add: UnregisterPendingSocket_def split: option.split nat.split)

lemma release_fields [simp]:
  "io_port (ReleaseOutstanding h sk s) = io_port s" "io_users (ReleaseOutstanding h sk s) = io_users s"
  "io_running (ReleaseOutstanding h sk s) = io_running s" "io_workers (ReleaseOutstanding h sk s) = io_workers s"
  "io_timers (ReleaseOutstanding h sk s) = io_timers s" "io_nextTimerId (ReleaseOutstanding h sk s) = io_nextTimerId s"
  "io_ctxs (ReleaseOutstanding h sk s) = io_ctxs s" "io_queue (ReleaseOutstanding h sk s) = io_queue s"
  "io_stopper (ReleaseOutstanding h sk s) = io_stopper s" "io_stopping (ReleaseOutstanding h sk s) = io_stopping s"
  by (simp_all add: ReleaseOutstanding_def ReleaseOutstandingWithoutHandle_def ReleasePending_def Let_def)

lemma ledger_parts [simp]:
  "pins (AddOutstanding h sk s) = pins s" "socks (AddOutstanding h sk s) = socks s" "shape (AddOutstanding h sk s) = shape s"
  "leases (AddOutstanding h sk s) = leases s"
  "pins (ReleaseOutstanding h sk s) = pins s" "socks (ReleaseOutstanding h sk s) = socks s" "shape (ReleaseOutstanding h sk s) = shape s"
  "leases (ReleaseOutstanding h sk s) = leases s"
  "pins (UnregisterPendingSocket sk s) = pins s" "socks (UnregisterPendingSocket sk s) = socks s"
  "shape (UnregisterPendingSocket sk s) = shape s" "leases (UnregisterPendingSocket sk s) = leases s"
  by (simp_all add: pins_def socks_def shape_def leases_def)

lemma pins_put_ctx:
  assumes "i < length (io_ctxs s)"
  shows "pins (put_ctx i c s) + opt_mset (ic_accountingPin (io_ctxs s ! i)) = pins s + opt_mset (ic_accountingPin c)"
    and "socks (put_ctx i c s) + ctx_socks (io_ctxs s ! i) = socks s + ctx_socks c"
  using sum_update [OF assms, of "\<lambda>c. opt_mset (ic_accountingPin c)" c] sum_update [OF assms, of ctx_socks c]
  by (simp_all add: pins_def socks_def put_ctx_def ctx_pins_def ac_simps)

lemma pins_set_worker:
  assumes "i < length (io_workers s)"
  shows "pins (set_worker i w s) + worker_pins (io_workers s ! i) = pins s + worker_pins w"
  using sum_update [OF assms, of worker_pins w] by (simp add: pins_def set_worker_def ac_simps)

lemma socks_set_worker [simp]: "socks (set_worker i w s) = socks s"
  by (simp add: socks_def set_worker_def)

lemma put_ctx_shape: "shape s \<Longrightarrow> ctx_ok c \<Longrightarrow> shape (put_ctx i c s)" and put_ctx_leases [simp]: "leases (put_ctx i c s) = leases s"
  by (auto simp: shape_def put_ctx_def leases_def list_all_iff dest!: set_update_subset_insert [THEN subsetD])

lemma set_worker_shape: "shape s \<Longrightarrow> worker_ok w \<Longrightarrow> shape (set_worker i w s)"
  by (auto simp: shape_def set_worker_def list_all_iff dest!: set_update_subset_insert [THEN subsetD])

lemma pin_parts [simp]:
  "pins (s\<lparr>io_users := n\<rparr>) = pins s" "socks (s\<lparr>io_users := n\<rparr>) = socks s" "shape (s\<lparr>io_users := n\<rparr>) = shape s"
  "pins (PinIocpHandle s) = pins s" "socks (PinIocpHandle s) = socks s" "shape (PinIocpHandle s) = shape s"
  "pins (UnpinIocpHandle s) = pins s" "socks (UnpinIocpHandle s) = socks s" "shape (UnpinIocpHandle s) = shape s"
  by (simp_all add: pins_def socks_def shape_def PinIocpHandle_def UnpinIocpHandle_def)

lemma pin_fields [simp]:
  "io_workers (PinIocpHandle s) = io_workers s" "io_workers (UnpinIocpHandle s) = io_workers s"
  "io_ctxs (PinIocpHandle s) = io_ctxs s" "io_ctxs (UnpinIocpHandle s) = io_ctxs s"
  "io_queue (PinIocpHandle s) = io_queue s" "io_queue (UnpinIocpHandle s) = io_queue s"
  "io_timers (PinIocpHandle s) = io_timers s" "io_timers (UnpinIocpHandle s) = io_timers s"
  "io_running (PinIocpHandle s) = io_running s" "io_running (UnpinIocpHandle s) = io_running s"
  "io_port (PinIocpHandle s) = io_port s" "io_port (UnpinIocpHandle s) = io_port s"
  "io_outstanding (PinIocpHandle s) = io_outstanding s" "io_outstanding (UnpinIocpHandle s) = io_outstanding s"
  "io_users (PinIocpHandle s) = io_users s + 1" "io_users (UnpinIocpHandle s) = dec_guarded (io_users s)"
  "io_stopper (PinIocpHandle s) = io_stopper s" "io_stopper (UnpinIocpHandle s) = io_stopper s"
  by (simp_all add: PinIocpHandle_def UnpinIocpHandle_def)

lemma leases_nonneg: "leases s \<Longrightarrow> 0 \<le> io_users s"
  by (simp add: leases_def)

text \<open>Posting a packet: the lease it takes is given back at once.\<close>

lemma Post_eq: "0 \<le> io_users s \<Longrightarrow> PostIocpCompletion p ok s = (if ok then s\<lparr>io_queue := io_queue s @ [p]\<rparr> else s)"
  by (simp add: PostIocpCompletion_def PinIocpHandle_def UnpinIocpHandle_def dec_guarded_def)

lemma pins_enqueue:
  "pins (s\<lparr>io_queue := io_queue s @ [p]\<rparr>) = pins s + packet_pins p" "socks (s\<lparr>io_queue := q\<rparr>) = socks s"
  "leases (s\<lparr>io_queue := q\<rparr>) = leases s" "shape s \<Longrightarrow> packet_ok p \<Longrightarrow> shape (s\<lparr>io_queue := io_queue s @ [p]\<rparr>)"
  by (simp_all add: pins_def socks_def leases_def shape_def ac_simps)

lemma books_wake: "books s \<Longrightarrow> books (PostIocpCompletion Wake ok s)"
  by (auto simp: books_def Post_eq leases_nonneg pins_enqueue)

lemma books_wakes: "books s \<Longrightarrow> books (WakeWorkers oks n s)"
  by (induction n arbitrary: s) (simp_all add: books_wake)

lemma cancel_frame [simp]:
  "books (CancelOutstandingSocketIo s) = books s" "pins (CancelOutstandingSocketIo s) = pins s"
  "io_port (CancelOutstandingSocketIo s) = io_port s" "io_running (CancelOutstandingSocketIo s) = io_running s"
  "io_stopping (CancelOutstandingSocketIo s) = io_stopping s" "io_workers (CancelOutstandingSocketIo s) = io_workers s"
  "io_stopper (CancelOutstandingSocketIo s) = io_stopper s"
  by (simp_all add: CancelOutstandingSocketIo_def books_def balanced_def socket_table_def pins_def socks_def shape_def leases_def)

section \<open>Posting keeps the books\<close>

lemma issue_books:
  assumes "books s" and "i < length (io_ctxs s)" and "idle_ctx (io_ctxs s ! i)"
    and "ic_handlePin c = None" and "ic_accountingPin c = None"
  shows "books (snd (issue i c h sk d ok s))"
proof -
  have b: "balanced s (pins s) (socks s)" and sh: "shape s" "leases s" using assms(1) by (auto simp: books_def)
  have old: "ic_accountingPin (io_ctxs s ! i) = None" using assms(3) by (auto simp: idle_ctx_def)
  let ?s1 = "AddOutstanding h sk s"
  have a: "balanced ?s1 (add_mset h (pins s)) (socks s + opt_mset sk)" by (rule balanced_Add [OF b])
  show ?thesis
  proof (cases ok)
    case True
    have "pins (put_ctx i (pinned h sk c) ?s1) = add_mset h (pins s)" "socks (put_ctx i (pinned h sk c) ?s1) = socks s + opt_mset sk"
      using pins_put_ctx [of i ?s1 "pinned h sk c"] assms(2) old by (simp_all add: pinned_def ctx_socks_def)
    then show ?thesis
      using True a sh put_ctx_shape [of ?s1 "pinned h sk c" i] by (simp add: issue_def Let_def books_def ctx_ok_def pinned_def)
  next
    case False
    define c2 where "c2 = (if d then (ClearContextPins (pinned h sk c))\<lparr>ic_bufferPin := None\<rparr> else ClearContextPins (pinned h sk c))"
    have c2: "ic_accountingPin c2 = None" "ctx_ok c2" "ctx_socks c2 = {#}" by (simp_all add: c2_def ClearContextPins_def ctx_ok_def ctx_socks_def)
    let ?s2 = "ReleaseOutstanding h sk ?s1"
    have "pins (put_ctx i c2 ?s2) = pins s" "socks (put_ctx i c2 ?s2) = socks s"
      using pins_put_ctx [of i ?s2 c2] assms(2) old c2 by (simp_all add: ctx_socks_def)
    moreover have "balanced ?s2 (pins s) (socks s)" by (rule balanced_Release [OF a])
    moreover have "snd (issue i c h sk d ok s) = put_ctx i c2 ?s2" using False by (simp add: issue_def c2_def pinned_def Let_def)
    ultimately show ?thesis using sh put_ctx_shape [of ?s2 c2 i] c2(2) by (simp add: books_def)
  qed
qed

text \<open>A posting function refuses and changes nothing, or issues one operation on an idle context.\<close>

lemma reset_idle [simp]: "idle_ctx c \<Longrightarrow> ic_handlePin (IoContext_Reset op c) = None" "idle_ctx c \<Longrightarrow> ic_accountingPin (IoContext_Reset op c) = None"
  by (simp_all add: IoContext_Reset_def idle_ctx_def)

definition issues :: "(bool \<times> iocp) \<Rightarrow> iocp \<Rightarrow> bool" where
  "issues r s \<longleftrightarrow> r = (False, s) \<or>
     (\<exists>i c h sk d ok. i < length (io_ctxs s) \<and> idle_ctx (io_ctxs s ! i) \<and> ic_handlePin c = None \<and> ic_accountingPin c = None \<and>
        service_up s \<and> r = issue i c h sk d ok s)"

lemma issuesI:
  assumes "get_ctx (Some i) s = Some c0" and "idle_ctx c0" and "service_up s" and "ic_handlePin c = None" and "ic_accountingPin c = None"
  shows "issues (issue i c h sk d ok s) s"
  using assms unfolding issues_def get_ctx_def by (fastforce split: if_splits)

lemma issues_refused [simp]: "issues (False, s) s"
  by (simp add: issues_def)

lemma get_ctx_None [simp]: "get_ctx None s = None"
  by (simp add: get_ctx_def)

lemma posts_issue:
  "issues (PostRecv sk ctx h off len ok s) s" "issues (PostSend sk ctx d off len h ok s) s" "issues (PostRecvFrom sk ctx h ok s) s"
  "issues (PostSendTo sk ctx d len a n h ok s) s" "issues (PostConnect sk ctx a n h bd ld ok s) s"
  "issues (Service_PostAccept ls sk ctx own m h ex ok s) s" "issues (PostUser h ctx key ok s) s"
  by (cases ctx; auto simp: PostRecv_def PostSend_def PostRecvFrom_def PostSendTo_def PostConnect_def Service_PostAccept_def PostUser_def Let_def
      split: option.split intro!: issuesI)+

lemma run_post_issues: "issues (run_post p s) s"
  by (cases p) (auto simp: posts_issue PostSend_own_def PostSendTo_own_def split: option.split)

lemma post_refused: "\<not> io_running s \<Longrightarrow> run_post p s = (False, s)"
  using run_post_issues [of p s] by (auto simp: issues_def service_up_def)

lemma books_post: "books s \<Longrightarrow> books (snd (run_post p s))"
  using run_post_issues [of p s] unfolding issues_def by (auto intro: issue_books)


section \<open>Timers keep the books\<close>

lemma um_mset_set_old: "um_wf m \<Longrightarrow> um_find m k = Some v \<Longrightarrow> mset (um_set k w m) = add_mset (k, w) (mset (um_erase k m))"
proof (induction m)
  case (Cons kv m)
  then have "um_wf m" by (simp add: um_wf_def)
  moreover have "fst kv = k \<Longrightarrow> um_find m k = None" using Cons.prems(1) by (cases kv) (auto simp: um_wf_def map_of_eq_None_iff)
  ultimately show ?case using Cons by (cases kv) (auto simp: um_erase_absent)
qed simp

lemma fresh_timer_idD: "fresh_timer_id fuel tm next = Some (i, n) \<Longrightarrow> i \<noteq> 0 \<and> um_find tm i = None"
  by (induction fuel tm "next" rule: fresh_timer_id.induct) (auto split: if_splits)

lemma timer_ctx_is_ok: "timer_ctx_ok h (timer_ctx h key)"
  by (simp add: timer_ctx_ok_def timer_ctx_def pinned_def)

lemma pins_timers: "pins (s\<lparr>io_timers := tm\<rparr>) + timer_pins (io_timers s) = pins s + timer_pins tm" "socks (s\<lparr>io_timers := tm\<rparr>) = socks s"
  "leases (s\<lparr>io_timers := tm\<rparr>) = leases s"
  by (simp_all add: pins_def socks_def leases_def ac_simps)

lemma pins_nextId [simp]: "pins (s\<lparr>io_nextTimerId := i\<rparr>) = pins s" "socks (s\<lparr>io_nextTimerId := i\<rparr>) = socks s"
  "shape (s\<lparr>io_nextTimerId := i\<rparr>) = shape s" "leases (s\<lparr>io_nextTimerId := i\<rparr>) = leases s"
  by (simp_all add: pins_def socks_def shape_def leases_def)

lemma shape_timers:
  assumes "shape s"
  shows "i \<noteq> 0 \<Longrightarrow> timer_ok t \<Longrightarrow> shape (s\<lparr>io_timers := um_set i t (io_timers s)\<rparr>)"
    and "shape (s\<lparr>io_timers := um_erase i (io_timers s)\<rparr>)" and "shape (s\<lparr>io_timers := filter Q (io_timers s)\<rparr>)"
proof -
  have "set (um_set i t tm) \<subseteq> insert (i, t) (set tm)" for tm by (induction tm) auto
  then show "i \<noteq> 0 \<Longrightarrow> timer_ok t \<Longrightarrow> shape (s\<lparr>io_timers := um_set i t (io_timers s)\<rparr>)"
    using assms by (fastforce simp: shape_def)
  have "set (um_erase i tm) \<subseteq> set tm" for tm by (auto simp: AList.delete_eq)
  then show "shape (s\<lparr>io_timers := um_erase i (io_timers s)\<rparr>)" using assms by (auto simp: shape_def)
  have "um_find (filter Q tm) 0 = None" if "um_find tm 0 = None" for tm
    using that by (induction tm) (auto split: if_splits)
  then show "shape (s\<lparr>io_timers := filter Q (io_timers s)\<rparr>)" using assms by (auto simp: shape_def)
qed

lemma books_publish:
  assumes "books s"
  shows "books (snd (schedule_publish h key delay now stored s))"
proof (cases h)
  case (Some g)
  have b: "balanced s (pins s) (socks s)" and sh: "shape s" "leases s" using assms by (auto simp: books_def)
  let ?s1 = "AddOutstanding g None s"
  have a: "balanced ?s1 (add_mset g (pins s)) (socks s)" using balanced_Add [OF b, of g None] by simp
  then have undone: "books (ReleaseOutstanding g None ?s1)" "books (ReleaseOutstanding g None (?s1\<lparr>io_nextTimerId := n\<rparr>))" for n
    using sh ops.release_bal [of ?s1 g "pins s" "socks s"] ops.release_bal [of "?s1\<lparr>io_nextTimerId := n\<rparr>" g "pins s" "socks s"]
    by (simp_all add: books_def)
  have "books (?s1\<lparr>io_nextTimerId := n, io_timers := um_set i t (io_timers s)\<rparr>)"
    if "i \<noteq> 0" "um_find (io_timers s) i = None" "ts_handle t = g" "timer_ok t" for n i t
    using that a sh pins_timers [where s = "?s1\<lparr>io_nextTimerId := n\<rparr>" and tm = "um_set i t (io_timers s)"]
      shape_timers(1) [of "?s1\<lparr>io_nextTimerId := n\<rparr>" i t]
    by (simp add: books_def timer_pins_def um_mset_set_new)
  then show ?thesis
    using assms Some undone timer_ctx_is_ok fresh_timer_idD
    by (auto simp: schedule_publish_def Let_def timer_ok_def split: option.split)
qed (use assms in \<open>simp add: schedule_publish_def\<close>)

lemma timer_pins_find:
  assumes "um_wf tm" and "um_find tm i = Some t"
  shows "timer_pins tm = add_mset (ts_handle t) (timer_pins (um_erase i tm))"
    and "timer_pins (um_set i u tm) = add_mset (ts_handle u) (timer_pins (um_erase i tm))"
  using um_mset_erase [OF assms] um_mset_set_old [OF assms, of u] by (simp_all add: timer_pins_def)

lemma shape_find: "shape s \<Longrightarrow> um_find (io_timers s) i = Some t \<Longrightarrow> i \<noteq> 0 \<and> timer_ok t"
  by (force simp: shape_def dest: map_of_SomeD)

text \<open>A timer is taken out of the map and its operation is released.\<close>

lemma books_drop_timer:
  assumes "books s" and "um_find (io_timers s) i = Some t"
  shows "books (ReleaseOutstanding (ts_handle t) None (s\<lparr>io_timers := um_erase i (io_timers s)\<rparr>))"
proof -
  let ?s1 = "s\<lparr>io_timers := um_erase i (io_timers s)\<rparr>"
  have b: "balanced s (pins s) (socks s)" and sh: "shape s" "leases s" using assms(1) by (auto simp: books_def)
  have "um_wf (io_timers s)" using sh(1) by (simp add: shape_def)
  note tp = timer_pins_find(1) [OF this assms(2)]
  have "pins s = add_mset (ts_handle t) (pins ?s1)"
    using pins_timers(1) [where s = s and tm = "um_erase i (io_timers s)"] by (simp add: tp)
  then have "balanced ?s1 (add_mset (ts_handle t) (pins ?s1)) (socks ?s1)" using b by (simp add: pins_timers(2))
  from ops.release_bal [OF this] show ?thesis using sh shape_timers(2) [OF sh(1)] by (simp add: books_def pins_timers)
qed

lemma books_phase:
  assumes "books s" and "um_find (io_timers s) i = Some t"
  shows "books (s\<lparr>io_timers := um_set i (t\<lparr>ts_phase := Pending\<rparr>) (io_timers s)\<rparr>)"
proof -
  have b: "balanced s (pins s) (socks s)" and sh: "shape s" "leases s" using assms(1) by (auto simp: books_def)
  have wf: "um_wf (io_timers s)" using sh(1) by (simp add: shape_def)
  have "timer_pins (um_set i (t\<lparr>ts_phase := Pending\<rparr>) (io_timers s)) = timer_pins (io_timers s)"
    using timer_pins_find(1) [OF wf assms(2)] timer_pins_find(2) [OF wf assms(2), of "t\<lparr>ts_phase := Pending\<rparr>"] by simp
  then have "pins (s\<lparr>io_timers := um_set i (t\<lparr>ts_phase := Pending\<rparr>) (io_timers s)\<rparr>) = pins s"
    using pins_timers(1) [where s = s] by (metis add_right_cancel)
  moreover have "i \<noteq> 0" "timer_ok (t\<lparr>ts_phase := Pending\<rparr>)" using shape_find [OF sh(1) assms(2)] by (auto simp: timer_ok_def)
  ultimately show ?thesis using b sh shape_timers(1) [OF sh(1)] by (simp add: books_def pins_timers)
qed

lemma books_finish: "books s \<Longrightarrow> books (snd (schedule_finish i ok s))"
  using books_wake [of s ok] books_phase [of "PostIocpCompletion Wake ok s" i] books_drop_timer [of "PostIocpCompletion Wake ok s" i]
  by (cases ok) (auto simp: schedule_finish_def Let_def split: option.split)

lemma dec_inc [simp]: "0 \<le> n \<Longrightarrow> dec_guarded (n + 1) = n"
  by (simp add: dec_guarded_def)

lemma lease_wake: "0 \<le> io_users s \<Longrightarrow> UnpinIocpHandle (PostIocpCompletion p ok (PinIocpHandle s)) = PostIocpCompletion p ok s"
  by (simp add: Post_eq) (simp add: PinIocpHandle_def UnpinIocpHandle_def dec_guarded_def)

lemma books_cancel: "books s \<Longrightarrow> books (Service_CancelTimeout i ok s)"
proof -
  assume b: "books s"
  then have "0 \<le> io_users s" by (simp add: books_def leases_nonneg)
  with b show ?thesis
    using books_drop_timer [OF b] books_wake by (auto simp: Service_CancelTimeout_def Let_def lease_wake split: option.split)
qed

lemma claim_ctx_eq: "timer_ok t \<Longrightarrow> \<exists>c. claim_ctx t = [c] \<and> timer_ctx_ok (ts_handle t) c"
  by (auto simp: timer_ok_def claim_ctx_def timer_ctx_ok_def)

lemma claimed_ok:
  "\<forall>kt \<in> set tm. timer_ok (snd kt) \<Longrightarrow>
     (\<forall>c \<in> set (concat (map (claim_ctx \<circ> snd) tm)). \<exists>h. timer_ctx_ok h c) \<and> ctx_pins (concat (map (claim_ctx \<circ> snd) tm)) = timer_pins tm"
proof (induction tm)
  case (Cons kt tm)
  obtain c where c: "claim_ctx (snd kt) = [c]" "timer_ctx_ok (ts_handle (snd kt)) c" using claim_ctx_eq Cons.prems by fastforce
  then have "ic_accountingPin c = Some (ts_handle (snd kt))" by (simp add: timer_ctx_ok_def)
  with Cons c show ?case by (auto simp: ctx_pins_def timer_pins_def)
qed (simp add: ctx_pins_def timer_pins_def)

lemma timer_pins_partition: "timer_pins (filter Q tm) + timer_pins (filter (\<lambda>kt. \<not> Q kt) tm) = timer_pins tm"
  by (induction tm) (simp_all add: timer_pins_def)

lemma leases_set:
  assumes "leases s" and "i < length (io_workers s)"
  shows "is_waiting w = is_waiting (io_workers s ! i) \<Longrightarrow> leases (set_worker i w s)"
    and "\<not> is_waiting (io_workers s ! i) \<Longrightarrow> leases (set_worker i (Waiting n) (PinIocpHandle s))"
    and "is_waiting (io_workers s ! i) \<Longrightarrow> \<not> is_waiting w \<Longrightarrow> leases (set_worker i w (UnpinIocpHandle s))"
proof -
  note f = filter_update_count [OF assms(2), of is_waiting] and m = filter_member_pos [OF assms(2), of is_waiting]
  show "is_waiting w = is_waiting (io_workers s ! i) \<Longrightarrow> leases (set_worker i w s)"
    using assms(1) m by (auto simp: leases_def set_worker_def f)
  show "\<not> is_waiting (io_workers s ! i) \<Longrightarrow> leases (set_worker i (Waiting n) (PinIocpHandle s))"
    using assms(1) by (simp add: leases_def set_worker_def PinIocpHandle_def f is_waiting_def [of "Waiting n"])
  show "is_waiting (io_workers s ! i) \<Longrightarrow> \<not> is_waiting w \<Longrightarrow> leases (set_worker i w (UnpinIocpHandle s))"
    using assms(1) m by (auto simp: leases_def set_worker_def UnpinIocpHandle_def f dec_guarded_def)
qed

text \<open>A worker goes from one point of its loop to another, and its pins with it.\<close>

lemma books_wait:
  assumes "balanced s (pins s - worker_pins (io_workers s ! i)) (socks s)" and "shape s" and "leases s"
    and "i < length (io_workers s)" and "\<not> is_waiting (io_workers s ! i)"
  shows "books (begin_wait i w s)"
proof -
  have "pins (set_worker i x s) = pins s - worker_pins (io_workers s ! i)"
    "pins (set_worker i x (PinIocpHandle s)) = pins s - worker_pins (io_workers s ! i)" if "worker_pins x = {#}" for x
    using pins_set_worker [of i s x] pins_set_worker [of i "PinIocpHandle s" x] assms(4) that
    by (metis add.right_neutral add_diff_cancel_right' pin_fields(1) pin_parts(4))+
  then show ?thesis
    using assms leases_set(1) [OF assms(3,4), of Exited] leases_set(2) [OF assms(3,4), of w] set_worker_shape [OF assms(2)]
    by (auto simp: begin_wait_def books_def is_waiting_def [of Exited] set_worker_shape)
qed

lemma worker_top_books:
  assumes "books s" and "i < length (io_workers s)" and "io_workers s ! i = AtTop"
  shows "books (worker_top i now s)"
proof -
  have b: "balanced s (pins s) (socks s)" and sh: "shape s" "leases s" using assms(1) by (auto simp: books_def)
  let ?Q = "\<lambda>kt. due_now now (snd kt)"
  let ?cs = "concat (map (claim_ctx \<circ> snd) (filter ?Q (io_timers s)))"
  let ?rest = "filter (\<lambda>kt. \<not> ?Q kt) (io_timers s)"
  let ?s1 = "s\<lparr>io_timers := ?rest\<rparr>"
  have due: "\<forall>kt \<in> set (filter ?Q (io_timers s)). timer_ok (snd kt)" using sh(1) by (auto simp: shape_def)
  have cs: "\<forall>c \<in> set ?cs. \<exists>h. timer_ctx_ok h c" "ctx_pins ?cs = timer_pins (filter ?Q (io_timers s))"
    using claimed_ok [OF due] by simp_all
  have "pins s + timer_pins ?rest = (pins ?s1 + ctx_pins ?cs) + timer_pins ?rest"
    unfolding cs(2) using pins_timers(1) [where s = s and tm = ?rest]
    by (simp add: timer_pins_partition [of ?Q "io_timers s", symmetric] ac_simps)
  then have p1: "pins s = pins ?s1 + ctx_pins ?cs" by (simp only: add_right_cancel)
  have "pins (set_worker i (Posting ?cs w) ?s1) = pins s" for w
    using pins_set_worker [of i ?s1 "Posting ?cs w"] assms(2,3) p1 by simp
  moreover have "shape (set_worker i (Posting ?cs w) ?s1)" for w
    using set_worker_shape [OF shape_timers(3) [OF sh(1)]] cs(1) by simp
  moreover have "leases (set_worker i (Posting ?cs w) ?s1)" for w
    using leases_set(1) [of ?s1 i "Posting ?cs w"] sh(2) assms(2,3) by (simp add: is_waiting_def pins_timers(3))
  ultimately have "io_running s \<Longrightarrow> ?thesis"
    using b by (simp add: worker_top_def claim_timers_def Let_def books_def pins_timers(2))
  moreover have "books (begin_wait i w s)" for w
    by (rule books_wait) (use b sh assms(2,3) in \<open>simp_all add: is_waiting_def\<close>)
  ultimately show ?thesis by (auto simp: worker_top_def)
qed

lemma release_all_frame [simp]:
  "io_workers (fold (\<lambda>h. ReleaseOutstanding h None) gs u) = io_workers u" "io_timers (fold (\<lambda>h. ReleaseOutstanding h None) gs u) = io_timers u"
  "io_port (fold (\<lambda>h. ReleaseOutstanding h None) gs u) = io_port u" "io_running (fold (\<lambda>h. ReleaseOutstanding h None) gs u) = io_running u"
  "io_stopping (fold (\<lambda>h. ReleaseOutstanding h None) gs u) = io_stopping u" "io_queue (fold (\<lambda>h. ReleaseOutstanding h None) gs u) = io_queue u"
  "pins (fold (\<lambda>h. ReleaseOutstanding h None) gs u) = pins u" "socks (fold (\<lambda>h. ReleaseOutstanding h None) gs u) = socks u"
  "shape (fold (\<lambda>h. ReleaseOutstanding h None) gs u) = shape u" "leases (fold (\<lambda>h. ReleaseOutstanding h None) gs u) = leases u"
  by (induction gs arbitrary: u; simp)+

text \<open>Claimed timers are posted or discarded; while that goes on, their pins \<open>ctx_pins cs\<close> are still with the worker.\<close>

lemma discard_eq: "timer_ctx_ok h c \<Longrightarrow> discardClaimed c s = ReleaseOutstanding h None s"
  by (simp add: discardClaimed_def timer_ctx_ok_def)

lemma discard_all:
  assumes "\<forall>c \<in> set cs. \<exists>h. timer_ctx_ok h c" and "balanced s (ctx_pins cs + P) S"
  shows "balanced (fold discardClaimed cs s) P S"
    and "io_workers (fold discardClaimed cs s) = io_workers s" "pins (fold discardClaimed cs s) = pins s" "socks (fold discardClaimed cs s) = socks s"
    "shape (fold discardClaimed cs s) = shape s" "leases (fold discardClaimed cs s) = leases s" "io_port (fold discardClaimed cs s) = io_port s"
proof -
  define hs where "hs = map (\<lambda>c. the (ic_accountingPin c)) cs"
  have "fold discardClaimed cs s = fold (\<lambda>h. ReleaseOutstanding h None) hs s \<and> ctx_pins cs = mset hs"
    using assms(1) unfolding hs_def
  proof (induction cs arbitrary: s)
    case (Cons c cs)
    then obtain h where h: "timer_ctx_ok h c" by auto
    then have "ic_accountingPin c = Some h" by (simp add: timer_ctx_ok_def)
    with Cons h show ?case by (simp add: discard_eq ctx_pins_def)
  qed (simp add: ctx_pins_def)
  then have eq: "fold discardClaimed cs s = fold (\<lambda>h. ReleaseOutstanding h None) hs s" "ctx_pins cs = mset hs" by auto
  show "balanced (fold discardClaimed cs s) P S" unfolding eq(1) using assms(2) eq(2) by (intro ops.release_all) simp
  show "io_workers (fold discardClaimed cs s) = io_workers s" "pins (fold discardClaimed cs s) = pins s" "socks (fold discardClaimed cs s) = socks s"
    "shape (fold discardClaimed cs s) = shape s" "leases (fold discardClaimed cs s) = leases s" "io_port (fold discardClaimed cs s) = io_port s"
    by (simp_all add: eq(1))
qed

definition mid_post :: "iocp \<Rightarrow> nat \<Rightarrow> IoContext list \<Rightarrow> bool" where
  "mid_post s i cs \<longleftrightarrow> balanced s (pins s - worker_pins (io_workers s ! i) + ctx_pins cs) (socks s) \<and> shape s \<and> leases s \<and>
     (\<forall>c \<in> set cs. \<exists>h. timer_ctx_ok h c) \<and> i < length (io_workers s) \<and> worker_pins (io_workers s ! i) \<subseteq># pins s"

lemma worker_pins_sub: "i < length (io_workers s) \<Longrightarrow> worker_pins (io_workers s ! i) \<subseteq># pins s"
  using pins_set_worker [of i s Exited] by (metis mset_subset_eq_add_right worker_pins.simps(5) add.right_neutral)

lemma mid_post_step:
  assumes "mid_post s i (c # cs)"
  shows "mid_post (s\<lparr>io_queue := io_queue s @ [TimerPacket c]\<rparr>) i cs" and "mid_post (discardClaimed c s) i cs"
proof -
  obtain h where h: "timer_ctx_ok h c" using assms by (auto simp: mid_post_def)
  then have a: "ic_accountingPin c = Some h" by (simp add: timer_ctx_ok_def)
  have b: "balanced s (add_mset h (pins s - worker_pins (io_workers s ! i) + ctx_pins cs)) (socks s)"
  proof -
    have "balanced s (pins s - worker_pins (io_workers s ! i) + ctx_pins (c # cs)) (socks s)" using assms by (simp only: mid_post_def)
    moreover have "W + ctx_pins (c # cs) = add_mset h (W + ctx_pins cs)" for W using a by (simp add: ctx_pins_def)
    ultimately show ?thesis by simp
  qed
  have sub: "worker_pins (io_workers s ! i) \<subseteq># pins s" using assms by (simp add: mid_post_def)
  have "pins (s\<lparr>io_queue := io_queue s @ [TimerPacket c]\<rparr>) - worker_pins (io_workers s ! i) = add_mset h (pins s - worker_pins (io_workers s ! i))"
    using multiset_diff_union_assoc [OF sub, of "{#h#}"] a by (simp add: pins_enqueue(1))
  then show "mid_post (s\<lparr>io_queue := io_queue s @ [TimerPacket c]\<rparr>) i cs"
    using assms b h pins_enqueue by (auto simp: mid_post_def intro: subset_mset.order_trans)
  show "mid_post (discardClaimed c s) i cs"
    using assms ops.release_bal [OF b] by (simp add: discard_eq [OF h] mid_post_def)
qed

lemma mid_post_all: "mid_post s i cs \<Longrightarrow> mid_post (post_claimed cs oks s) i [] \<and> io_workers (post_claimed cs oks s) = io_workers s"
proof (induction cs arbitrary: oks s)
  case (Cons c cs)
  have u: "0 \<le> io_users s" using Cons.prems by (simp add: mid_post_def leases_nonneg)
  obtain h where "timer_ctx_ok h c" using Cons.prems by (auto simp: mid_post_def)
  then have "io_workers (discardClaimed c s) = io_workers s" by (simp add: discard_eq)
  then show ?case
    using Cons.IH [OF mid_post_step(1) [OF Cons.prems], of "tl oks"] Cons.IH [OF mid_post_step(2) [OF Cons.prems], of "tl oks"]
    by (simp add: Post_eq [OF u])
qed simp

lemma discard_users: "discardClaimed c (s\<lparr>io_users := n\<rparr>) = (discardClaimed c s)\<lparr>io_users := n\<rparr>" "io_users (discardClaimed c s) = io_users s"
  by (cases s; simp add: discardClaimed_def ReleaseOutstanding_def ReleaseOutstandingWithoutHandle_def ReleasePending_def
      UnregisterPendingSocket_def Let_def split: option.split nat.split)+

lemma post_claimed_users:
  "0 \<le> io_users s \<Longrightarrow> 0 \<le> n \<Longrightarrow> post_claimed cs oks (s\<lparr>io_users := n\<rparr>) = (post_claimed cs oks s)\<lparr>io_users := n\<rparr> \<and>
     io_users (post_claimed cs oks s) = io_users s"
proof (induction cs arbitrary: oks s)
  case (Cons c cs)
  have swap: "s\<lparr>io_users := n, io_queue := q\<rparr> = s\<lparr>io_queue := q, io_users := n\<rparr>" for q by (cases s) simp
  show ?case
    using Cons.IH [of "s\<lparr>io_queue := io_queue s @ [TimerPacket c]\<rparr>" "tl oks"] Cons.IH [of "discardClaimed c s" "tl oks"] Cons.prems
    by (cases oks) (simp_all add: Post_eq discard_users swap)
qed simp

lemma worker_post_books:
  assumes "books s" and "i < length (io_workers s)" and "io_workers s ! i = Posting cs w"
  shows "books (worker_post i cs w oks s)"
proof -
  have sub: "ctx_pins cs \<subseteq># pins s" using worker_pins_sub [OF assms(2)] assms(3) by simp
  have cs: "\<forall>c \<in> set cs. \<exists>h. timer_ctx_ok h c" using assms by (auto simp: books_def shape_def list_all_length)
  have m: "mid_post s i cs" using assms sub cs by (simp add: mid_post_def books_def)
  have b: "balanced s (ctx_pins cs + (pins s - ctx_pins cs)) (socks s)" using assms(1) sub by (simp add: books_def)
  note d = discard_all [OF cs b]
  have discarded: "books (begin_wait i n (fold discardClaimed cs s))" for n
    by (rule books_wait) (use assms d in \<open>simp_all add: books_def is_waiting_def\<close>)
  have pin: "UnpinIocpHandle (post_claimed cs oks (PinIocpHandle s)) = post_claimed cs oks s"
    using assms(1) post_claimed_users [of s "io_users s + 1" cs oks]
    by (simp add: books_def leases_nonneg PinIocpHandle_def UnpinIocpHandle_def)
  have "books (begin_wait i n (post_claimed cs oks s))" for n
  proof (rule books_wait)
    let ?t = "post_claimed cs oks s"
    have t: "mid_post ?t i []" "io_workers ?t = io_workers s" using mid_post_all [OF m, of oks] by auto
    then show "balanced ?t (pins ?t - worker_pins (io_workers ?t ! i)) (socks ?t)" "shape ?t" "leases ?t" "i < length (io_workers ?t)"
      unfolding mid_post_def by (simp_all add: ctx_pins_def [of "[]"])
    show "\<not> is_waiting (io_workers ?t ! i)" using t(2) assms(3) by (simp add: is_waiting_def)
  qed
  with discarded show ?thesis by (simp add: worker_post_def post_timers_def pin)
qed

text \<open>A waiting worker has got something: \<open>u\<close> is the state in which it goes on as \<open>w\<close>.\<close>

lemma books_leave:
  assumes "leases s" and "i < length (io_workers s)" and "io_workers s ! i = Waiting n" and "\<not> is_waiting w" and "worker_ok w"
    and "io_workers u = io_workers s" and "io_users u = dec_guarded (io_users s)" and "shape u" and "balanced u (pins u + worker_pins w) (socks u)"
  shows "books (set_worker i w u)"
proof -
  have "leases (set_worker i w (UnpinIocpHandle s))" using leases_set(3) [OF assms(1,2)] assms(3,4) by (simp add: is_waiting_def)
  then have "leases (set_worker i w u)" using assms(6,7) by (simp add: leases_def set_worker_def)
  moreover have "pins (set_worker i w u) = pins u + worker_pins w" using pins_set_worker [of i u w] assms(2,3,6) by simp
  ultimately show ?thesis using assms(5,8,9) set_worker_shape by (simp add: books_def)
qed

lemma pins_dequeue: "io_queue s = p # q \<Longrightarrow> pins s = pins (s\<lparr>io_queue := q\<rparr>) + packet_pins p" "shape s \<Longrightarrow> io_queue s = p # q \<Longrightarrow> shape (s\<lparr>io_queue := q\<rparr>)"
  by (auto simp: pins_def shape_def ac_simps)

lemma worker_result_books:
  assumes "books s" and "i < length (io_workers s)" and "io_workers s ! i = Waiting n" and "lawful (IvResult i r) s"
  shows "books (worker_result i r s)"
proof -
  have b: "balanced s (pins s) (socks s)" and sh: "shape s" "leases s" using assms(1) by (auto simp: books_def)
  let ?s1 = "UnpinIocpHandle s"
  have go: "books (set_worker i w u)"
    if "io_workers u = io_workers s" "io_users u = dec_guarded (io_users s)" "shape u" "balanced u (pins u + worker_pins w) (socks u)"
      "\<not> is_waiting w" "worker_ok w" for w u
    by (rule books_leave [OF sh(2) assms(2,3) that(5,6) that(1-4)])
  show ?thesis
  proof (cases r)
    case GotPacket
    show ?thesis
    proof (cases "io_queue s")
      case (Cons p q)
      let ?u = "?s1\<lparr>io_queue := q\<rparr>"
      have u: "pins s = pins ?u + packet_pins p" "socks ?u = socks s" "shape ?u" "io_workers ?u = io_workers s" "io_users ?u = dec_guarded (io_users s)"
        using pins_dequeue(1) [of ?s1] pins_dequeue(2) [of ?s1] Cons sh(1) by (simp_all add: pins_enqueue(2))
      show ?thesis
      proof (cases p)
        case Wake
        then show ?thesis using GotPacket Cons u b go [of ?u] by (auto simp: worker_result_def leave_or_loop_def is_waiting_def Let_def)
      next
        case (TimerPacket c)
        then obtain h where "timer_ctx_ok h c" using Cons sh(1) by (auto simp: shape_def)
        then have c: "ic_handlePin c = Some h" "ic_accountingPin c = Some h" "ic_cancellationSocket c = None" by (simp_all add: timer_ctx_ok_def)
        then have "dispatch i c ?u = set_worker i (Handling h) ?u" by (simp add: dispatch_def UnregisterPendingSocket_def)
        then show ?thesis using GotPacket Cons TimerPacket u b c go [of ?u "Handling h"] by (simp add: worker_result_def is_waiting_def Let_def)
      qed
    qed (use GotPacket assms(1) in \<open>simp add: worker_result_def Let_def\<close>)
  next
    case (GotCompletion k)
    let ?c = "io_ctxs s ! k"
    let ?c' = "?c\<lparr>ic_handlePin := None, ic_accountingPin := None\<rparr>"
    have k: "k < length (io_ctxs s)" and "ic_accountingPin ?c \<noteq> None" using assms(4) GotCompletion by auto
    then obtain h where h: "ic_accountingPin ?c = Some h" "ic_handlePin ?c = Some h"
      using sh(1) by (auto simp: shape_def list_all_length ctx_ok_def)
    let ?u = "UnregisterPendingSocket (ic_cancellationSocket ?c) (put_ctx k ?c' ?s1)"
    have p: "pins s = pins ?u + {#h#}" "socks s = socks ?u + opt_mset (ic_cancellationSocket ?c)"
      using pins_put_ctx [of k ?s1 ?c'] k h by (simp_all add: ctx_socks_def)
    have "balanced ?u (pins s) (socks ?u)" using b p(2) by (intro balanced_Unregister) simp
    moreover have "shape ?u" using put_ctx_shape [of ?s1 ?c' k] sh(1) by (simp add: ctx_ok_def)
    ultimately have "books (set_worker i (Handling h) ?u)" using go [of ?u "Handling h"] p(1) by (simp add: is_waiting_def put_ctx_def)
    then show ?thesis using GotCompletion k h by (simp add: worker_result_def dispatch_def Let_def)
  qed (use b sh go [of ?s1] in \<open>auto simp: worker_result_def leave_or_loop_def is_waiting_def Let_def\<close>)
qed

lemma worker_done_books:
  assumes "books s" and "i < length (io_workers s)" and "io_workers s ! i = Handling h"
  shows "books (worker_done i h s)"
proof -
  have b: "balanced s (pins s) (socks s)" and sh: "shape s" "leases s" using assms(1) by (auto simp: books_def)
  let ?t = "set_worker i AtTop s"
  have "pins s = add_mset h (pins ?t)" using pins_set_worker [OF assms(2), of AtTop] assms(3) by simp
  with ops.release_bal [of s h "pins ?t" "socks s"] b have "balanced (ReleaseOutstanding h None s) (pins ?t) (socks s)" by simp
  moreover have "pins (worker_done i h s) = pins ?t" "socks (worker_done i h s) = socks s" "shape (worker_done i h s)" "leases (worker_done i h s)"
    using sh set_worker_shape [of s AtTop i] leases_set(1) [OF sh(2) assms(2), of AtTop] assms(3)
    by (simp_all add: worker_done_def pins_def set_worker_def shape_def leases_def is_waiting_def socks_def)
  ultimately show ?thesis by (simp add: books_def worker_done_def)
qed

lemma ClearTimers_books:
  assumes "books s"
  shows "books (ClearTimers s)" "io_workers (ClearTimers s) = io_workers s" "io_timers (ClearTimers s) = []"
    "io_port (ClearTimers s) = io_port s" "io_running (ClearTimers s) = io_running s" "io_stopping (ClearTimers s) = io_stopping s"
proof -
  have b: "balanced s (pins s) (socks s)" and sh: "shape s" "leases s" using assms by (auto simp: books_def)
  define hs where "hs = map (ts_handle \<circ> snd) (io_timers s)"
  have all: "\<forall>kt \<in> set (io_timers s). ts_phase (snd kt) = Pending \<or> ts_phase (snd kt) = Publishing"
    using sh(1) by (auto simp: shape_def timer_ok_def)
  have "fold (\<lambda>kt s. if ts_phase (snd kt) = Pending \<or> ts_phase (snd kt) = Publishing then ReleaseOutstanding (ts_handle (snd kt)) None s else s) tm u =
      fold (\<lambda>h. ReleaseOutstanding h None) (map (ts_handle \<circ> snd) tm) u"
    if "\<forall>kt \<in> set tm. ts_phase (snd kt) = Pending \<or> ts_phase (snd kt) = Publishing" for tm u
    using that by (induction tm arbitrary: u) auto
  then have eq: "ClearTimers s = fold (\<lambda>h. ReleaseOutstanding h None) hs (s\<lparr>io_timers := []\<rparr>)"
    using all by (simp add: ClearTimers_def hs_def)
  have p: "pins s = mset hs + pins (s\<lparr>io_timers := []\<rparr>)"
    using pins_timers(1) [where s = s and tm = "[]"] by (simp add: timer_pins_def hs_def ac_simps)
  then have bal: "balanced (ClearTimers s) (pins (s\<lparr>io_timers := []\<rparr>)) (socks s)" unfolding eq using b by (intro ops.release_all) simp
  show "io_workers (ClearTimers s) = io_workers s" "io_timers (ClearTimers s) = []" "io_port (ClearTimers s) = io_port s"
    "io_running (ClearTimers s) = io_running s" "io_stopping (ClearTimers s) = io_stopping s" by (simp_all add: eq)
  have "shape (s\<lparr>io_timers := []\<rparr>)" using sh(1) by (simp add: shape_def)
  then show "books (ClearTimers s)" using bal sh(2) by (simp add: books_def eq pins_timers)
qed

section \<open>The life cycle\<close>

definition phases :: "iocp \<Rightarrow> bool" where
  "phases s \<longleftrightarrow> (io_running s \<longrightarrow> io_port s \<and> io_stopper s = NoStop) \<and> (io_stopping s \<longleftrightarrow> io_stopper s \<noteq> NoStop) \<and>
     (io_stopper s \<in> {Joining, Closing} \<longrightarrow> pins s = {#}) \<and>
     (io_stopper s = Closing \<longrightarrow> io_workers s = [] \<and> \<not> io_port s) \<and>
     (\<not> io_running s \<and> io_stopper s = NoStop \<longrightarrow> io_workers s = [] \<and> io_queue s = [] \<and> pins s = {#} \<and> \<not> io_port s)"

lemma sum_list_empty_iff: "(\<Sum>x \<leftarrow> xs. f x :: 'a multiset) = {#} \<longleftrightarrow> (\<forall>x \<in> set xs. f x = {#})"
  by (induction xs) auto

lemma quiet_parts:
  assumes "pins s = {#}"
  shows "io_timers s = []" "k < length (io_ctxs s) \<Longrightarrow> ic_accountingPin (io_ctxs s ! k) = None"
    "p \<in> set (io_queue s) \<Longrightarrow> packet_pins p = {#}" "w \<in> set (io_workers s) \<Longrightarrow> worker_pins w = {#}"
proof -
  have "opt_mset x = {#} \<longleftrightarrow> x = None" for x :: "nat option" by (cases x) auto
  then show "k < length (io_ctxs s) \<Longrightarrow> ic_accountingPin (io_ctxs s ! k) = None"
    using assms by (auto simp: pins_def ctx_pins_def sum_list_empty_iff)
qed (use assms in \<open>auto simp: pins_def timer_pins_def sum_list_empty_iff\<close>)

lemma quiet_queue: "shape s \<Longrightarrow> pins s = {#} \<Longrightarrow> p \<in> set (io_queue s) \<Longrightarrow> p = Wake"
  using quiet_parts(3) [of s p] by (cases p) (fastforce simp: shape_def list_all_iff timer_ctx_ok_def)+

lemma quiet_worker:
  assumes "shape s" and "pins s = {#}" and "i < length (io_workers s)"
  shows "io_workers s ! i \<noteq> Handling h" and "io_workers s ! i = Posting cs w \<Longrightarrow> cs = []"
proof -
  have w: "worker_pins (io_workers s ! i) = {#}" using quiet_parts(4) [OF assms(2)] assms(3) by simp
  then show "io_workers s ! i \<noteq> Handling h" by auto
  assume p: "io_workers s ! i = Posting cs w"
  then have "\<forall>c \<in> set cs. \<exists>h. timer_ctx_ok h c" using assms(1,3) by (auto simp: shape_def list_all_length)
  then show "cs = []" using w p by (cases cs) (auto simp: ctx_pins_def timer_ctx_ok_def)
qed

definition stage :: "iocp \<Rightarrow> bool \<times> bool \<times> bool \<times> stopper" where
  "stage s = (io_port s, io_running s, io_stopping s, io_stopper s)"

lemma stage_ledger [simp]:
  "stage (AddOutstanding h sk s) = stage s" "stage (ReleaseOutstanding h sk s) = stage s" "stage (UnregisterPendingSocket sk s) = stage s"
  "stage (PostIocpCompletion p ok s) = stage s" "stage (PinIocpHandle s) = stage s" "stage (UnpinIocpHandle s) = stage s"
  "stage (set_worker i w s) = stage s" "stage (put_ctx k c s) = stage s" "stage (ReleaseOutstandingWithoutHandle sk s) = stage s"
  "stage (s\<lparr>io_timers := tm\<rparr>) = stage s" "stage (s\<lparr>io_queue := q\<rparr>) = stage s" "stage (s\<lparr>io_nextTimerId := n\<rparr>) = stage s"
  "stage (s\<lparr>io_ctxs := cs\<rparr>) = stage s" "stage (discardClaimed c s) = stage s"
  by (simp_all add: stage_def PostIocpCompletion_def PinIocpHandle_def UnpinIocpHandle_def set_worker_def put_ctx_def
      ReleaseOutstandingWithoutHandle_def discardClaimed_def Let_def split: option.split)

lemma stage_post_claimed [simp]: "stage (post_claimed cs oks s) = stage s"
  by (induction cs oks s rule: post_claimed.induct) simp_all

lemma stage_discard [simp]: "stage (fold discardClaimed cs s) = stage s"
  by (induction cs arbitrary: s) simp_all

lemma stage_post [simp]: "stage (snd (run_post p s)) = stage s"
  using run_post_issues [of p s] by (auto simp: issues_def issue_def Let_def)

text \<open>Every event but those of the life cycle leaves the stage alone.\<close>

fun cyclic :: "iocp_event \<Rightarrow> bool" where
  "cyclic (IvStart n c t) \<longleftrightarrow> True"
| "cyclic (IvStop oks) \<longleftrightarrow> True"
| "cyclic (IvDrained oks) \<longleftrightarrow> True"
| "cyclic IvJoined \<longleftrightarrow> True"
| "cyclic IvClosed \<longleftrightarrow> True"
| "cyclic _ \<longleftrightarrow> False"

lemma stage_step: "\<not> cyclic ev \<Longrightarrow> stage (iocp_step ev s) = stage s"
  by (cases ev)
    (auto simp: schedule_publish_def schedule_finish_def Service_CancelTimeout_def worker_top_def worker_post_def post_timers_def claim_timers_def
      begin_wait_def worker_result_def leave_or_loop_def dispatch_def worker_done_def Let_def split: option.split worker.split gqcs.split list.split packet.split)

lemma pins_begin_wait: "i < length (io_workers s) \<Longrightarrow> pins s = {#} \<Longrightarrow> pins (begin_wait i w s) = {#}"
  using pins_set_worker [of i s Exited] pins_set_worker [of i "PinIocpHandle s" "Waiting w"] by (simp add: begin_wait_def)

lemma quiet_iocp_step:
  assumes "books s" and "pins s = {#}" and "\<not> io_running s" and "\<not> cyclic ev" and "lawful ev s"
  shows "pins (iocp_step ev s) = {#}"
proof -
  have sh: "shape s" using assms(1) by (simp add: books_def)
  note q = quiet_parts [OF assms(2)]
  have users: "0 \<le> io_users s" using assms(1) by (simp add: books_def leases_nonneg)
  show ?thesis
  proof (cases ev)
    case (IvNewContext op n)
    then show ?thesis using assms(2) by (simp add: pins_def ctx_pins_def new_IoContext_def)
  next
    case (IvPost p)
    then show ?thesis using assms(2,3) by (simp add: post_refused)
  next
    case (IvPublish h key delay now stored)
    then show ?thesis using assms(2,3) by (simp add: schedule_publish_def service_up_def split: option.split)
  next
    case (IvPublished i ok)
    then show ?thesis using assms(5) q(1) by simp
  next
    case (IvCancel i ok)
    then show ?thesis using assms(2) q(1) by (simp add: Service_CancelTimeout_def)
  next
    case (IvTop i now)
    then show ?thesis using assms(2,3) pins_begin_wait by (simp add: worker_top_def)
  next
    case (IvPosted i oks)
    show ?thesis
    proof (cases "i < length (io_workers s) \<and> (\<exists>cs w. io_workers s ! i = Posting cs w)")
      case True
      then obtain w where "io_workers s ! i = Posting [] w" using quiet_worker(2) [OF sh assms(2)] by blast
      then show ?thesis using True IvPosted assms(2,3) pins_begin_wait by (simp add: worker_post_def post_timers_def)
    qed (use IvPosted assms(2) in \<open>auto split: worker.split\<close>)
  next
    case (IvHandled i)
    then show ?thesis using assms(2) quiet_worker(1) [OF sh assms(2)] by (auto split: worker.split)
  next
    case (IvResult i r)
    have quiet: "pins (UnpinIocpHandle s) = {#}" using assms(2) by simp
    have go: "pins (set_worker i x u) = {#}" if "pins u = {#}" "io_workers u = io_workers s" "worker_pins x = {#}" "i < length (io_workers s)" for x u
      using pins_set_worker [of i u x] that by simp
    have rest: "pins (UnpinIocpHandle s\<lparr>io_queue := v\<rparr>) = {#}" if "io_queue s = p # v" for p v
      using that assms(2) by (auto simp: pins_def sum_list_empty_iff)
    have wake: "io_queue s = p # v \<Longrightarrow> p = Wake" for p v using quiet_queue [OF sh assms(2)] by simp
    have loop: "pins (leave_or_loop i u) = {#}" if "pins u = {#}" "io_workers u = io_workers s" "i < length (io_workers s)" for u
      using that by (simp add: leave_or_loop_def go)
    show ?thesis
    proof (cases r)
      case GotPacket
      then show ?thesis
        using IvResult assms(2) wake rest by (auto simp: worker_result_def loop Let_def split: worker.split list.split packet.split)
    qed (use IvResult assms(2,5) q(2) quiet in \<open>auto simp: worker_result_def loop go Let_def split: worker.split\<close>)
  qed (use assms(4) in simp_all)
qed

lemma workers_kept: "length (io_workers (iocp_step ev s)) = length (io_workers s) \<and> io_stopper (iocp_step ev s) = io_stopper s" if "\<not> cyclic ev"
proof -
  have "length (io_workers (post_claimed cs oks u)) = length (io_workers u)" for cs oks u
    by (induction cs oks u rule: post_claimed.induct)
      (simp_all add: PostIocpCompletion_def discardClaimed_def ReleaseOutstandingWithoutHandle_def Let_def split: option.split)
  moreover have "length (io_workers (fold discardClaimed cs u)) = length (io_workers u)" for cs u
    by (induction cs arbitrary: u) (simp_all add: discardClaimed_def ReleaseOutstandingWithoutHandle_def Let_def split: option.split)
  moreover have "length (io_workers (snd (run_post p s))) = length (io_workers s)" for p
    using run_post_issues [of p s] by (auto simp: issues_def issue_def put_ctx_def Let_def)
  ultimately have "length (io_workers (iocp_step ev s)) = length (io_workers s)"
    using that
    by (cases ev)
      (auto simp: schedule_publish_def schedule_finish_def Service_CancelTimeout_def worker_top_def worker_post_def post_timers_def claim_timers_def
        begin_wait_def worker_result_def leave_or_loop_def dispatch_def worker_done_def set_worker_def put_ctx_def PostIocpCompletion_def
        ReleaseOutstandingWithoutHandle_def Let_def split: option.split worker.split gqcs.split list.split packet.split)
  then show ?thesis using stage_step [OF that, of s] by (simp add: stage_def)
qed

lemma books_step:
  assumes "books s" and "phases s" and "lawful ev s"
  shows "books (iocp_step ev s)"
proof (cases ev)
  case (IvStart n created threads)
  have "books (s\<lparr>io_port := True, io_running := True, io_queue := [], io_workers := replicate n AtTop\<rparr>)"
    "books (s\<lparr>io_port := False, io_running := False, io_queue := [], io_workers := [], io_stopping := False\<rparr>)"
    if "\<not> io_stopping s" "\<not> io_running s"
  proof -
    have "pins s = {#}" "io_queue s = []" "io_workers s = []" using assms(2) that by (auto simp: phases_def)
    then have "pins (s\<lparr>io_queue := []\<rparr>) = pins s" "io_workers s = []" "filter is_waiting (replicate n AtTop) = []"
      by (auto simp: pins_def sum_list_empty_iff is_waiting_def filter_empty_conv)
    moreover have "(\<Sum>w \<leftarrow> replicate n AtTop. worker_pins w) = {#}" by (induction n) simp_all
    ultimately show "books (s\<lparr>io_port := True, io_running := True, io_queue := [], io_workers := replicate n AtTop\<rparr>)"
      "books (s\<lparr>io_port := False, io_running := False, io_queue := [], io_workers := [], io_stopping := False\<rparr>)"
      using assms(1) by (auto simp: books_def pins_def socks_def shape_def leases_def list_all_iff)
  qed
  then show ?thesis using IvStart assms(1) by (simp add: Service_Start_def split: option.split)
next
  case (IvNewContext op n)
  have "pins (s\<lparr>io_ctxs := io_ctxs s @ [new_IoContext op n]\<rparr>) = pins s" "socks (s\<lparr>io_ctxs := io_ctxs s @ [new_IoContext op n]\<rparr>) = socks s"
    by (simp_all add: pins_def socks_def ctx_pins_def ctx_socks_def new_IoContext_def)
  then show ?thesis using IvNewContext assms(1) by (simp add: books_def shape_def leases_def ctx_ok_def new_IoContext_def)
next
  case (IvStop oks)
  have "books (s\<lparr>io_running := False, io_stopping := True\<rparr>)" using assms(1) by (simp add: books_def pins_def socks_def shape_def leases_def)
  then have "books (ClearTimers (s\<lparr>io_running := False, io_stopping := True\<rparr>))" by (rule ClearTimers_books)
  moreover have "books u \<Longrightarrow> books (u\<lparr>io_stopper := x\<rparr>)" for u x by (simp add: books_def pins_def socks_def shape_def leases_def)
  ultimately show ?thesis using IvStop assms(1) books_wakes by (simp add: stop_begin_def Let_def)
next
  case (IvDrained oks)
  have "books u \<Longrightarrow> books (u\<lparr>io_stopper := x\<rparr>)" for u x by (simp add: books_def pins_def socks_def shape_def leases_def)
  then show ?thesis using IvDrained assms(1) books_wakes by (simp add: stop_drained_def)
next
  case IvJoined
  have "(\<Sum>w \<leftarrow> io_workers s. worker_pins w) = {#}" "filter is_waiting (io_workers s) = []" if "\<forall>w \<in> set (io_workers s). w = Exited"
    using that by (auto simp: sum_list_empty_iff is_waiting_def filter_empty_conv)
  then show ?thesis using IvJoined assms(1) by (auto simp: stop_joined_def books_def pins_def socks_def shape_def leases_def)
next
  case IvClosed
  have "pins (s\<lparr>io_queue := []\<rparr>) = pins s" if "io_stopper s = Closing"
    using quiet_parts(3) [of s] assms(2) that by (auto simp: phases_def pins_def sum_list_empty_iff)
  then have "pins (s\<lparr>io_stopping := False, io_stopper := NoStop, io_queue := []\<rparr>) = pins s" if "io_stopper s = Closing"
    using that by (simp add: pins_def)
  moreover have "socks (s\<lparr>io_stopping := False, io_stopper := NoStop, io_queue := []\<rparr>) = socks s"
    "shape s \<Longrightarrow> shape (s\<lparr>io_stopping := False, io_stopper := NoStop, io_queue := []\<rparr>)"
    "leases (s\<lparr>io_stopping := False, io_stopper := NoStop, io_queue := []\<rparr>) = leases s"
    by (simp_all add: socks_def shape_def leases_def)
  ultimately show ?thesis using IvClosed assms(1) by (simp add: stop_closed_def books_def)
qed (use assms(1,3) in \<open>auto intro: books_post books_publish books_finish books_cancel worker_top_books worker_post_books worker_result_books
      worker_done_books split: worker.split\<close>)

lemma wakes_frame [simp]:
  "pins (WakeWorkers oks n s) = pins s" "io_workers (WakeWorkers oks n s) = io_workers s" "stage (WakeWorkers oks n s) = stage s"
proof -
  have "pins (PostIocpCompletion Wake ok u) = pins u" "io_workers (PostIocpCompletion Wake ok u) = io_workers u" for ok u
    by (simp_all add: PostIocpCompletion_def pins_def Let_def)
  then show "pins (WakeWorkers oks n s) = pins s" "io_workers (WakeWorkers oks n s) = io_workers s" "stage (WakeWorkers oks n s) = stage s"
    by (induction n arbitrary: s; simp)+
qed

lemma stageD: "stage s = stage t \<Longrightarrow> io_port s = io_port t \<and> io_running s = io_running t \<and> io_stopping s = io_stopping t \<and> io_stopper s = io_stopper t"
  by (simp add: stage_def)

lemma phases_step:
  assumes "books s" and "phases s" and "lawful ev s"
  shows "phases (iocp_step ev s)"
proof (cases "cyclic ev")
  case False
  note st = stageD [OF stage_step [OF False, of s]] and wk = workers_kept [OF False, of s]
  have quiet: "pins (iocp_step ev s) = {#}" if "pins s = {#}" "\<not> io_running s" using quiet_iocp_step [OF assms(1) that False assms(3)] .
  have "io_queue (iocp_step ev s) = []" if idle: "\<not> io_running s" "io_stopper s = NoStop"
  proof -
    have "io_workers s = []" "io_queue s = []" "pins s = {#}" using idle assms(2) by (auto simp: phases_def)
    then show ?thesis
      using False idle assms(3) quiet_parts(1) [of s]
      by (cases ev) (auto simp: post_refused service_up_def schedule_publish_def Service_CancelTimeout_def split: option.split)
  qed
  then show ?thesis using assms(2) st wk quiet by (auto simp: phases_def)
next
  case True
  have wk: "io_stopper (WakeWorkers oks n u) = io_stopper u" "io_port (WakeWorkers oks n u) = io_port u" "io_running (WakeWorkers oks n u) = io_running u"
    "io_stopping (WakeWorkers oks n u) = io_stopping u" for oks n u using stageD [OF wakes_frame(3), of oks n u] by auto
  have p0: "pins (u\<lparr>io_stopper := x\<rparr>) = pins u" for u x by (simp add: pins_def)
  from True show ?thesis
  proof (cases ev)
    case (IvStop oks)
    have b: "books (s\<lparr>io_running := False, io_stopping := True\<rparr>)" using assms(1) by (simp add: books_def pins_def socks_def shape_def leases_def)
    show ?thesis using IvStop assms(2) ClearTimers_books [OF b] by (auto simp: stop_begin_def phases_def wk Let_def)
  next
    case (IvDrained oks)
    have "pins s = {#}" if "io_outstanding s = 0" using assms(1) that by (simp add: books_def balanced_def)
    then show ?thesis using IvDrained assms(2) by (auto simp: stop_drained_def phases_def wk p0)
  next
    case IvJoined
    have "pins (s\<lparr>io_port := a, io_workers := [], io_stopper := x\<rparr>) = {#}" if "pins s = {#}" for a x using that by (simp add: pins_def)
    then show ?thesis using IvJoined assms(2) by (auto simp: stop_joined_def phases_def)
  next
    case IvClosed
    have "pins (s\<lparr>io_stopping := a, io_stopper := x, io_queue := []\<rparr>) = {#}" if "pins s = {#}" for a x using that by (simp add: pins_def)
    then show ?thesis using IvClosed assms(2) by (auto simp: stop_closed_def phases_def)
  next
    case (IvStart n created threads)
    then show ?thesis using assms(2) by (auto simp: Service_Start_def phases_def pins_def split: option.split)
  qed simp_all
qed

lemma new_service_ok: "books new_IocpService" "phases new_IocpService"
  by (simp_all add: books_def phases_def balanced_def socket_table_def pins_def socks_def shape_def leases_def ctx_pins_def timer_pins_def new_IocpService_def)

lemma run_ok:
  "lawful_run evs s \<Longrightarrow> books s \<Longrightarrow> phases s \<Longrightarrow> books (fold iocp_step evs s) \<and> phases (fold iocp_step evs s)"
proof (induction evs arbitrary: s)
  case (Cons ev evs)
  then show ?case using books_step [of s ev] phases_step [of s ev] by (simp del: iocp_step.simps lawful.simps)
qed simp

lemma iocp_run_ok: "lawful_run evs new_IocpService \<Longrightarrow> books (iocp_run evs) \<and> phases (iocp_run evs)"
  using run_ok [of evs new_IocpService] new_service_ok by (simp add: iocp_run_def)

text \<open>C9.  The books are exact: for every interleaving of posts, completions, timers, workers and shutdown, the counter of outstanding operations
  is the number of pinned contexts, live timers, claimed timers, queued timer packets and running handlers; the counter
  of each handle counts those that pin it; and the table of sockets holds exactly the sockets with pending operations,
  with their numbers.  In particular no guard against underflow is ever taken.\<close>

theorem iocp_books_exact:
  assumes "lawful_run evs new_IocpService" and "s = iocp_run evs"
  shows "io_outstanding s = int (size (pins s)) \<and> (\<forall>h. io_pending s h = int (count (pins s) h)) \<and>
    (\<forall>k. um_find (io_pendingSockets s) k = (if count (socks s) k = 0 then None else Some (count (socks s) k))) \<and>
    io_users s = int (length (filter is_waiting (io_workers s)))"
  using iocp_run_ok [OF assms(1)] unfolding assms(2) books_def balanced_def socket_table_def leases_def by blast

text \<open>C17.  When the wait for a handle's pending operations returns, the handle is out of use: no context is pinned by it, no timer is armed for it, no
  packet for it is queued, and no worker is inside its handler; it can be destroyed.\<close>

theorem iocp_idle_handle_unused:
  assumes "lawful_run evs new_IocpService" and "s = iocp_run evs" and "io_pending s h = 0"
  shows "(\<forall>c \<in> set (io_ctxs s). ic_accountingPin c \<noteq> Some h \<and> ic_handlePin c \<noteq> Some h) \<and> (\<forall>kt \<in> set (io_timers s). ts_handle (snd kt) \<noteq> h) \<and>
    (\<forall>c. TimerPacket c \<in> set (io_queue s) \<longrightarrow> ic_handlePin c \<noteq> Some h) \<and> Handling h \<notin> set (io_workers s)"
proof -
  have b: "books s" using iocp_run_ok [OF assms(1)] assms(2) by simp
  then have "count (pins s) h = 0" using assms(3) by (simp add: books_def balanced_def)
  then have no: "h \<notin># pins s" by (simp add: count_eq_zero_iff)
  have mem: "x \<in> set xs \<Longrightarrow> h \<in># f x \<Longrightarrow> h \<in># (\<Sum>x \<leftarrow> xs. f x)" for x and xs :: "'z list" and f by (induction xs) auto
  have ctx: "ic_accountingPin c \<noteq> Some h" if "c \<in> set (io_ctxs s)" for c
    using no mem [OF that, of "\<lambda>c. opt_mset (ic_accountingPin c)"] by (auto simp: pins_def ctx_pins_def)
  have sh: "shape s" using b by (simp add: books_def)
  then have same: "ic_handlePin c = ic_accountingPin c" if "c \<in> set (io_ctxs s)" for c using that by (auto simp: shape_def list_all_iff ctx_ok_def)
  have tm: "ts_handle (snd kt) \<noteq> h" if "kt \<in> set (io_timers s)" for kt using no that by (auto simp: pins_def timer_pins_def)
  have pk: "ic_handlePin c \<noteq> Some h" if q: "TimerPacket c \<in> set (io_queue s)" for c
  proof -
    have "ic_handlePin c = ic_accountingPin c" using sh q by (fastforce simp: shape_def list_all_iff timer_ctx_ok_def)
    then show ?thesis using no mem [OF q, of packet_pins] by (auto simp: pins_def)
  qed
  have "Handling h \<notin> set (io_workers s)" using no mem [of "Handling h" "io_workers s" worker_pins] by (auto simp: pins_def)
  with ctx same tm pk show ?thesis by simp
qed


section \<open>The end of the shutdown\<close>

definition alive :: "iocp \<Rightarrow> nat" where
  "alive s = length (filter (\<lambda>w. w \<noteq> Exited) (io_workers s))"

text \<open>\<open>woken\<close>: every worker has been sent a packet.\<close>

definition winding_down :: "bool \<Rightarrow> iocp \<Rightarrow> bool" where
  "winding_down woken s \<longleftrightarrow> books s \<and> phases s \<and> pins s = {#} \<and> \<not> io_running s \<and> io_port s \<and>
     (woken \<longrightarrow> alive s \<le> length (io_queue s))"

lemma alive_set_worker:
  assumes "i < length (io_workers s)"
  shows "alive (set_worker i w s) = alive s - of_bool (io_workers s ! i \<noteq> Exited) + of_bool (w \<noteq> Exited)"
  unfolding alive_def set_worker_def using filter_update_count [OF assms, of "\<lambda>w. w \<noteq> Exited" w] by simp

lemma alive_pos: "i < length (io_workers s) \<Longrightarrow> io_workers s ! i \<noteq> Exited \<Longrightarrow> 0 < alive s"
  by (auto simp: alive_def filter_empty_conv)

lemma alive_frame [simp]:
  "alive (PinIocpHandle s) = alive s" "alive (UnpinIocpHandle s) = alive s" "alive (s\<lparr>io_queue := q\<rparr>) = alive s"
  "io_queue (set_worker i w s) = io_queue s" "io_workers (set_worker i w s) = (io_workers s)[i := w]"
  by (simp_all add: alive_def PinIocpHandle_def UnpinIocpHandle_def set_worker_def)

lemma begin_wait_down:
  assumes "i < length (io_workers s)" and "io_workers s ! i \<noteq> Exited" and "io_port s"
  shows "alive (begin_wait i w s) = alive s" "io_queue (begin_wait i w s) = io_queue s" "io_workers (begin_wait i w s) ! i = Waiting w"
  using assms alive_pos [OF assms(1,2)] by (simp_all add: begin_wait_def alive_set_worker)

text \<open>One step of worker \<open>i\<close> while the service winds down: to the wait, and from the wait out of the loop.\<close>

lemma down_worker:
  assumes "winding_down woken s" and "i < length (io_workers s)"
  shows "io_workers s ! i = AtTop \<Longrightarrow> io_workers (iocp_step (IvTop i now) s) ! i = Waiting 0"
    and "io_workers s ! i = Posting cs w \<Longrightarrow> io_workers (iocp_step (IvPosted i oks) s) ! i = Waiting 0"
    and "io_workers s ! i = Waiting w \<Longrightarrow> io_workers (iocp_step (IvResult i TimedOut) s) ! i = Exited"
    and "io_workers s ! i = Waiting w \<Longrightarrow> io_queue s \<noteq> [] \<Longrightarrow> io_workers (iocp_step (IvResult i GotPacket) s) ! i = Exited"
    and "io_workers s ! i = Waiting w \<Longrightarrow> woken \<Longrightarrow> io_queue s \<noteq> []"
    and "io_workers s ! i \<noteq> Handling h"
proof -
  have s: "books s" "pins s = {#}" "\<not> io_running s" "io_port s" "woken \<Longrightarrow> alive s \<le> length (io_queue s)" using assms(1) by (auto simp: winding_down_def)
  have sh: "shape s" and o: "io_outstanding s = 0" using s(1,2) by (auto simp: books_def balanced_def)
  show "io_workers s ! i = AtTop \<Longrightarrow> io_workers (iocp_step (IvTop i now) s) ! i = Waiting 0"
    using s o assms(2) by (simp add: worker_top_def begin_wait_def)
  show "io_workers s ! i = Posting cs w \<Longrightarrow> io_workers (iocp_step (IvPosted i oks) s) ! i = Waiting 0"
    using s assms(2) quiet_worker(2) [OF sh s(2) assms(2), of cs w] by (simp add: worker_post_def post_timers_def begin_wait_def)
  show "io_workers s ! i \<noteq> Handling h" by (rule quiet_worker(1) [OF sh s(2) assms(2)])
  assume w: "io_workers s ! i = Waiting w"
  show "io_workers (iocp_step (IvResult i TimedOut) s) ! i = Exited"
    using w s(3) o assms(2) by (simp add: worker_result_def leave_or_loop_def Let_def)
  show "woken \<Longrightarrow> io_queue s \<noteq> []" using alive_pos [OF assms(2)] s(5) w by fastforce
  assume "io_queue s \<noteq> []"
  then obtain q where "io_queue s = Wake # q" using quiet_queue [OF sh s(2)] by (cases "io_queue s") auto
  then show "io_workers (iocp_step (IvResult i GotPacket) s) ! i = Exited"
    using w s(3) o assms(2) by (simp add: worker_result_def leave_or_loop_def Let_def)
qed

lemma down_step:
  assumes "winding_down woken s" and "\<not> cyclic ev" and "lawful ev s"
  shows "winding_down woken (iocp_step ev s)"
proof -
  have s: "books s" "pins s = {#}" "\<not> io_running s" "io_port s" "woken \<Longrightarrow> alive s \<le> length (io_queue s)" using assms(1) by (auto simp: winding_down_def)
  have sh: "shape s" and o: "io_outstanding s = 0" using s(1,2) by (auto simp: books_def balanced_def)
  note q = quiet_parts [OF s(2)]
  have wake: "io_queue s = p # v \<Longrightarrow> p = Wake" for p v using quiet_queue [OF sh s(2)] by simp
  have "alive (iocp_step ev s) \<le> length (io_queue (iocp_step ev s))" if "alive s \<le> length (io_queue s)"
  proof (cases ev)
    case (IvPosted i oks)
    show ?thesis
    proof (cases "i < length (io_workers s) \<and> (\<exists>cs w. io_workers s ! i = Posting cs w)")
      case True
      then obtain w where "io_workers s ! i = Posting [] w" using quiet_worker(2) [OF sh s(2)] by blast
      then show ?thesis using True IvPosted s that begin_wait_down by (simp add: worker_post_def post_timers_def)
    qed (use IvPosted s that in \<open>auto split: worker.split\<close>)
  next
    case (IvResult i r)
    show ?thesis
      using IvResult s that o assms(3) wake q(2) alive_pos [of i s]
      by (cases r)
        (auto simp: worker_result_def leave_or_loop_def alive_set_worker Let_def split: worker.split list.split packet.split)
  next
    case (IvPublished i ok)
    then show ?thesis using assms(3) q(1) by simp
  next
    case (IvHandled i)
    then show ?thesis using s that quiet_worker(1) [OF sh s(2)] by (auto split: worker.split)
  qed (use assms(2) s that q(1) begin_wait_down o in
      \<open>simp_all add: post_refused service_up_def schedule_publish_def Service_CancelTimeout_def worker_top_def alive_def split: option.split\<close>)
  moreover have "phases s" using assms(1) by (simp add: winding_down_def)
  ultimately show ?thesis
    using books_step [OF s(1) _ assms(3)] phases_step [OF s(1) _ assms(3)] quiet_iocp_step [OF s(1,2,3) assms(2,3)] stageD [OF stage_step [OF assms(2), of s]] s(3,4,5)
    by (simp add: winding_down_def)
qed

lemma down_run: "winding_down woken s \<Longrightarrow> lawful_run evs s \<Longrightarrow> list_all (\<lambda>ev. \<not> cyclic ev) evs \<Longrightarrow> winding_down woken (fold iocp_step evs s)"
proof (induction evs arbitrary: s)
  case (Cons ev evs)
  then show ?case using down_step [of woken s ev] by (simp del: iocp_step.simps lawful.simps)
qed simp

lemma wakes_queue:
  "0 \<le> io_users s \<Longrightarrow> \<forall>k < n. oks k \<Longrightarrow> length (io_queue (WakeWorkers oks n s)) = length (io_queue s) + n"
  by (induction n arbitrary: s) (simp_all add: Post_eq)

lemma drained_down:
  assumes "books s" and "phases s" and "io_stopper s = Draining" and "io_port s" and "io_outstanding s = 0"
  shows "winding_down (\<forall>k < length (io_workers s). oks k) (iocp_step (IvDrained oks) s)"
proof -
  have p: "pins s = {#}" using assms(1,5) by (simp add: books_def balanced_def)
  have r: "\<not> io_running s" using assms(2,3) by (auto simp: phases_def)
  have u: "0 \<le> io_users s" using assms(1) by (simp add: books_def leases_nonneg)
  let ?t = "WakeWorkers oks (length (io_workers s)) s"
  have "iocp_step (IvDrained oks) s = ?t\<lparr>io_stopper := Joining\<rparr>" using assms(3-5) by (simp add: stop_drained_def)
  moreover have "alive (?t\<lparr>io_stopper := Joining\<rparr>) \<le> length (io_queue (?t\<lparr>io_stopper := Joining\<rparr>))"
    if "\<forall>k < length (io_workers s). oks k"
    using wakes_queue [OF u that] by (simp add: alive_def le_add2 order_trans [OF length_filter_le])
  moreover have "io_running ?t = io_running s" "io_port ?t = io_port s" using stageD [OF wakes_frame(3)] by simp_all
  moreover have "pins (?t\<lparr>io_stopper := Joining\<rparr>) = {#}" using p wakes_frame(1) [of _ _ s] by (simp add: pins_def)
  ultimately show ?thesis
    using books_step [OF assms(1,2), of "IvDrained oks"] phases_step [OF assms(1,2), of "IvDrained oks"] r assms(4)
    by (simp add: winding_down_def del: iocp_step.simps)
qed

text \<open>C10.  The end of the shutdown.  Once the outstanding operations of a stopping service have drained and the wake-up packets have been posted, some of which
  may fail, then whatever the workers do in whatever order: a worker at the top of its loop or after posting timers goes to a wait
  that does not block, no worker is in a handler, and a worker whose wait ends, by a packet or by its time-out, leaves the loop.
  When every wake-up was posted a waiting worker also finds a packet, so that no worker blocks and the join returns.\<close>

theorem iocp_shutdown_ends:
  assumes "lawful_run evs new_IocpService" and "s0 = iocp_run evs" and "io_stopper s0 = Draining" and "io_port s0" and "io_outstanding s0 = 0"
    and "lawful_run later (iocp_step (IvDrained oks) s0)" and "list_all (\<lambda>ev. \<not> cyclic ev) later"
    and "s = fold iocp_step later (iocp_step (IvDrained oks) s0)" and "i < length (io_workers s)"
  shows "case io_workers s ! i of
      AtTop \<Rightarrow> io_workers (iocp_step (IvTop i now) s) ! i = Waiting 0
    | Posting cs w \<Rightarrow> io_workers (iocp_step (IvPosted i rs) s) ! i = Waiting 0
    | Waiting w \<Rightarrow> io_workers (iocp_step (IvResult i TimedOut) s) ! i = Exited \<and>
                   (io_queue s \<noteq> [] \<longrightarrow> io_workers (iocp_step (IvResult i GotPacket) s) ! i = Exited) \<and>
                   ((\<forall>k < length (io_workers s0). oks k) \<longrightarrow> io_queue s \<noteq> [])
    | Handling h \<Rightarrow> False
    | Exited \<Rightarrow> True"
proof -
  have "books s0" "phases s0" using iocp_run_ok [OF assms(1)] assms(2) by auto
  from drained_down [OF this assms(3-5)] have "winding_down (\<forall>k < length (io_workers s0). oks k) s"
    unfolding assms(8) by (rule down_run) (fact assms(6,7))+
  then show ?thesis
    using down_worker [OF _ assms(9)] by (auto simp del: iocp_step.simps split: worker.split)
qed

text \<open>The result of a wake-up post is ignored: while no packet is in the queue, nothing that can happen takes a worker out of a wait without time-out, and the join does not
  return.\<close>

lemma lost_wake_blocks:
  assumes "winding_down woken s" and "io_queue s = []" and "i < length (io_workers s)" and "io_workers s ! i = Waiting w"
  shows "iocp_step (IvResult i GotPacket) s = s" and "\<not> lawful (IvResult i (GotCompletion k)) s" and "iocp_step IvJoined s = s"
proof -
  have p: "pins s = {#}" and sh: "shape s" using assms(1) by (auto simp: winding_down_def books_def)
  show "iocp_step (IvResult i GotPacket) s = s" using assms(2-4) by (simp add: worker_result_def Let_def)
  show "\<not> lawful (IvResult i (GotCompletion k)) s" using quiet_parts(2) [OF p] by (auto simp: in_set_conv_nth)
  have "Waiting w \<in> set (io_workers s)" using assms(3,4) nth_mem by fastforce
  then show "iocp_step IvJoined s = s" by (auto simp: stop_joined_def)
qed

text \<open>When Stop begins, the operations of every socket that has some pending are cancelled.\<close>

lemma stop_cancels_pending:
  assumes "lawful_run evs new_IocpService" and "s = iocp_run evs" and "io_running s" and "count (socks s) k \<noteq> 0"
  shows "k \<in> set (io_cancelled (stop_begin oks s))"
proof -
  define t where "t = ClearTimers (s\<lparr>io_running := False, io_stopping := True\<rparr>)"
  have "books (s\<lparr>io_running := False, io_stopping := True\<rparr>)"
    using iocp_run_ok [OF assms(1)] assms(2) by (simp add: books_def pins_def socks_def shape_def leases_def)
  then have b: "books t" unfolding t_def by (rule ClearTimers_books)
  have rel: "io_ctxs (ReleaseOutstanding h None u) = io_ctxs u" for h u
    by (simp add: ReleaseOutstanding_def ReleaseOutstandingWithoutHandle_def ReleasePending_def UnregisterPendingSocket_def Let_def)
  have "io_ctxs (fold (\<lambda>kt s. if P kt then ReleaseOutstanding (f kt) None s else s) tm u) = io_ctxs u"
    for P f u and tm :: "(u64 \<times> TimerState) list"
    by (induction tm arbitrary: u) (simp_all add: rel)
  then have "socks t = socks s" by (simp add: t_def ClearTimers_def socks_def)
  then have "um_find (io_pendingSockets t) k = Some (count (socks s) k)" using b assms(4) by (simp add: books_def balanced_def socket_table_def)
  then have "(k, count (socks s) k) \<in> set (io_pendingSockets t)" by (rule map_of_SomeD)
  then have k: "k \<in> set (io_cancelled (CancelOutstandingSocketIo t))" using assms(4) by (force simp: CancelOutstandingSocketIo_def)
  have "io_cancelled (WakeWorkers oks n u) = io_cancelled u" for n u
    by (induction n arbitrary: u) (simp_all add: PostIocpCompletion_def PinIocpHandle_def UnpinIocpHandle_def Let_def)
  then show ?thesis using k assms(3) by (simp add: stop_begin_def t_def [symmetric] Let_def)
qed

section \<open>Timer identifiers and waits\<close>

lemma fresh_timer_id_None:
  "fresh_timer_id fuel tm next = None \<Longrightarrow> j < fuel \<Longrightarrow> next + word_of_nat j = 0 \<or> um_find tm (next + word_of_nat j) \<noteq> None"
proof (induction fuel tm "next" arbitrary: j rule: fresh_timer_id.induct)
  case (2 fuel tm "next")
  then show ?case by (cases j) (auto simp: ac_simps split: if_splits)
qed simp

text \<open>The loop of \<^verbatim>\<open>ScheduleTimeout\<close> that draws a timer identifier ends, with an identifier that is not 0 and not in use, after at most two more
  rounds than there are timers, wherever the 64-bit counter stands and even when it wraps around.\<close>

theorem fresh_timer_id_returns:
  assumes "length tm + 2 \<le> 2 ^ 64"
  shows "\<exists>i n. fresh_timer_id (length tm + 2) tm next = Some (i, n) \<and> i \<noteq> 0 \<and> um_find tm i = None"
proof -
  let ?N = "length tm + 2"
  let ?f = "\<lambda>j. next + (word_of_nat j :: u64)"
  have inj: "inj_on ?f {..< ?N}"
  proof (rule inj_onI)
    fix x y assume "x \<in> {..< ?N}" "y \<in> {..< ?N}" "?f x = ?f y"
    then have "x < 2 ^ 64" "y < 2 ^ 64" "(word_of_nat x :: u64) = word_of_nat y" using assms by auto
    then show "x = y" by (simp add: word_of_nat_eq_iff take_bit_nat_eq_self)
  qed
  have "fresh_timer_id ?N tm next \<noteq> None"
  proof
    assume "fresh_timer_id ?N tm next = None"
    then have "?f ` {..< ?N} \<subseteq> insert 0 (fst ` set tm)"
      using fresh_timer_id_None [of ?N tm "next"] by (auto simp: map_of_eq_None_iff)
    then have "card (?f ` {..< ?N}) \<le> card (insert 0 (fst ` set tm))" by (intro card_mono) auto
    also have "\<dots> \<le> Suc (length tm)"
      using card_image_le [of "set tm" fst] card_length [of tm] by (simp add: card_insert_if)
    finally show False using inj by (simp add: card_image)
  qed
  then show ?thesis using fresh_timer_idD by fastforce
qed

lemma nearest_due_le: "nearest_due tm d \<le> d" "kt \<in> set tm \<Longrightarrow> nearest_due tm d \<le> ts_due (snd kt)"
proof -
  have le: "nearest_due tm d \<le> d" for tm d
  proof (induction tm arbitrary: d)
    case (Cons kt tm)
    show ?case using Cons [of d] Cons [of "ts_due (snd kt)"] by (auto simp: nearest_due_def)
  qed (simp add: nearest_due_def)
  show "nearest_due tm d \<le> d" by (rule le)
  show "kt \<in> set tm \<Longrightarrow> nearest_due tm d \<le> ts_due (snd kt)"
  proof (induction tm arbitrary: d)
    case (Cons k tm)
    let ?m = "if ts_due (snd k) < d then ts_due (snd k) else d"
    have "nearest_due (k # tm) d = nearest_due tm ?m" by (simp add: nearest_due_def)
    moreover have "?m \<le> ts_due (snd k)" by simp
    ultimately show ?case using Cons.IH [of ?m] Cons.prems le [of tm ?m] by (auto intro: order_trans)
  qed simp
qed

lemma timer_wait_bounds:
  shows "0 \<le> timer_wait now tm" "timer_wait now tm = INFINITE \<longleftrightarrow> tm = []" "timer_wait now tm \<le> INFINITE"
    "kt \<in> set tm \<Longrightarrow> now + timer_wait now tm * 1000000 \<le> max now (ts_due (snd kt))"
proof -
  show "0 \<le> timer_wait now tm" "timer_wait now tm = INFINITE \<longleftrightarrow> tm = []" "timer_wait now tm \<le> INFINITE"
    by (cases tm; simp add: timer_wait_def Let_def)+
  assume kt: "kt \<in> set tm"
  then obtain k ks where tm: "tm = k # ks" by (cases tm) auto
  define near where "near = nearest_due tm (ts_due (snd k))"
  have near: "near \<le> ts_due (snd kt)" unfolding near_def by (rule nearest_due_le(2) [OF kt])
  have "now + timer_wait now tm * 1000000 \<le> max now near"
  proof (cases "near \<le> now")
    case False
    have "(near - now) div 1000000 * 1000000 \<le> near - now" by simp
    moreover have "timer_wait now tm \<le> max 0 ((near - now) div 1000000)"
      using False unfolding timer_wait_def tm Let_def by (simp add: near_def tm)
    ultimately show ?thesis using False by auto
  qed (simp add: timer_wait_def tm Let_def near_def)
  with near show "now + timer_wait now tm * 1000000 \<le> max now (ts_due (snd kt))" by simp
qed

text \<open>C20.  Timers are on time: when a worker advances the timers, exactly the pending timers that are due leave the map, one context each, pinned by its
  handle; and the time it then waits never reaches past the moment the next timer is due, and is unlimited only when
  no timer is left.\<close>

theorem iocp_timers_on_time:
  assumes "lawful_run evs new_IocpService" and "s = iocp_run evs" and "claim_timers now s = (claimed, waitMs, s')"
  shows "(\<forall>kt. kt \<in> set (io_timers s') \<longleftrightarrow> kt \<in> set (io_timers s) \<and> \<not> (ts_due (snd kt) \<le> now \<and> ts_phase (snd kt) = Pending)) \<and>
    length claimed + length (io_timers s') = length (io_timers s) \<and> (\<forall>c \<in> set claimed. \<exists>h. ic_handlePin c = Some h) \<and>
    0 \<le> waitMs \<and> (waitMs = 4294967295 \<longleftrightarrow> io_timers s' = []) \<and>
    (\<forall>kt \<in> set (io_timers s'). now + waitMs * 1000000 \<le> max now (ts_due (snd kt)))"
proof -
  let ?Q = "\<lambda>kt. due_now now (snd kt)"
  have "\<forall>kt \<in> set (io_timers s). timer_ok (snd kt)" using iocp_run_ok [OF assms(1)] assms(2) by (simp add: books_def shape_def)
  then have ok: "\<forall>kt \<in> set (filter ?Q (io_timers s)). timer_ok (snd kt)" by simp
  have len: "\<forall>kt \<in> set tm. timer_ok (snd kt) \<Longrightarrow> length (concat (map (claim_ctx \<circ> snd) tm)) = length tm" for tm
  proof (induction tm)
    case (Cons kt tm)
    then show ?case using claim_ctx_eq [of "snd kt"] by auto
  qed simp
  have c: "claimed = concat (map (claim_ctx \<circ> snd) (filter ?Q (io_timers s)))" "waitMs = timer_wait now (filter (\<lambda>kt. \<not> ?Q kt) (io_timers s))"
    "io_timers s' = filter (\<lambda>kt. \<not> ?Q kt) (io_timers s)"
    using assms(3) by (auto simp: claim_timers_def Let_def)
  have "length claimed + length (io_timers s') = length (io_timers s)"
    unfolding c using len [OF ok] sum_length_filter_compl [of ?Q "io_timers s"] by simp
  moreover have "\<forall>c \<in> set claimed. \<exists>h. ic_handlePin c = Some h"
    using claimed_ok [OF ok] unfolding c(1) timer_ctx_ok_def by blast
  ultimately show ?thesis
    using timer_wait_bounds [where now = now and tm = "filter (\<lambda>kt. \<not> ?Q kt) (io_timers s)"] by (auto simp: c(2,3) due_now_def)
qed

section \<open>Buffer windows\<close>

lemma ToULong_exact: "FitsULong n \<Longrightarrow> unat (ToULong n) = n"
  by (simp add: FitsULong_def ToULong_def unat_of_nat take_bit_nat_eq_self)

lemma issue_ok: "issue i c h sk d ok s = (True, s') \<Longrightarrow> i < length (io_ctxs s) \<Longrightarrow> io_ctxs s' ! i = pinned h sk c"
  by (auto simp: issue_def put_ctx_def Let_def split: if_splits)

lemma get_ctx_Some: "get_ctx (Some i) s = Some c \<longleftrightarrow> i < length (io_ctxs s) \<and> c = io_ctxs s ! i"
  by (auto simp: get_ctx_def)

lemma reset_buffer [simp]: "ic_buffer (IoContext_Reset op c) = ic_buffer c"
  by (simp add: IoContext_Reset_def)

text \<open>The memory a posted operation hands to the kernel: a window of the context's own buffer for a receive, of the copy it keeps for a send.\<close>

definition receives_into :: "IoContext \<Rightarrow> nat \<Rightarrow> nat \<Rightarrow> bool" where
  "receives_into c start len \<longleftrightarrow> fst (ic_window c) = start \<and> unat (snd (ic_window c)) = len \<and> 0 < len \<and> start + len \<le> length (ic_buffer c)"

definition transmits :: "IoContext \<Rightarrow> bytes \<Rightarrow> bool" where
  "transmits c d \<longleftrightarrow>
     (\<exists>copy. ic_bufferPin c = Some copy \<and> fst (ic_window c) + unat (snd (ic_window c)) \<le> length copy \<and>
        take (unat (snd (ic_window c))) (drop (fst (ic_window c)) copy) = d)"

lemma PostRecv_window:
  assumes "PostRecv sk (Some i) h off len ok s = (True, s')"
  shows "receives_into (io_ctxs s' ! i) off (if len = 0 then length (ic_buffer (io_ctxs s ! i)) - off else len) \<and>
    ic_buffer (io_ctxs s' ! i) = ic_buffer (io_ctxs s ! i)"
proof -
  let ?n = "if len = 0 then length (ic_buffer (io_ctxs s ! i)) - off else len"
  have v: "ValidRecvRange (ic_buffer (io_ctxs s ! i)) off len" "i < length (io_ctxs s)"
    using assms by (auto simp: PostRecv_def get_ctx_Some split: option.splits if_splits prod.splits)
  have "ic_window (io_ctxs s' ! i) = (off, ToULong ?n) \<and> ic_buffer (io_ctxs s' ! i) = ic_buffer (io_ctxs s ! i)"
    using assms v(2) by (auto simp: PostRecv_def get_ctx_Some Let_def pinned_def split: option.splits if_splits dest!: issue_ok)
  then show ?thesis using v(1) by (auto simp: receives_into_def ValidRecvRange_def Let_def ToULong_exact split: if_splits)
qed

lemma PostRecvFrom_window:
  assumes "PostRecvFrom sk (Some i) h ok s = (True, s')"
  shows "receives_into (io_ctxs s' ! i) 0 (length (ic_buffer (io_ctxs s ! i))) \<and> ic_buffer (io_ctxs s' ! i) = ic_buffer (io_ctxs s ! i)"
proof -
  have v: "ic_buffer (io_ctxs s ! i) \<noteq> []" "FitsULong (length (ic_buffer (io_ctxs s ! i)))" "i < length (io_ctxs s)"
    using assms by (auto simp: PostRecvFrom_def get_ctx_Some split: option.splits if_splits)
  then show ?thesis
    using assms by (auto simp: PostRecvFrom_def get_ctx_Some Let_def pinned_def receives_into_def ToULong_exact
        split: option.splits if_splits dest!: issue_ok)
qed

lemma PostSend_window:
  assumes "PostSend sk (Some i) (Some d) off len h ok s = (True, s')" and "off + len \<le> length d"
  shows "transmits (io_ctxs s' ! i) (take len (drop off d))"
proof -
  have v: "FitsULong len" "i < length (io_ctxs s)"
    using assms(1) by (auto simp: PostSend_def get_ctx_Some ValidExternalSendRange_def split: option.splits if_splits)
  have "ic_bufferPin (io_ctxs s' ! i) = Some (take len (drop off d)) \<and> ic_window (io_ctxs s' ! i) = (0, ToULong len)"
    using assms(1) v(2) by (auto simp: PostSend_def get_ctx_Some Let_def pinned_def split: option.splits if_splits dest!: issue_ok)
  then show ?thesis using v(1) assms(2) by (simp add: transmits_def ToULong_exact)
qed

lemma PostSend_own_window:
  assumes "PostSend_own sk (Some i) off len h ok s = (True, s')"
  shows "off + len \<le> length (ic_buffer (io_ctxs s ! i))" and "transmits (io_ctxs s' ! i) (take len (drop off (ic_buffer (io_ctxs s ! i))))"
proof -
  have p: "PostSend sk (Some i) (Some (ic_buffer (io_ctxs s ! i))) off len h ok s = (True, s')"
    "ValidBufferSendRange (ic_buffer (io_ctxs s ! i)) off len"
    using assms by (auto simp: PostSend_own_def get_ctx_Some split: option.splits if_splits)
  from p(2) show "off + len \<le> length (ic_buffer (io_ctxs s ! i))"
    by (auto simp: ValidBufferSendRange_def ValidExternalSendRange_def Let_def split: if_splits)
  with PostSend_window [OF p(1)] show "transmits (io_ctxs s' ! i) (take len (drop off (ic_buffer (io_ctxs s ! i))))" by simp
qed

lemma PostSendTo_window:
  assumes "PostSendTo sk (Some i) (Some d) len a n h ok s = (True, s')" and "len \<le> length d"
  shows "transmits (io_ctxs s' ! i) (take len d)"
proof -
  have v: "FitsULong len" "i < length (io_ctxs s)"
    using assms(1) by (auto simp: PostSendTo_def get_ctx_Some split: option.splits if_splits)
  have "ic_bufferPin (io_ctxs s' ! i) = Some (take len d) \<and> ic_window (io_ctxs s' ! i) = (0, ToULong len)"
    using assms(1) v(2) by (auto simp: PostSendTo_def get_ctx_Some Let_def pinned_def split: option.splits if_splits dest!: issue_ok)
  then show ?thesis using v(1) assms(2) by (simp add: transmits_def ToULong_exact)
qed

lemma PostSendTo_own_window:
  assumes "PostSendTo_own sk (Some i) len a n h ok s = (True, s')"
  shows "len \<le> length (ic_buffer (io_ctxs s ! i))" and "transmits (io_ctxs s' ! i) (take len (ic_buffer (io_ctxs s ! i)))"
proof -
  have p: "PostSendTo sk (Some i) (Some (ic_buffer (io_ctxs s ! i))) len a n h ok s = (True, s')"
    "ValidBufferSendRange (ic_buffer (io_ctxs s ! i)) 0 len"
    using assms by (auto simp: PostSendTo_own_def get_ctx_Some split: option.splits if_splits)
  from p(2) show "len \<le> length (ic_buffer (io_ctxs s ! i))"
    by (auto simp: ValidBufferSendRange_def ValidExternalSendRange_def Let_def split: if_splits)
  with PostSendTo_window [OF p(1)] show "transmits (io_ctxs s' ! i) (take len (ic_buffer (io_ctxs s ! i)))" by simp
qed

text \<open>C21.  The kernel is only given the memory that was meant.  A receive writes into the requested window of the context's own buffer, which is not empty and lies inside
  it; a datagram receive into the whole buffer.  A send, from the context's buffer or from a caller's memory that holds the requested
  bytes, lets the kernel read exactly those bytes, inside a copy the context keeps.  An accept writes both addresses into the
  context's own buffer.  No length is truncated on its way to 32 bits.\<close>

theorem iocp_windows_in_buffer:
  "(PostRecv sk (Some i) h off len ok s = (True, s') \<longrightarrow>
      receives_into (io_ctxs s' ! i) off (if len = 0 then length (ic_buffer (io_ctxs s ! i)) - off else len) \<and>
      ic_buffer (io_ctxs s' ! i) = ic_buffer (io_ctxs s ! i)) \<and>
   (PostRecvFrom sk (Some i) h ok s = (True, s') \<longrightarrow>
      receives_into (io_ctxs s' ! i) 0 (length (ic_buffer (io_ctxs s ! i))) \<and> ic_buffer (io_ctxs s' ! i) = ic_buffer (io_ctxs s ! i)) \<and>
   (PostSend sk (Some i) (Some d) off len h ok s = (True, s') \<and> off + len \<le> length d \<longrightarrow>
      transmits (io_ctxs s' ! i) (take len (drop off d))) \<and>
   (PostSend_own sk (Some i) off len h ok s = (True, s') \<longrightarrow>
      off + len \<le> length (ic_buffer (io_ctxs s ! i)) \<and> transmits (io_ctxs s' ! i) (take len (drop off (ic_buffer (io_ctxs s ! i))))) \<and>
   (PostSendTo sk (Some i) (Some d) len a n h ok s = (True, s') \<and> len \<le> length d \<longrightarrow> transmits (io_ctxs s' ! i) (take len d)) \<and>
   (PostSendTo_own sk (Some i) len a n h ok s = (True, s') \<longrightarrow>
      len \<le> length (ic_buffer (io_ctxs s ! i)) \<and> transmits (io_ctxs s' ! i) (take len (ic_buffer (io_ctxs s ! i)))) \<and>
   (Service_PostAccept sk as (Some i) own len h ex ok s = (True, s') \<longrightarrow>
      own \<and> len div 2 + len div 2 \<le> length (ic_buffer (io_ctxs s' ! i)))"
proof -
  have "own \<and> len div 2 + len div 2 \<le> length (ic_buffer (io_ctxs s' ! i))"
    if "Service_PostAccept sk as (Some i) own len h ex ok s = (True, s')"
    using that by (auto simp: Service_PostAccept_def get_ctx_Some Let_def pinned_def split: option.splits if_splits dest!: issue_ok)
  then show ?thesis
    by (intro conjI impI; (elim conjE)?)
      ((erule PostRecv_window [THEN conjunct1] PostRecv_window [THEN conjunct2] PostRecvFrom_window [THEN conjunct1]
         PostRecvFrom_window [THEN conjunct2] PostSend_own_window PostSendTo_own_window; assumption?) |
       (erule (1) PostSend_window PostSendTo_window) | blast)+
qed

section \<open>A concrete run\<close>

text \<open>One worker; a receive on socket 7 and a timer, both for handle 3; the timer fires while the receive is pending.\<close>

definition busy_events :: "iocp_event list" where
  "busy_events = [IvStart 1 True None, IvNewContext Op_Recv 4, IvPost (PRecv (Some 7) (Some 0) (Some 3) 0 0 True),
     IvPublish (Some 3) 5 10 0 True, IvPublished 1 True, IvTop 0 20000000, IvPosted 0 [True], IvResult 0 GotPacket]"

text \<open>The receive completes as well, the service is stopped and drains.\<close>

definition drain_events :: "iocp_event list" where
  "drain_events = [IvStart 1 True None, IvNewContext Op_Recv 4, IvPost (PRecv (Some 7) (Some 0) (Some 3) 0 0 True),
     IvTop 0 0, IvPosted 0 [], IvStop (\<lambda>n. True), IvResult 0 (GotCompletion 0), IvHandled 0]"

lemmas run_simps = busy_events_def drain_events_def iocp_run_def new_IocpService_def Service_Start_def PostRecv_def get_ctx_def service_up_def idle_ctx_def
  ValidRecvRange_def FitsULong_def new_IoContext_def IoContext_Reset_def issue_def AddOutstanding_def AddPending_def put_ctx_def pinned_def
  schedule_publish_def PostIocpCompletion_def PinIocpHandle_def UnpinIocpHandle_def schedule_finish_def worker_top_def worker_post_def
  claim_timers_def post_timers_def begin_wait_def set_worker_def worker_result_def dispatch_def worker_done_def UnregisterPendingSocket_def
  ReleaseOutstanding_def ReleaseOutstandingWithoutHandle_def ReleasePending_def dec_guarded_def stop_begin_def CancelOutstandingSocketIo_def ClearTimers_def stop_drained_def
  timer_wait_def Let_def

lemma busy_lawful: "lawful_run busy_events new_IocpService"
  by (simp add: run_simps)

lemma drain_lawful: "lawful_run drain_events new_IocpService"
  by (simp add: run_simps)

lemma drain_state:
  "io_stopper (iocp_run drain_events) = Draining" "io_port (iocp_run drain_events)" "io_outstanding (iocp_run drain_events) = 0"
  "length (io_workers (iocp_run drain_events)) = 1" "io_pending (iocp_run drain_events) 3 = 0"
  by (simp_all add: run_simps)

theorem iocp_books_exact_witness:
  "io_outstanding (iocp_run busy_events) = int (size (pins (iocp_run busy_events)))"
  using iocp_books_exact [OF busy_lawful refl] by simp

theorem iocp_idle_handle_unused_witness:
  "Handling 3 \<notin> set (io_workers (iocp_run drain_events))"
  using iocp_idle_handle_unused [OF drain_lawful refl drain_state(5)] by blast

theorem iocp_shutdown_ends_witness:
  "case io_workers (iocp_step (IvDrained (\<lambda>n. n \<noteq> 0)) (iocp_run drain_events)) ! 0 of
      AtTop \<Rightarrow> io_workers (iocp_step (IvTop 0 7) (iocp_step (IvDrained (\<lambda>n. n \<noteq> 0)) (iocp_run drain_events))) ! 0 = Waiting 0
    | Handling h \<Rightarrow> False
    | _ \<Rightarrow> True"
proof -
  let ?s0 = "iocp_run drain_events" and ?d = "IvDrained (\<lambda>n. n \<noteq> 0)"
  have n: "0 < length (io_workers (fold iocp_step [] (iocp_step ?d ?s0)))" by (simp add: run_simps)
  show ?thesis
    using iocp_shutdown_ends [OF drain_lawful refl drain_state(1-3), of "[]" "\<lambda>n. n \<noteq> 0", OF _ _ refl n, of 7 "[]"]
    by (auto split: worker.splits simp del: iocp_step.simps)
qed

theorem fresh_timer_id_returns_witness:
  "\<exists>i n. fresh_timer_id (length [(1 :: u64, \<lparr>ts_due = 5, ts_handle = 3, ts_ctx = None, ts_phase = Pending\<rparr>)] + 2)
             [(1, \<lparr>ts_due = 5, ts_handle = 3, ts_ctx = None, ts_phase = Pending\<rparr>)] 1 = Some (i, n) \<and> i \<noteq> 0 \<and>
           um_find [(1, \<lparr>ts_due = 5, ts_handle = 3, ts_ctx = None, ts_phase = Pending\<rparr>)] i = None"
  by (rule fresh_timer_id_returns) simp

definition armed_events :: "iocp_event list" where
  "armed_events = [IvStart 1 True None, IvPublish (Some 3) 5 10 0 True, IvPublished 1 True]"

theorem iocp_timers_on_time_witness:
  "\<exists>claimed waitMs s'. claim_timers 0 (iocp_run armed_events) = (claimed, waitMs, s') \<and>
     length claimed + length (io_timers s') = length (io_timers (iocp_run armed_events)) \<and>
     (waitMs = 4294967295 \<longleftrightarrow> io_timers s' = [])"
proof -
  have l: "lawful_run armed_events new_IocpService" by (simp add: armed_events_def run_simps)
  obtain claimed waitMs s' where c: "claim_timers 0 (iocp_run armed_events) = (claimed, waitMs, s')" by (metis prod_cases3)
  show ?thesis using iocp_timers_on_time [OF l refl c] c by blast
qed

theorem iocp_windows_in_buffer_witness:
  "\<exists>s'. PostSend_own (Some 7) (Some 0) 1 2 (Some 3) True (iocp_run [IvStart 1 True None, IvNewContext Op_Recv 4]) = (True, s') \<and>
     transmits (io_ctxs s' ! 0) [0, 0]"
proof -
  let ?s = "iocp_run [IvStart 1 True None, IvNewContext Op_Recv 4]"
  obtain s' where s': "PostSend_own (Some 7) (Some 0) 1 2 (Some 3) True ?s = (True, s')"
    by (simp add: run_simps PostSend_own_def PostSend_def ValidBufferSendRange_def ValidExternalSendRange_def)
  have "ic_buffer (io_ctxs ?s ! 0) = [0, 0, 0, 0]" by (simp add: run_simps numeral_eq_Suc)
  then show ?thesis
    using iocp_windows_in_buffer [of "Some 7" 0 "Some 3" 1 2 True ?s s', where d = "[]" and a = None and n = 0] s' by auto
qed

end
