(* ===== verification/Logger.thy ===== *)
theory Logger
  imports NetworkUtils
begin

text \<open>
  The logger of \<^verbatim>\<open>utils/Logger.cpp\<close>: message templates in the style of Serilog, rendered as plain text for a redirected
  output and with colours for a console.

  What the logger does to a console is the list \<open>cn_ops\<close> of its calls; \<open>cn_attrs\<close> is the reference \<^verbatim>\<open>currentAttrs\<close> that the
  source threads through its helpers.  A position in a template is the rest of the template from there.  The time of
  day is an argument.
\<close>

datatype LogLevel = Level_Debug | Level_Info | Level_Warning | Level_Error | Level_Off

datatype LogValueKind = Kind_Text | Kind_String | Kind_Number | Kind_Boolean | Kind_Scalar

record LogValue =
  lv_text :: string
  lv_kind :: LogValueKind

fun level_int :: "LogLevel \<Rightarrow> int" where
  "level_int Level_Debug = 0"
| "level_int Level_Info = 1"
| "level_int Level_Warning = 2"
| "level_int Level_Error = 3"
| "level_int Level_Off = 4"

definition LogValue_bool :: "bool \<Rightarrow> LogValue" where
  "LogValue_bool v = \<lparr>lv_text = (if v then ''true'' else ''false''), lv_kind = Kind_Boolean\<rparr>"

definition LogValue_cstr :: "string option \<Rightarrow> LogValue" where
  "LogValue_cstr v = \<lparr>lv_text = (case v of Some s \<Rightarrow> c_str s | None \<Rightarrow> ''''), lv_kind = Kind_String\<rparr>"

definition LogValue_string :: "string \<Rightarrow> LogValue" where
  "LogValue_string v = \<lparr>lv_text = v, lv_kind = Kind_String\<rparr>"

definition LogValue_int :: "int \<Rightarrow> LogValue" where
  "LogValue_int v = \<lparr>lv_text = (if v < 0 then CHR ''-'' # to_string (nat (- v)) else to_string (nat v)), lv_kind = Kind_Number\<rparr>"


section \<open>Colours\<close>

abbreviation (input) "FOREGROUND_BLUE \<equiv> (1 :: u16)"
abbreviation (input) "FOREGROUND_GREEN \<equiv> (2 :: u16)"
abbreviation (input) "FOREGROUND_RED \<equiv> (4 :: u16)"
abbreviation (input) "FOREGROUND_INTENSITY \<equiv> (8 :: u16)"
abbreviation (input) "BACKGROUND_RED \<equiv> (0x40 :: u16)"

definition kGray :: u16 where "kGray = FOREGROUND_RED OR FOREGROUND_GREEN OR FOREGROUND_BLUE"
definition kWhite :: u16 where "kWhite = FOREGROUND_RED OR FOREGROUND_GREEN OR FOREGROUND_BLUE OR FOREGROUND_INTENSITY"
definition kYellow :: u16 where "kYellow = FOREGROUND_RED OR FOREGROUND_GREEN OR FOREGROUND_INTENSITY"
definition kCyan :: u16 where "kCyan = FOREGROUND_GREEN OR FOREGROUND_BLUE OR FOREGROUND_INTENSITY"
definition kMagenta :: u16 where "kMagenta = FOREGROUND_RED OR FOREGROUND_BLUE OR FOREGROUND_INTENSITY"
definition kBlue :: u16 where "kBlue = FOREGROUND_BLUE OR FOREGROUND_INTENSITY"
definition kGreen :: u16 where "kGreen = FOREGROUND_GREEN OR FOREGROUND_INTENSITY"
definition kRedBg :: u16 where "kRedBg = BACKGROUND_RED"
definition kKeepBg :: u16 where "kKeepBg = 0xFF00"

record Style =
  st_foreground :: u16
  st_background :: u16

definition fg :: "u16 \<Rightarrow> Style" where
  "fg c = \<lparr>st_foreground = c, st_background = kKeepBg\<rparr>"

definition StyleSecondary :: Style where "StyleSecondary = fg kGray"
definition StyleText :: Style where "StyleText = fg kWhite"
definition StyleString :: Style where "StyleString = fg kCyan"
definition StyleNumber :: Style where "StyleNumber = fg kMagenta"
definition StyleBoolean :: Style where "StyleBoolean = fg kBlue"
definition StyleScalar :: Style where "StyleScalar = fg kGreen"

fun StyleLevel :: "LogLevel \<Rightarrow> Style" where
  "StyleLevel Level_Debug = fg kGray"
| "StyleLevel Level_Info = fg kWhite"
| "StyleLevel Level_Warning = fg kYellow"
| "StyleLevel Level_Error = \<lparr>st_foreground = kWhite, st_background = kRedBg\<rparr>"
| "StyleLevel Level_Off = fg kGray"

fun StyleFor :: "LogValueKind \<Rightarrow> Style" where
  "StyleFor Kind_Text = StyleText"
| "StyleFor Kind_String = StyleString"
| "StyleFor Kind_Number = StyleNumber"
| "StyleFor Kind_Boolean = StyleBoolean"
| "StyleFor Kind_Scalar = StyleScalar"

definition Combine :: "u16 \<Rightarrow> Style \<Rightarrow> u16" where
  "Combine current style =
     (let bg = (if st_background style = kKeepBg then current AND 0xF0 else st_background style AND 0xF0)
      in (st_foreground style AND 0x0F) OR bg)"


section \<open>The console\<close>

datatype console_op = SetConsoleTextAttribute u16 | WriteConsole string

record console =
  cn_attrs :: u16
  cn_ops :: "console_op list"

definition WriteStyled :: "Style \<Rightarrow> string \<Rightarrow> console \<Rightarrow> console" where
  "WriteStyled style text c =
     (let attrs = Combine (cn_attrs c) style;
          c1 = c\<lparr>cn_attrs := attrs, cn_ops := cn_ops c @ [SetConsoleTextAttribute attrs]\<rparr>
      in if text = [] then c1 else c1\<lparr>cn_ops := cn_ops c1 @ [WriteConsole text]\<rparr>)"

fun LevelNameLocal :: "LogLevel \<Rightarrow> string" where
  "LevelNameLocal Level_Debug = ''DBG''"
| "LevelNameLocal Level_Info = ''INF''"
| "LevelNameLocal Level_Warning = ''WRN''"
| "LevelNameLocal Level_Error = ''ERR''"
| "LevelNameLocal Level_Off = ''OFF''"

definition WriteLinePrefix :: "LogLevel \<Rightarrow> string \<Rightarrow> console \<Rightarrow> console" where
  "WriteLinePrefix level timeBuf =
     WriteStyled StyleSecondary ''] '' \<circ> WriteStyled (StyleLevel level) (LevelNameLocal level) \<circ>
     WriteStyled StyleSecondary '' '' \<circ> WriteStyled StyleSecondary timeBuf \<circ> WriteStyled StyleSecondary ''[''"


section \<open>Templates\<close>

definition starts_with2 :: "char \<Rightarrow> string \<Rightarrow> bool" where
  "starts_with2 x s \<longleftrightarrow> take 2 s = [x, x]"

text \<open>The inner loop that collects literal text.\<close>

fun literal_run :: "string \<Rightarrow> string \<times> string" where
  "literal_run [] = ([], [])"
| "literal_run (x # s) =
     (if x = CHR ''{'' \<or> (x = CHR ''}'' \<and> starts_with2 CHR ''}'' (x # s)) then ([], x # s)
      else let (lit, rest) = literal_run s in (x # lit, rest))"

lemma literal_run_length: "literal_run s = (lit, rest) \<Longrightarrow> length rest \<le> length s"
  by (induction s arbitrary: lit rest) (auto simp: Let_def split: prod.splits if_splits intro: le_SucI)

text \<open>What follows the first \<open>}\<close>.\<close>

definition after_brace :: "string \<Rightarrow> string option" where
  "after_brace s = (case dropWhile (\<lambda>x. x \<noteq> CHR ''}'') s of [] \<Rightarrow> None | _ # rest \<Rightarrow> Some rest)"

lemma after_brace_length: "after_brace s = Some rest \<Longrightarrow> length rest < length s"
  using length_dropWhile_le [of "\<lambda>x. x \<noteq> CHR ''}''" s] by (auto simp: after_brace_def split: list.splits)

function RenderTemplate :: "string \<Rightarrow> LogValue list \<Rightarrow> console \<Rightarrow> console" where
  "RenderTemplate [] values c = c"
| "RenderTemplate (x # s) values c =
     (if x = CHR ''{'' then
        if starts_with2 CHR ''{'' (x # s) then RenderTemplate (tl s) values (WriteStyled StyleText ''{'' c)
        else (case after_brace s of
                None \<Rightarrow> WriteStyled StyleText (x # s) c
              | Some rest \<Rightarrow>
                  (case values of
                     [] \<Rightarrow> RenderTemplate rest [] c
                   | v # vs \<Rightarrow> RenderTemplate rest vs (WriteStyled (StyleFor (lv_kind v)) (lv_text v) c)))
      else if starts_with2 CHR ''}'' (x # s) then RenderTemplate (tl s) values (WriteStyled StyleText ''}'' c)
      else
        let (lit, rest) = literal_run s in RenderTemplate rest values (WriteStyled StyleText (x # lit) c))"
  by pat_completeness auto

termination
  by (relation "measure (\<lambda>(s, _, _). length s)")
    (auto dest: after_brace_length literal_run_length [OF sym])

function RenderPlain :: "string \<Rightarrow> LogValue list \<Rightarrow> string" where
  "RenderPlain [] values = []"
| "RenderPlain (x # s) values =
     (if x = CHR ''{'' then
        if starts_with2 CHR ''{'' (x # s) then CHR ''{'' # RenderPlain (tl s) values
        else (case after_brace s of
                None \<Rightarrow> x # s
              | Some rest \<Rightarrow>
                  (case values of [] \<Rightarrow> RenderPlain rest [] | v # vs \<Rightarrow> lv_text v @ RenderPlain rest vs))
      else if starts_with2 CHR ''}'' (x # s) then CHR ''}'' # RenderPlain (tl s) values
      else x # RenderPlain s values)"
  by pat_completeness auto

termination
  by (relation "measure (\<lambda>(s, _). length s)") (auto dest: after_brace_length)


section \<open>The logger\<close>

definition strip_dots :: "string \<Rightarrow> string" where
  "strip_dots s = rev (dropWhile (\<lambda>x. x = CHR ''.'') (rev s))"

definition ends_with_dot :: "string \<Rightarrow> bool" where
  "ends_with_dot s \<longleftrightarrow> s \<noteq> [] \<and> last s = CHR ''.''"

text \<open>The loop over the values from the last to the first; here on the reversed list.\<close>

fun strip_last_value :: "LogValue list \<Rightarrow> LogValue list" where
  "strip_last_value [] = []"
| "strip_last_value (v # vs) =
     (if ends_with_dot (lv_text v) then v\<lparr>lv_text := strip_dots (lv_text v)\<rparr> # vs else v # strip_last_value vs)"

definition trim_dots :: "string \<Rightarrow> LogValue list \<Rightarrow> string \<times> LogValue list" where
  "trim_dots tmpl values =
     (if ends_with_dot tmpl then (strip_dots tmpl, values)
      else if ends_with_dot (RenderPlain tmpl values) then (tmpl, rev (strip_last_value (rev values)))
      else (tmpl, values))"

text \<open>Where a line goes: to a console with the given attributes, or to the redirected standard output.\<close>

datatype sink = Console u16 | Redirected

datatype log_effect = ConsoleCalls "console_op list" | Printf string

definition IsLevelEnabled :: "LogLevel \<Rightarrow> LogLevel \<Rightarrow> bool" where
  "IsLevelEnabled minLevel level \<longleftrightarrow> level_int level \<ge> level_int minLevel"

definition LogTemplate :: "LogLevel \<Rightarrow> sink \<Rightarrow> string \<Rightarrow> LogLevel \<Rightarrow> string \<Rightarrow> LogValue list \<Rightarrow> log_effect option" where
  "LogTemplate minLevel out timeBuf level tmpl0 values0 =
     (if level_int level < level_int minLevel then None
      else
        let (tmpl, values) = trim_dots tmpl0 values0
        in case out of
             Redirected \<Rightarrow>
               let plain = (if tmpl = ''{}'' \<and> length values = 1 then lv_text (hd values) else RenderPlain tmpl values)
               in Some (Printf (''['' @ timeBuf @ '' '' @ LevelNameLocal level @ ''] '' @ c_str plain @ ''\<newline>''))
           | Console original \<Rightarrow>
               let c1 = WriteLinePrefix level timeBuf \<lparr>cn_attrs = original, cn_ops = []\<rparr>;
                   c2 = (if tmpl = ''{}'' \<and> length values = 1 \<and> lv_kind (hd values) = Kind_Text
                         then WriteStyled StyleText (lv_text (hd values)) c1
                         else RenderTemplate tmpl values c1);
                   c3 = WriteStyled StyleSecondary ''\<newline>'' c2
               in Some (ConsoleCalls (cn_ops c3 @ [SetConsoleTextAttribute original])))"

text \<open>The member functions \<^verbatim>\<open>Debug\<close>, \<^verbatim>\<open>Info\<close>, \<^verbatim>\<open>Warning\<close> and \<^verbatim>\<open>Error\<close>: with a message only, and with a template.\<close>

definition Log :: "LogLevel \<Rightarrow> sink \<Rightarrow> string \<Rightarrow> LogLevel \<Rightarrow> string \<Rightarrow> log_effect option" where
  "Log minLevel out timeBuf level message =
     LogTemplate minLevel out timeBuf level ''{}'' [\<lparr>lv_text = message, lv_kind = Kind_Text\<rparr>]"

definition LogWith :: "LogLevel \<Rightarrow> sink \<Rightarrow> string \<Rightarrow> LogLevel \<Rightarrow> string \<Rightarrow> LogValue list \<Rightarrow> log_effect option" where
  "LogWith minLevel out timeBuf level tmpl args =
     (if \<not> IsLevelEnabled minLevel level then None else LogTemplate minLevel out timeBuf level tmpl args)"

section \<open>What is shown\<close>

fun op_text :: "console_op \<Rightarrow> string" where
  "op_text (WriteConsole t) = t"
| "op_text (SetConsoleTextAttribute a) = []"

definition console_text :: "console_op list \<Rightarrow> string" where
  "console_text ops = concat (map op_text ops)"

lemma console_text_append [simp]: "console_text (xs @ ys) = console_text xs @ console_text ys"
  by (simp add: console_text_def)

lemma console_text_simps [simp]: "console_text (x # xs) = op_text x @ console_text xs" "console_text [] = []"
  by (simp_all add: console_text_def)

lemma WriteStyled_text [simp]: "console_text (cn_ops (WriteStyled style t c)) = console_text (cn_ops c) @ t"
  by (simp add: WriteStyled_def Let_def)

lemma starts_with2_iff: "starts_with2 y (x # s) \<longleftrightarrow> x = y \<and> s \<noteq> [] \<and> hd s = y"
  by (cases s) (auto simp: starts_with2_def)

lemma literal_run_plain: "literal_run s = (lit, rest) \<Longrightarrow> RenderPlain s vs = lit @ RenderPlain rest vs"
proof (induction s arbitrary: lit rest)
  case (Cons x s)
  then show ?case by (auto simp: starts_with2_iff Let_def split: if_splits prod.splits)
qed simp

text \<open>Both renderers walk the template differently but show the same text.\<close>

lemma RenderTemplate_text: "console_text (cn_ops (RenderTemplate tmpl vs c)) = console_text (cn_ops c) @ RenderPlain tmpl vs"
proof (induction tmpl vs c rule: RenderTemplate.induct)
  case (2 x s vs c)
  show ?case
  proof (cases "x = CHR ''{'' \<or> starts_with2 CHR ''}'' (x # s)")
    case True
    then show ?thesis using 2 by (auto split: option.splits list.splits simp: starts_with2_iff)
  next
    case False
    obtain lit rest where r: "literal_run s = (lit, rest)" by fastforce
    show ?thesis using 2(5) [OF _ _ refl, of lit rest] False literal_run_plain [OF r, of vs] by (simp add: r)
  qed
qed simp

lemma WriteLinePrefix_text:
  "console_text (cn_ops (WriteLinePrefix level t c)) = console_text (cn_ops c) @ ''['' @ t @ '' '' @ LevelNameLocal level @ ''] ''"
  by (simp add: WriteLinePrefix_def)

lemma RenderPlain_message [simp]: "RenderPlain ''{}'' [v] = lv_text v"
  by (simp add: starts_with2_def after_brace_def)

lemma c_str_no_nul_append: "CHR 0x00 \<notin> set (xs @ s @ ys) \<Longrightarrow> c_str s = s"
  by simp

text \<open>A console and a redirected output show the same: a line below the minimum level is suppressed on both; otherwise the pieces
  written to the console, put together, are the printed line (as long as the text has no NUL, at which the latter ends), and
  the last call restores the attributes the console had before.\<close>

theorem log_console_shows_plain:
  "case (LogTemplate m (Console a) t level tmpl vs, LogTemplate m Redirected t level tmpl vs) of
     (None, None) \<Rightarrow> level_int level < level_int m
   | (Some (ConsoleCalls ops), Some (Printf line)) \<Rightarrow>
       level_int level \<ge> level_int m \<and> last ops = SetConsoleTextAttribute a \<and>
       (CHR 0x00 \<notin> set (console_text ops) \<longrightarrow> console_text ops = line)
   | _ \<Rightarrow> False"
proof -
  obtain tm ws where trim: "trim_dots tmpl vs = (tm, ws)" by fastforce
  have one: "tm = ''{}'' \<and> length ws = 1 \<Longrightarrow> RenderPlain tm ws = lv_text (hd ws)" by (cases ws) (auto simp del: RenderPlain.simps)
  show ?thesis
    using one by (auto simp: LogTemplate_def trim Let_def RenderTemplate_text WriteLinePrefix_text simp del: RenderPlain.simps)
qed

theorem log_console_shows_plain_witness:
  "\<exists>ops line. LogTemplate Level_Info (Console 7) ''12:00:00'' Level_Error ''{Tag} is {{down}}.'' [LogValue_string ''eth0''] = Some (ConsoleCalls ops) \<and>
     LogTemplate Level_Info Redirected ''12:00:00'' Level_Error ''{Tag} is {{down}}.'' [LogValue_string ''eth0''] = Some (Printf line) \<and>
     console_text ops = line"
proof -
  let ?C = "LogTemplate Level_Info (Console 7) ''12:00:00'' Level_Error ''{Tag} is {{down}}.'' [LogValue_string ''eth0'']"
  obtain ops where ops: "?C = Some (ConsoleCalls ops)" "CHR 0x00 \<notin> set (console_text ops)"
    by (simp add: LogTemplate_def trim_dots_def Let_def RenderTemplate_text WriteLinePrefix_text ends_with_dot_def strip_dots_def
        starts_with2_def after_brace_def LogValue_string_def)
  show ?thesis
    using log_console_shows_plain [where m = Level_Info and a = 7 and t = "''12:00:00''" and level = Level_Error and tmpl = "''{Tag} is {{down}}.''"
        and vs = "[LogValue_string ''eth0'']"] ops
    by (auto split: option.splits log_effect.splits)
qed

lemma strip_dots_none: "\<not> ends_with_dot s \<Longrightarrow> strip_dots s = s"
  by (cases s rule: rev_cases) (auto simp: strip_dots_def ends_with_dot_def)

text \<open>A plain message is printed as it is, without its final full stops: one line with the time and the level in front, and
  nothing at all below the minimum level.\<close>

theorem log_message_line:
  "Log m Redirected t level msg =
     (if level_int level < level_int m then None
      else Some (Printf (''['' @ t @ '' '' @ LevelNameLocal level @ ''] '' @ c_str (strip_dots msg) @ ''\<newline>''))) \<and>
   \<not> ends_with_dot (strip_dots msg)"
proof
  have "trim_dots ''{}'' [\<lparr>lv_text = msg, lv_kind = Kind_Text\<rparr>] = (''{}'', [\<lparr>lv_text = strip_dots msg, lv_kind = Kind_Text\<rparr>])"
    by (simp add: trim_dots_def strip_dots_none del: RenderPlain.simps) (simp add: ends_with_dot_def)
  then show "Log m Redirected t level msg =
      (if level_int level < level_int m then None
       else Some (Printf (''['' @ t @ '' '' @ LevelNameLocal level @ ''] '' @ c_str (strip_dots msg) @ ''\<newline>'')))"
    by (simp add: Log_def LogTemplate_def Let_def del: RenderPlain.simps)
  show "\<not> ends_with_dot (strip_dots msg)"
    using hd_dropWhile [of "\<lambda>x. x = CHR ''.''" "rev msg"] by (auto simp: ends_with_dot_def strip_dots_def last_rev)
qed

end
