(* ===== verification/TcpAcceptor.thy ===== *)
theory TcpAcceptor
  imports Prelude
begin

text \<open>
  The acceptor of \<^verbatim>\<open>network/TcpAcceptor.cpp\<close>: a fixed number of \<^verbatim>\<open>AcceptIo\<close> slots, each of which has one
  overlapped accept outstanding.

  A slot is the record \<open>AcceptIo\<close>: whether it owns a socket and whether its context is with the kernel.
  The callback \<^verbatim>\<open>onAccept_\<close> is a function on the state of its owner (the proxy server), so \<open>HandleAccept\<close> and
  \<open>TcpAcceptor_OnIoCompleted\<close> work on the pair of the acceptor and that state.  The operating system and IOCP
  answer through \<open>accept_env\<close>, one answer per call.  The creation and the end of every socket is recorded in
  \<open>ac_out\<close>.  Logging is left out.
\<close>

datatype accept_act =
    ACreate
  | AClose
  | ADeliver

record AcceptIo =
  ai_acceptSocket :: bool
  ai_posted :: bool

record acceptor =
  ac_acceptEx :: bool
  ac_accepts :: "AcceptIo list"
  ac_stopping :: bool
  ac_calls :: nat
  ac_out :: "accept_act list"

type_synonym accept_env = "nat \<Rightarrow> bool"

definition new_AcceptIo :: AcceptIo where
  "new_AcceptIo = \<lparr>ai_acceptSocket = False, ai_posted = False\<rparr>"

definition new_TcpAcceptor :: acceptor where
  "new_TcpAcceptor = \<lparr>ac_acceptEx = False, ac_accepts = [], ac_stopping = False, ac_calls = 0, ac_out = []\<rparr>"

definition accept_call :: "accept_env \<Rightarrow> acceptor \<Rightarrow> bool \<times> acceptor" where
  "accept_call e a = (e (ac_calls a), a\<lparr>ac_calls := Suc (ac_calls a)\<rparr>)"

definition accept_emit :: "accept_act \<Rightarrow> acceptor \<Rightarrow> acceptor" where
  "accept_emit x a = a\<lparr>ac_out := ac_out a @ [x]\<rparr>"

definition set_socket :: "nat \<Rightarrow> bool \<Rightarrow> acceptor \<Rightarrow> acceptor" where
  "set_socket i b a = a\<lparr>ac_accepts := (ac_accepts a)[i := (ac_accepts a ! i)\<lparr>ai_acceptSocket := b\<rparr>]\<rparr>"

definition set_posted :: "nat \<Rightarrow> bool \<Rightarrow> acceptor \<Rightarrow> acceptor" where
  "set_posted i b a = a\<lparr>ac_accepts := (ac_accepts a)[i := (ac_accepts a ! i)\<lparr>ai_posted := b\<rparr>]\<rparr>"

definition close_socket :: "nat \<Rightarrow> acceptor \<Rightarrow> acceptor" where
  "close_socket i a = accept_emit AClose (set_socket i False a)"

text \<open>Post the accept of slot \<open>i\<close>, with a fresh socket.\<close>

definition PostAccept :: "accept_env \<Rightarrow> nat \<Rightarrow> acceptor \<Rightarrow> bool \<times> acceptor" where
  "PostAccept e i a =
     (if ac_stopping a then (False, a)
      else
        let a1 = (if ai_acceptSocket (ac_accepts a ! i) then close_socket i a else a);
            (created, a2) = accept_call e a1
        in if \<not> created then (False, set_socket i False a2)
           else
             let a3 = accept_emit ACreate (set_socket i True a2);
                 (posted, a4) = accept_call e a3
             in if \<not> posted then (False, close_socket i a4)
                else (True, set_posted i True a4))"

fun post_initial :: "accept_env \<Rightarrow> nat \<Rightarrow> acceptor \<Rightarrow> bool \<times> acceptor" where
  "post_initial e 0 a = (True, a)"
| "post_initial e (Suc n) a =
     (case PostAccept e (length (ac_accepts a)) (a\<lparr>ac_accepts := ac_accepts a @ [new_AcceptIo]\<rparr>) of
        (False, a1) \<Rightarrow> (False, a1)
      | (True, a1) \<Rightarrow> post_initial e n a1)"

definition TcpAcceptor_Start :: "accept_env \<Rightarrow> nat \<Rightarrow> acceptor \<Rightarrow> bool \<times> acceptor" where
  "TcpAcceptor_Start e pendingAccepts a =
     (let (loaded, a1) = accept_call e a
      in if \<not> loaded then (False, a1)
         else
           let (associated, a2) = accept_call e (a1\<lparr>ac_acceptEx := True\<rparr>)
           in if \<not> associated then (False, a2)
              else post_initial e (if pendingAccepts = 0 then 16 else pendingAccepts) a2)"

definition TcpAcceptor_Stop :: "acceptor \<Rightarrow> acceptor" where
  "TcpAcceptor_Stop a = a\<lparr>ac_stopping := True\<rparr>"

definition HandleAccept :: "accept_env \<Rightarrow> ('w \<Rightarrow> 'w) option \<Rightarrow> nat \<Rightarrow> nat \<Rightarrow> acceptor \<times> 'w \<Rightarrow> acceptor \<times> 'w" where
  "HandleAccept e onAccept i error = (\<lambda>(a, w).
     let client = ai_acceptSocket (ac_accepts a ! i);
         a1 = set_socket i False a;
         drop_client = (\<lambda>a. if client then accept_emit AClose a else a);
         repost = (\<lambda>a. if ac_stopping a then a else snd (PostAccept e i a))
     in if ac_stopping a1 then (drop_client a1, w)
        else if error \<noteq> 0 \<or> \<not> client then (repost (drop_client a1), w)
        else case onAccept of
          Some callback \<Rightarrow> (repost (accept_emit ADeliver a1), callback w)
        | None \<Rightarrow> (repost (accept_emit AClose a1), w))"

text \<open>A completion for the context of slot \<open>i\<close>; a context that belongs to no slot is ignored.\<close>

definition TcpAcceptor_OnIoCompleted ::
    "accept_env \<Rightarrow> ('w \<Rightarrow> 'w) option \<Rightarrow> nat \<Rightarrow> nat \<Rightarrow> acceptor \<times> 'w \<Rightarrow> acceptor \<times> 'w" where
  "TcpAcceptor_OnIoCompleted e onAccept i error = (\<lambda>(a, w).
     if i < length (ac_accepts a) then HandleAccept e onAccept i error (set_posted i False a, w) else (a, w))"

section \<open>Sockets and outstanding accepts\<close>

definition held :: "acceptor \<Rightarrow> nat" where
  "held a = length (filter ai_acceptSocket (ac_accepts a))"

definition outstanding :: "acceptor \<Rightarrow> nat" where
  "outstanding a = length (filter ai_posted (ac_accepts a))"

definition act_count :: "accept_act \<Rightarrow> acceptor \<Rightarrow> nat" where
  "act_count x a = count_list (ac_out a) x"

text \<open>Every socket that was created is closed, handed over or owned by a slot; between completions a slot owns a socket
  exactly while its accept is outstanding.\<close>

definition sockets_ok :: "acceptor \<Rightarrow> bool" where
  "sockets_ok a \<longleftrightarrow> act_count ACreate a = act_count AClose a + act_count ADeliver a + held a"

definition slots_ok :: "acceptor \<Rightarrow> bool" where
  "slots_ok a \<longleftrightarrow> (\<forall>io \<in> set (ac_accepts a). ai_posted io = ai_acceptSocket io)"

lemma set_fields [simp]:
  "ac_stopping (set_socket i b a) = ac_stopping a" "ac_stopping (set_posted i b a) = ac_stopping a"
  "ac_stopping (accept_emit x a) = ac_stopping a" "ac_stopping (snd (accept_call e a)) = ac_stopping a"
  "ac_accepts (accept_emit x a) = ac_accepts a" "ac_accepts (snd (accept_call e a)) = ac_accepts a"
  "ac_calls (set_socket i b a) = ac_calls a" "ac_calls (set_posted i b a) = ac_calls a"
  "length (ac_accepts (set_socket i b a)) = length (ac_accepts a)" "length (ac_accepts (set_posted i b a)) = length (ac_accepts a)"
  "act_count y (set_socket i b a) = act_count y a" "act_count y (set_posted i b a) = act_count y a"
  "act_count y (accept_emit x a) = act_count y a + of_bool (x = y)" "act_count y (snd (accept_call e a)) = act_count y a"
  "fst (accept_call e a) = e (ac_calls a)"
  by (simp_all add: set_socket_def set_posted_def accept_emit_def accept_call_def act_count_def)

lemma held_simps [simp]:
  "held (accept_emit x a) = held a" "held (snd (accept_call e a)) = held a"
  "outstanding (accept_emit x a) = outstanding a" "outstanding (snd (accept_call e a)) = outstanding a"
  by (simp_all add: held_def outstanding_def accept_emit_def accept_call_def)

lemma held_set:
  assumes "i < length (ac_accepts a)"
  shows "held (set_socket i b a) = held a - of_bool (ai_acceptSocket (ac_accepts a ! i)) + of_bool b"
    and "held (set_posted i b a) = held a"
    and "outstanding (set_posted i b a) = outstanding a - of_bool (ai_posted (ac_accepts a ! i)) + of_bool b"
    and "outstanding (set_socket i b a) = outstanding a"
  using assms by (simp_all add: held_def outstanding_def set_socket_def set_posted_def filter_update_count filter_member_pos)

lemma held_pos [simp]:
  "i < length (ac_accepts a) \<Longrightarrow> ai_acceptSocket (ac_accepts a ! i) \<Longrightarrow> Suc (held a - Suc 0) = held a"
  by (simp add: held_def filter_member_pos)

lemma nth_set [simp]:
  assumes "i < length (ac_accepts a)"
  shows "ac_accepts (set_socket i b a) ! i = (ac_accepts a ! i)\<lparr>ai_acceptSocket := b\<rparr>"
    and "ac_accepts (set_posted i b a) ! i = (ac_accepts a ! i)\<lparr>ai_posted := b\<rparr>"
    and "j \<noteq> i \<Longrightarrow> ac_accepts (set_socket i b a) ! j = ac_accepts a ! j"
    and "j \<noteq> i \<Longrightarrow> ac_accepts (set_posted i b a) ! j = ac_accepts a ! j"
  using assms by (simp_all add: set_socket_def set_posted_def)

text \<open>What \<open>PostAccept\<close> does to its slot and to the books.\<close>

lemma PostAccept_slot:
  assumes "i < length (ac_accepts a)" and "\<not> ai_posted (ac_accepts a ! i)" and "PostAccept e i a = (ok, a')"
  shows "length (ac_accepts a') = length (ac_accepts a)" "ac_stopping a' = ac_stopping a"
    "j < length (ac_accepts a) \<Longrightarrow> j \<noteq> i \<Longrightarrow> ac_accepts a' ! j = ac_accepts a ! j"
    "sockets_ok a \<Longrightarrow> sockets_ok a'" "act_count ADeliver a' = act_count ADeliver a"
    "\<not> ac_stopping a \<or> \<not> ai_acceptSocket (ac_accepts a ! i) \<Longrightarrow> ac_accepts a' ! i = \<lparr>ai_acceptSocket = ok, ai_posted = ok\<rparr>"
  using assms
  by (auto simp: PostAccept_def close_socket_def Let_def split_def sockets_ok_def held_set split: if_splits)

text \<open>Start, and then completions, each of which names a slot and an error code; \<open>AvStop\<close> is \<^verbatim>\<open>TcpAcceptor::Stop\<close>.\<close>

datatype accept_event = AvDone nat nat | AvStop

fun accept_step :: "accept_env \<Rightarrow> ('w \<Rightarrow> 'w) option \<Rightarrow> accept_event \<Rightarrow> acceptor \<times> 'w \<Rightarrow> acceptor \<times> 'w" where
  "accept_step e f (AvDone i error) aw = TcpAcceptor_OnIoCompleted e f i error aw"
| "accept_step e f AvStop (a, w) = (TcpAcceptor_Stop a, w)"

definition accept_run :: "accept_env \<Rightarrow> ('w \<Rightarrow> 'w) option \<Rightarrow> accept_event list \<Rightarrow> acceptor \<times> 'w \<Rightarrow> acceptor \<times> 'w" where
  "accept_run e f evs aw = fold (accept_step e f) evs aw"

definition acceptor_ok :: "acceptor \<Rightarrow> bool" where
  "acceptor_ok a \<longleftrightarrow> sockets_ok a \<and> slots_ok a"

lemma slots_ok_nth: "slots_ok a \<longleftrightarrow> (\<forall>i < length (ac_accepts a). ai_posted (ac_accepts a ! i) = ai_acceptSocket (ac_accepts a ! i))"
  by (auto simp: slots_ok_def all_set_conv_all_nth)

lemma outstanding_held: "slots_ok a \<Longrightarrow> outstanding a = held a"
  unfolding outstanding_def held_def slots_ok_def by (metis (mono_tags, lifting) filter_cong)

text \<open>Reposting a slot whose accept has completed and whose socket has been given away.\<close>

lemma repost:
  assumes "i < length (ac_accepts a)" and "ac_accepts a ! i = \<lparr>ai_acceptSocket = False, ai_posted = False\<rparr>"
    and "\<forall>j < length (ac_accepts a). j \<noteq> i \<longrightarrow> ai_posted (ac_accepts a ! j) = ai_acceptSocket (ac_accepts a ! j)"
    and "sockets_ok a"
  shows "acceptor_ok (snd (PostAccept e i a))"
proof -
  obtain ok a' where p: "PostAccept e i a = (ok, a')" by fastforce
  have "\<not> ai_posted (ac_accepts a ! i)" "\<not> ai_acceptSocket (ac_accepts a ! i)" using assms(2) by simp_all
  note q = PostAccept_slot [OF assms(1) this(1) p]
  have "slots_ok a'" unfolding slots_ok_nth
  proof (intro allI impI)
    fix j assume "j < length (ac_accepts a')"
    then show "ai_posted (ac_accepts a' ! j) = ai_acceptSocket (ac_accepts a' ! j)"
      using q(1,3,6) assms \<open>\<not> ai_acceptSocket (ac_accepts a ! i)\<close> by (cases "j = i") auto
  qed
  with q(4) assms(4) p show ?thesis by (simp add: acceptor_ok_def)
qed

lemma taken_slot:
  assumes "acceptor_ok a" and "i < length (ac_accepts a)"
  defines "a1 \<equiv> set_socket i False (set_posted i False a)"
  shows "ac_accepts a1 ! i = \<lparr>ai_acceptSocket = False, ai_posted = False\<rparr>"
    and "\<forall>j < length (ac_accepts a1). j \<noteq> i \<longrightarrow> ai_posted (ac_accepts a1 ! j) = ai_acceptSocket (ac_accepts a1 ! j)"
    and "slots_ok a1" and "held a1 = held a - of_bool (ai_acceptSocket (ac_accepts a ! i))"
proof -
  show "held a1 = held a - of_bool (ai_acceptSocket (ac_accepts a ! i))" using assms(2) by (simp add: a1_def held_set)
qed (use assms(1,2) in \<open>auto simp: a1_def acceptor_ok_def slots_ok_nth nth_list_update set_socket_def set_posted_def\<close>)

lemma acceptor_ok_done:
  assumes "acceptor_ok a"
  shows "acceptor_ok (fst (TcpAcceptor_OnIoCompleted e f i err (a, w)))"
proof (cases "i < length (ac_accepts a)")
  case True
  let ?a1 = "set_socket i False (set_posted i False a)"
  note t = taken_slot [OF assms True]
  have given: "sockets_ok (accept_emit x ?a1)" "slots_ok (accept_emit x ?a1)"
    if "ai_acceptSocket (ac_accepts a ! i)" "x \<noteq> ACreate" for x
    using assms t(3,4) True that by (cases x; auto simp: acceptor_ok_def sockets_ok_def slots_ok_def)+
  have kept: "sockets_ok ?a1" if "\<not> ai_acceptSocket (ac_accepts a ! i)"
    using assms t(4) that by (simp add: acceptor_ok_def sockets_ok_def)
  have rp: "acceptor_ok (snd (PostAccept e i (accept_emit x ?a1)))" if "sockets_ok (accept_emit x ?a1)" for x
    using repost [of i "accept_emit x ?a1" e] t(1,2) True that by simp
  have rp0: "acceptor_ok (snd (PostAccept e i ?a1))" if "sockets_ok ?a1"
    using repost [of i ?a1 e] t(1,2) True that by simp
  show ?thesis
    using True given kept rp rp0 t(3)
    by (auto simp: TcpAcceptor_OnIoCompleted_def HandleAccept_def Let_def acceptor_ok_def split: option.split)
qed (use assms in \<open>simp add: TcpAcceptor_OnIoCompleted_def\<close>)

lemma acceptor_ok_stop: "acceptor_ok (TcpAcceptor_Stop a) = acceptor_ok a"
  by (simp add: TcpAcceptor_Stop_def acceptor_ok_def sockets_ok_def slots_ok_def held_def act_count_def)

lemma acceptor_ok_step: "acceptor_ok (fst aw) \<Longrightarrow> acceptor_ok (fst (accept_step e f ev aw))"
  by (cases aw; cases ev) (auto simp: acceptor_ok_stop acceptor_ok_done)

lemma acceptor_ok_run: "acceptor_ok (fst aw) \<Longrightarrow> acceptor_ok (fst (accept_run e f evs aw))"
  unfolding accept_run_def
proof (induction evs arbitrary: aw)
  case (Cons ev evs)
  then show ?case using acceptor_ok_step [of aw e f ev] by simp
qed simp

lemma post_initial_ok:
  "acceptor_ok a \<Longrightarrow> acceptor_ok (snd (post_initial e n a)) \<and>
     length (ac_accepts (snd (post_initial e n a))) \<le> length (ac_accepts a) + n"
proof (induction n arbitrary: a)
  case (Suc n)
  let ?a = "a\<lparr>ac_accepts := ac_accepts a @ [new_AcceptIo]\<rparr>" and ?i = "length (ac_accepts a)"
  obtain ok a' where p: "PostAccept e ?i ?a = (ok, a')" by fastforce
  have "acceptor_ok (snd (PostAccept e ?i ?a))"
    by (rule repost)
      (use Suc.prems in \<open>auto simp: acceptor_ok_def sockets_ok_def slots_ok_nth held_def act_count_def new_AcceptIo_def nth_append\<close>)
  moreover have "length (ac_accepts a') = Suc ?i" using PostAccept_slot(1) [OF _ _ p] by (simp add: new_AcceptIo_def)
  ultimately show ?case using Suc.IH [of a'] p by (cases ok) auto
qed simp

lemma new_acceptor_ok: "acceptor_ok new_TcpAcceptor"
  by (simp add: acceptor_ok_def sockets_ok_def slots_ok_def held_def act_count_def new_TcpAcceptor_def)

lemma acceptor_ok_call: "acceptor_ok (snd (accept_call e a)) = acceptor_ok a" "acceptor_ok (a\<lparr>ac_acceptEx := b\<rparr>) = acceptor_ok a"
  by (simp_all add: acceptor_ok_def sockets_ok_def slots_ok_def held_def act_count_def accept_call_def)

lemma Start_acceptor_ok:
  assumes "TcpAcceptor_Start e n new_TcpAcceptor = (ok, a)"
  shows "acceptor_ok a \<and> length (ac_accepts a) \<le> (if n = 0 then 16 else n)"
proof -
  let ?a = "snd (accept_call e ((snd (accept_call e new_TcpAcceptor))\<lparr>ac_acceptEx := True\<rparr>))"
  have "acceptor_ok ?a" "acceptor_ok (snd (accept_call e new_TcpAcceptor))" "ac_accepts ?a = []"
    "ac_accepts (snd (accept_call e new_TcpAcceptor)) = []"
    using new_acceptor_ok by (simp_all add: acceptor_ok_call) (simp_all add: new_TcpAcceptor_def accept_call_def)
  then show ?thesis
    using assms post_initial_ok [of ?a e "if n = 0 then 16 else n"]
    by (auto simp: TcpAcceptor_Start_def Let_def split_def split: if_splits)
qed

lemma slots_constant: "length (ac_accepts (fst (accept_run e f evs aw))) = length (ac_accepts (fst aw))"
  unfolding accept_run_def
proof (induction evs arbitrary: aw)
  case (Cons ev evs)
  have post: "length (ac_accepts (snd (PostAccept e i a))) = length (ac_accepts a)" for i a
    by (simp add: PostAccept_def close_socket_def Let_def split_def)
  have "length (ac_accepts (fst (accept_step e f ev aw))) = length (ac_accepts (fst aw))"
    by (cases aw; cases ev)
      (auto simp: TcpAcceptor_OnIoCompleted_def HandleAccept_def TcpAcceptor_Stop_def Let_def post split: option.split)
  with Cons show ?case by simp
qed simp

text \<open>C19.  Whatever completes and however the system calls go, no accept socket is lost: every socket the acceptor created has been
  closed, has been handed to the server, or belongs to the one accept outstanding on its slot; and there are never more
  outstanding accepts than slots were asked for.\<close>

theorem accept_sockets_accounted:
  assumes "TcpAcceptor_Start e n new_TcpAcceptor = (ok, a)" and "accept_run e f evs (a, w) = (a', w')"
  shows "act_count ACreate a' = act_count AClose a' + act_count ADeliver a' + outstanding a' \<and>
    outstanding a' \<le> (if n = 0 then 16 else n)"
proof -
  have "acceptor_ok a'" using acceptor_ok_run [of "(a, w)" e f evs] Start_acceptor_ok [OF assms(1)] assms(2) by simp
  then have "sockets_ok a'" "outstanding a' = held a'" by (simp_all add: acceptor_ok_def outstanding_held)
  moreover have "length (ac_accepts a') \<le> (if n = 0 then 16 else n)"
    using slots_constant [of e f evs "(a, w)"] Start_acceptor_ok [OF assms(1)] assms(2) by auto
  moreover have "outstanding a' \<le> length (ac_accepts a')" by (simp add: outstanding_def)
  ultimately show ?thesis by (simp add: sockets_ok_def)
qed

theorem accept_sockets_accounted_witness:
  "let a' = fst (accept_run (\<lambda>n. n \<noteq> 8) None [AvDone 0 0, AvDone 1 995, AvStop, AvDone 1 0]
                  (snd (TcpAcceptor_Start (\<lambda>n. n \<noteq> 8) 2 new_TcpAcceptor), ()))
   in act_count ACreate a' = act_count AClose a' + act_count ADeliver a' + outstanding a' \<and> outstanding a' \<le> 2"
  using accept_sockets_accounted [OF surjective_pairing surjective_pairing, where e = "\<lambda>n. n \<noteq> 8" and n = 2 and f = None
      and evs = "[AvDone 0 0, AvDone 1 995, AvStop, AvDone 1 0]" and w = "()"]
  by (simp add: Let_def)

section \<open>The accept window\<close>

text \<open>A completion is delivered only for an accept that is outstanding: the contract of overlapped I/O.\<close>

fun genuine :: "accept_event \<Rightarrow> acceptor \<Rightarrow> bool" where
  "genuine (AvDone i error) a \<longleftrightarrow> i < length (ac_accepts a) \<and> ai_posted (ac_accepts a ! i)"
| "genuine AvStop a \<longleftrightarrow> True"

fun genuine_run :: "accept_env \<Rightarrow> ('w \<Rightarrow> 'w) option \<Rightarrow> accept_event list \<Rightarrow> acceptor \<times> 'w \<Rightarrow> bool" where
  "genuine_run e f [] aw \<longleftrightarrow> True"
| "genuine_run e f (ev # evs) aw \<longleftrightarrow> genuine ev (fst aw) \<and> genuine_run e f evs (accept_step e f ev aw)"

lemma outstanding_PostAccept:
  assumes "i < length (ac_accepts a)" and "\<not> ai_posted (ac_accepts a ! i)" and "PostAccept e i a = (ok, a')"
  shows "outstanding a' = outstanding a + of_bool ok"
  using assms by (auto simp: PostAccept_def close_socket_def Let_def split_def held_set split: if_splits)

lemma outstanding_pos [simp]:
  "i < length (ac_accepts a) \<Longrightarrow> ai_posted (ac_accepts a ! i) \<Longrightarrow> Suc (outstanding a - Suc 0) = outstanding a"
  by (simp add: outstanding_def filter_member_pos)

lemma outstanding_taken:
  assumes "i < length (ac_accepts a)" and "ai_posted (ac_accepts a ! i)"
  shows "Suc (outstanding (set_posted i False a)) = outstanding a"
  using assms outstanding_pos [of i a] by (simp add: held_set)

lemma outstanding_done:
  assumes "i < length (ac_accepts a)" and "ai_posted (ac_accepts a ! i)"
  shows "outstanding (fst (TcpAcceptor_OnIoCompleted e f i err (a, w))) \<le> outstanding a"
    and "ac_stopping a \<Longrightarrow> outstanding (fst (TcpAcceptor_OnIoCompleted e f i err (a, w))) < outstanding a"
    and "\<not> ac_stopping a \<Longrightarrow> e = (\<lambda>n. True) \<Longrightarrow> outstanding (fst (TcpAcceptor_OnIoCompleted e f i err (a, w))) = outstanding a"
proof -
  let ?a1 = "set_socket i False (set_posted i False a)"
  have post: "outstanding (snd (PostAccept e i b)) = outstanding b + of_bool (fst (PostAccept e i b))"
    if "length (ac_accepts b) = length (ac_accepts a)" "\<not> ai_posted (ac_accepts b ! i)" for b e
    using outstanding_PostAccept [of i b e] that assms(1) by (metis prod.collapse)
  have succeeds: "fst (PostAccept e i b)" if "\<not> ac_stopping b" "e = (\<lambda>n. True)" for b
    using that by (simp add: PostAccept_def Let_def split_def)
  have less: "Suc (outstanding ?a1) = outstanding a" using outstanding_taken [OF assms] assms(1) by (simp add: held_set)
  show "outstanding (fst (TcpAcceptor_OnIoCompleted e f i err (a, w))) \<le> outstanding a"
    "ac_stopping a \<Longrightarrow> outstanding (fst (TcpAcceptor_OnIoCompleted e f i err (a, w))) < outstanding a"
    "\<not> ac_stopping a \<Longrightarrow> e = (\<lambda>n. True) \<Longrightarrow> outstanding (fst (TcpAcceptor_OnIoCompleted e f i err (a, w))) = outstanding a"
    using assms(1) less succeeds
    by (auto simp: TcpAcceptor_OnIoCompleted_def HandleAccept_def Let_def post split: option.split)
qed

lemma stopping_step [simp]: "ac_stopping (fst (TcpAcceptor_OnIoCompleted e f i err (a, w))) = ac_stopping a"
proof -
  have "ac_stopping (snd (PostAccept e i b)) = ac_stopping b" for b
    by (simp add: PostAccept_def close_socket_def Let_def split_def)
  then show ?thesis by (simp add: TcpAcceptor_OnIoCompleted_def HandleAccept_def Let_def split: option.split)
qed

lemma outstanding_run: "genuine_run e f evs aw \<Longrightarrow> outstanding (fst (accept_run e f evs aw)) \<le> outstanding (fst aw)"
  unfolding accept_run_def
proof (induction evs arbitrary: aw)
  case (Cons ev evs)
  obtain a w where aw: "aw = (a, w)" by fastforce
  have "outstanding (fst (accept_step e f ev aw)) \<le> outstanding (fst aw)"
    using Cons.prems outstanding_done(1) by (cases ev) (auto simp: aw TcpAcceptor_Stop_def outstanding_def)
  with Cons.IH [of "accept_step e f ev aw"] Cons.prems show ?case by simp
qed simp

lemma window_run:
  assumes "e = (\<lambda>n. True)"
  shows "genuine_run e f evs aw \<Longrightarrow> AvStop \<notin> set evs \<Longrightarrow> \<not> ac_stopping (fst aw) \<Longrightarrow>
    outstanding (fst (accept_run e f evs aw)) = outstanding (fst aw)"
  unfolding accept_run_def
proof (induction evs arbitrary: aw)
  case (Cons ev evs)
  obtain a w i err where aw: "aw = (a, w)" "ev = AvDone i err" using Cons.prems(2) by (cases ev; cases aw) auto
  then have "outstanding (fst (accept_step e f ev aw)) = outstanding a" "\<not> ac_stopping (fst (accept_step e f ev aw))"
    using Cons.prems outstanding_done(3) [of i a e f err w] assms by auto
  with Cons.IH [of "accept_step e f ev aw"] Cons.prems aw show ?case by simp
qed simp

lemma stopped_drains:
  "genuine_run e f (map (\<lambda>(i, err). AvDone i err) ds) (a, w) \<Longrightarrow> ac_stopping a \<Longrightarrow>
     case accept_run e f (map (\<lambda>(i, err). AvDone i err) ds) (a, w) of (a', w') \<Rightarrow>
       w' = w \<and> outstanding a' + length ds = outstanding a \<and> act_count ADeliver a' = act_count ADeliver a"
  unfolding accept_run_def
proof (induction ds arbitrary: a)
  case (Cons d ds)
  obtain i err where d: "d = (i, err)" by fastforce
  have i: "i < length (ac_accepts a)" "ai_posted (ac_accepts a ! i)" using Cons.prems by (auto simp: d)
  obtain a1 where step: "TcpAcceptor_OnIoCompleted e f i err (a, w) = (a1, w)" "act_count ADeliver a1 = act_count ADeliver a"
    "Suc (outstanding a1) = outstanding a"
    using i Cons.prems(2) outstanding_taken [OF i]
    by (auto simp: TcpAcceptor_OnIoCompleted_def HandleAccept_def Let_def held_set)
  have "ac_stopping a1" using stopping_step [of e f i err a w] Cons.prems(2) step(1) by simp
  with Cons.IH [of a1] Cons.prems step show ?case by (auto simp: d split: prod.splits)
qed simp

lemma post_initial_all:
  assumes "e = (\<lambda>n. True)"
  shows "\<not> ac_stopping a \<Longrightarrow> fst (post_initial e n a) \<and> outstanding (snd (post_initial e n a)) = outstanding a + n \<and>
    \<not> ac_stopping (snd (post_initial e n a))"
proof (induction n arbitrary: a)
  case (Suc n)
  let ?a = "a\<lparr>ac_accepts := ac_accepts a @ [new_AcceptIo]\<rparr>" and ?i = "length (ac_accepts a)"
  obtain ok a' where p: "PostAccept e ?i ?a = (ok, a')" by fastforce
  have ok: "ok" using p Suc.prems assms by (auto simp: PostAccept_def Let_def split_def)
  have "outstanding a' = Suc (outstanding a)" "\<not> ac_stopping a'"
    using outstanding_PostAccept [OF _ _ p] PostAccept_slot(2) [OF _ _ p] ok Suc.prems
    by (simp_all add: new_AcceptIo_def outstanding_def)
  with Suc.IH [of a'] p ok show ?case by simp
qed simp

lemma Start_full:
  assumes "e = (\<lambda>n. True)"
  shows "case TcpAcceptor_Start e n new_TcpAcceptor of (ok, a) \<Rightarrow>
    ok \<and> outstanding a = (if n = 0 then 16 else n) \<and> \<not> ac_stopping a"
  using post_initial_all [OF assms, of "snd (accept_call e ((snd (accept_call e new_TcpAcceptor))\<lparr>ac_acceptEx := True\<rparr>))"]
  by (auto simp: TcpAcceptor_Start_def Let_def split_def assms new_TcpAcceptor_def accept_call_def outstanding_def)

text \<open>As long as the system calls succeed and the acceptor is not stopped, the window of outstanding accepts stays full: after any
  completions, failed ones included, exactly the requested number of accepts is outstanding.\<close>

theorem accept_window_kept:
  assumes "e = (\<lambda>n. True)" and "TcpAcceptor_Start e n new_TcpAcceptor = (ok, a)"
    and "genuine_run e f evs (a, w)" and "AvStop \<notin> set evs"
  shows "ok \<and> outstanding (fst (accept_run e f evs (a, w))) = (if n = 0 then 16 else n)"
  using Start_full [OF assms(1), of n] window_run [OF assms(1), of f evs "(a, w)"] assms(2-4) by simp


text \<open>After Stop no client is handed over and no accept is posted again: once the outstanding accepts have completed none is left,
  and every socket ever created has been closed or handed over before.\<close>

theorem accept_stop_drains:
  assumes "TcpAcceptor_Start e n new_TcpAcceptor = (ok, a)" and "accept_run e f evs (a, w) = (a1, w1)"
    and "genuine_run e f (map (\<lambda>(i, err). AvDone i err) ds) (TcpAcceptor_Stop a1, w1)" and "length ds = outstanding a1"
  shows "case accept_run e f (map (\<lambda>(i, err). AvDone i err) ds) (TcpAcceptor_Stop a1, w1) of (a2, w2) \<Rightarrow>
    w2 = w1 \<and> outstanding a2 = 0 \<and> act_count ACreate a2 = act_count AClose a2 + act_count ADeliver a2"
proof -
  have "acceptor_ok (TcpAcceptor_Stop a1)"
    using acceptor_ok_run [of "(a, w)" e f evs] Start_acceptor_ok [OF assms(1)] assms(2) by (simp add: acceptor_ok_stop)
  then have "acceptor_ok (fst (accept_run e f (map (\<lambda>(i, err). AvDone i err) ds) (TcpAcceptor_Stop a1, w1)))"
    using acceptor_ok_run by (metis fst_conv)
  moreover have "outstanding (TcpAcceptor_Stop a1) = outstanding a1" "ac_stopping (TcpAcceptor_Stop a1)"
    by (simp_all add: TcpAcceptor_Stop_def outstanding_def)
  ultimately show ?thesis
    using stopped_drains [OF assms(3)] assms(4) outstanding_held
    by (auto simp: acceptor_ok_def sockets_ok_def split: prod.splits)
qed

text \<open>Concrete runs: two slots; and one slot whose second socket cannot be created.\<close>

theorem accept_window_kept_witness:
  "outstanding (fst (accept_run (\<lambda>n. True) (Some Suc) [AvDone 0 0, AvDone 1 995]
      (snd (TcpAcceptor_Start (\<lambda>n. True) 2 new_TcpAcceptor), 0))) = 2"
proof -
  have "genuine_run (\<lambda>n. True) (Some Suc) [AvDone 0 0, AvDone 1 995] (snd (TcpAcceptor_Start (\<lambda>n. True) 2 new_TcpAcceptor), 0)"
    by code_simp
  then show ?thesis
    using accept_window_kept [OF refl surjective_pairing, where n = 2 and f = "Some Suc" and evs = "[AvDone 0 0, AvDone 1 995]" and w = 0]
    by simp
qed

definition starved_acceptor :: "acceptor \<times> nat" where
  "starved_acceptor = accept_run (\<lambda>n. n \<noteq> 4) (Some Suc) [AvDone 0 0] (snd (TcpAcceptor_Start (\<lambda>n. n \<noteq> 4) 1 new_TcpAcceptor), 0)"


theorem accept_stop_drains_witness:
  "case accept_run (\<lambda>n. True) (Some Suc) [AvDone 1 995, AvDone 0 995]
      (TcpAcceptor_Stop (snd (TcpAcceptor_Start (\<lambda>n. True) 2 new_TcpAcceptor)), 0) of (a2, w2) \<Rightarrow>
    w2 = 0 \<and> outstanding a2 = 0 \<and> act_count ACreate a2 = act_count AClose a2 + act_count ADeliver a2"
proof -
  let ?a = "snd (TcpAcceptor_Start (\<lambda>n. True) 2 new_TcpAcceptor)"
  have "genuine_run (\<lambda>n. True) (Some Suc) (map (\<lambda>(i, err). AvDone i err) [(1, 995), (0, 995)]) (TcpAcceptor_Stop ?a, 0)"
    "length [(1, 995), (0, 995 :: nat)] = outstanding ?a"
    by code_simp+
  then show ?thesis
    using accept_stop_drains [of "\<lambda>n. True" 2 "fst (TcpAcceptor_Start (\<lambda>n. True) 2 new_TcpAcceptor)" ?a
        "Some Suc" "[]" 0 ?a 0 "[(1, 995), (0, 995)]"]
    by (simp add: accept_run_def)
qed


section \<open>The contract of the callback\<close>

text \<open>What the acceptor needs of its owner: a callback that keeps the owner's invariant, for the clients that are fit to be
  handed over.  Then every completion keeps it, and so does every run.\<close>

locale accept_client =
  fixes onAccept :: "'c \<Rightarrow> 'w \<Rightarrow> 'w" and fit :: "'c \<Rightarrow> bool" and inv :: "'w \<Rightarrow> bool"
  assumes onAccept_keeps: "fit c \<Longrightarrow> inv w \<Longrightarrow> inv (onAccept c w)"
begin

lemma done_keeps: "fit c \<Longrightarrow> inv w \<Longrightarrow> inv (snd (TcpAcceptor_OnIoCompleted e (Some (onAccept c)) i err (a, w)))"
  by (auto simp: TcpAcceptor_OnIoCompleted_def HandleAccept_def Let_def onAccept_keeps)

lemma run_keeps: "fit c \<Longrightarrow> inv (snd aw) \<Longrightarrow> inv (snd (accept_run e (Some (onAccept c)) evs aw))"
  unfolding accept_run_def
proof (induction evs arbitrary: aw)
  case (Cons ev evs)
  then have "inv (snd (accept_step e (Some (onAccept c)) ev aw))" by (cases aw; cases ev) (auto intro: done_keeps)
  with Cons show ?case by simp
qed simp

end

end
