(* ===== verification/ProxyServer.thy ===== *)
theory ProxyServer
  imports SessionClose TcpAcceptor
begin

text \<open>
  The server of \<^verbatim>\<open>server/ProxyServer.cpp\<close>: it sets the listening socket up, admits clients through a counting semaphore,
  keeps the set of live sessions, and takes everything down again.

  The state is the record \<open>server\<close>.  Session objects live in \<open>sv_heap\<close>, and a \<^verbatim>\<open>shared_ptr\<close> to one is its index there;
  \<open>sv_sessions\<close> is the set \<^verbatim>\<open>sessions_\<close>.  A session that reports its close does so by the action \<open>SSessionClosed\<close>;
  \<open>session_event\<close> runs one member function of a session, takes its actions and performs that call.  The acceptor and
  the DNS resolver are the models of \<open>TcpAcceptor\<close> and \<open>DnsResolver\<close>.  \<open>OnAccept\<close> has a \<^verbatim>\<open>catch\<close> clause; where its
  body can throw is the datatype \<open>accept_fault\<close>.  Waiting for pending completions is left out: a completion that arrives for a
  closed session is an event like any other.  Logging is left out.
\<close>

datatype accept_fault = FaultNew | FaultRetain | FaultStart

record accepted =
  acc_valid :: bool
  acc_peer :: sockaddr_storage
  acc_local :: sockaddr_storage
  acc_spurious :: bool
  acc_fault :: "accept_fault option"

datatype server_act =
    VSession nat session_act
  | VCloseClient
  | VCloseListen
  | VIocpStop

record server_env =
  ve_ws :: winsock
  ve_cfg :: netcfg
  ve_dns :: dns_env
  ve_session :: "nat \<Rightarrow> session_env"
  ve_accept :: accept_env
  ve_ok :: "nat \<Rightarrow> bool"

record server =
  sv_iocp :: bool
  sv_dns :: "resolver option"
  sv_listenSocket :: bool
  sv_listenFamily :: int
  sv_acceptor :: "acceptor option"
  sv_heap :: "session list"
  sv_sessions :: "nat list"
  sv_slots :: "nat option"
  sv_stopping :: bool
  sv_out :: "server_act list"

definition new_ProxyServer :: server where
  "new_ProxyServer =
     \<lparr>sv_iocp = False, sv_dns = None, sv_listenSocket = False, sv_listenFamily = AF_INET, sv_acceptor = None, sv_heap = [],
      sv_sessions = [], sv_slots = None, sv_stopping = False, sv_out = []\<rparr>"

definition server_emit :: "server_act list \<Rightarrow> server \<Rightarrow> server" where
  "server_emit as v = v\<lparr>sv_out := sv_out v @ as\<rparr>"


section \<open>Sessions\<close>

definition release_slot :: "server \<Rightarrow> server" where
  "release_slot v = v\<lparr>sv_slots := map_option Suc (sv_slots v)\<rparr>"

definition RetainSession :: "nat \<Rightarrow> server \<Rightarrow> server" where
  "RetainSession i v = v\<lparr>sv_sessions := List.insert i (sv_sessions v)\<rparr>"

definition OnSessionClosed :: "nat \<Rightarrow> bool \<Rightarrow> server \<Rightarrow> server" where
  "OnSessionClosed i releaseSlot v =
     (let v1 = v\<lparr>sv_sessions := remove1 i (sv_sessions v)\<rparr>
      in if releaseSlot \<and> sv_slots v1 \<noteq> None then release_slot v1 else v1)"

fun notify_server :: "nat \<Rightarrow> session_act \<Rightarrow> server \<Rightarrow> server" where
  "notify_server i (SSessionClosed releaseSlot) v = OnSessionClosed i releaseSlot v"
| "notify_server i a v = v"

definition put_session :: "nat \<Rightarrow> session \<Rightarrow> server \<Rightarrow> server" where
  "put_session i s v =
     fold (notify_server i) (ss_out s)
       (server_emit (map (VSession i) (ss_out s)) (v\<lparr>sv_heap := (sv_heap v)[i := s\<lparr>ss_out := []\<rparr>]\<rparr>))"

definition session_event :: "server_env \<Rightarrow> nat \<Rightarrow> session_event \<Rightarrow> server \<Rightarrow> server" where
  "session_event e i ev v = put_session i (OnIoCompleted (ve_session e i) ev (sv_heap v ! i)) v"

text \<open>\<^verbatim>\<open>try_acquire\<close> of the semaphore, which may fail although a slot is free (\<open>spurious\<close>).\<close>

definition try_acquire :: "bool \<Rightarrow> server \<Rightarrow> bool \<times> server" where
  "try_acquire spurious v =
     (case sv_slots v of Some (Suc n) \<Rightarrow> (if spurious then (False, v) else (True, v\<lparr>sv_slots := Some n\<rparr>)) | _ \<Rightarrow> (False, v))"

text \<open>The \<^verbatim>\<open>try\<close> block: the constructor, \<open>RetainSession\<close>, \<^verbatim>\<open>Start\<close>, and \<^verbatim>\<open>Close\<close> when it fails.  An exception in \<^verbatim>\<open>Start\<close>
  comes from its log line, after the association with the completion port.  The Boolean says whether the block ended
  without an exception.\<close>

definition admit :: "server_env \<Rightarrow> accepted \<Rightarrow> bool \<Rightarrow> server \<Rightarrow> bool \<times> server" where
  "admit e acc slotHeld v =
     (let i = length (sv_heap v);
          s = new_Socks5Session (ve_session e i) (acc_peer acc) (acc_local acc) slotHeld;
          made = server_emit (map (VSession i) (ss_out s)) (v\<lparr>sv_heap := sv_heap v @ [s\<lparr>ss_out := []\<rparr>]\<rparr>)
      in case acc_fault acc of
           Some FaultNew \<Rightarrow> (False, v)
         | Some FaultRetain \<Rightarrow> (False, put_session i (destroy_Socks5Session (sv_heap made ! i)) made)
         | Some FaultStart \<Rightarrow>
             (let v1 = RetainSession i made;
                  (assoc, s1) = session_call (ve_session e i) (sv_heap v1 ! i)
              in if assoc then (False, put_session i s1 v1) else (True, put_session i (Close s1) v1))
         | None \<Rightarrow> (True, session_event e i SvStart (RetainSession i made)))"

definition OnAccept :: "server_env \<Rightarrow> accepted \<Rightarrow> server \<Rightarrow> server" where
  "OnAccept e acc v =
     (if sv_stopping v \<or> \<not> acc_valid acc then (if acc_valid acc then server_emit [VCloseClient] v else v)
      else
        let (acquired, v1) = (if sv_slots v \<noteq> None then try_acquire (acc_spurious acc) v else (True, v));
            slotHeld = (sv_slots v \<noteq> None)
        in if \<not> acquired then server_emit [VCloseClient] v1
           else
             let (finished, v2) = admit e acc slotHeld v1
             in if finished then v2
                else
                  let v3 = server_emit [VCloseClient] v2
                  in if slotHeld \<and> sv_slots v3 \<noteq> None then release_slot v3 else v3)"


section \<open>Start and stop\<close>

text \<open>\<^verbatim>\<open>Start\<close> up to its waiting loop: the error it throws, or \<open>None\<close> when the loop is entered.\<close>

definition ProxyServer_Start :: "server_env \<Rightarrow> server \<Rightarrow> string option \<times> server" where
  "ProxyServer_Start e v =
     (if \<not> ve_ok e 0 then (Some ''Failed to start IOCP service'', v)
      else
        let (dnsUp, dns) = DnsResolver.Start (ve_dns e) new_resolver;
            v1 = v\<lparr>sv_iocp := True, sv_dns := Some dns\<rparr>
        in if \<not> dnsUp then (Some ''Failed to start DNS resolver'', v1)
           else case FillListenAddress (ve_ws e) (ve_cfg e) of
             None \<Rightarrow> (Some ''Invalid listen address'', v1)
           | Some listenAddr \<Rightarrow>
               let v2 = v1\<lparr>sv_listenFamily := ss_family listenAddr\<rparr>
               in if \<not> ve_ok e 1 then (Some ''Failed to create listen socket'', v2)
                  else
                    let v3 = v2\<lparr>sv_listenSocket := True\<rparr>;
                        close_listen = (\<lambda>v. server_emit [VCloseListen] (v\<lparr>sv_listenSocket := False\<rparr>))
                    in if \<not> ve_ok e 2 then (Some ''Failed to bind listen socket'', close_listen v3)
                       else if \<not> ve_ok e 3 then (Some ''Failed to listen'', close_listen v3)
                       else
                         let v4 = (if MaxConnections (ve_cfg e) > 0
                                   then v3\<lparr>sv_slots := Some (nat (MaxConnections (ve_cfg e)))\<rparr> else v3);
                             (accepting, acceptor) = TcpAcceptor_Start (ve_accept e) 16 new_TcpAcceptor;
                             v5 = v4\<lparr>sv_acceptor := Some acceptor\<rparr>
                         in if \<not> accepting then (Some ''Failed to start AcceptEx acceptor'', v5) else (None, v5))"

text \<open>\<^verbatim>\<open>Stop\<close>: the acceptor first, then every session of a snapshot, then what is left, then DNS and IOCP.  \<open>order\<close> is the
  iteration order of the hash set.\<close>

definition stop_accepting :: "server \<Rightarrow> server" where
  "stop_accepting v =
     (let v1 = v\<lparr>sv_acceptor := map_option TcpAcceptor_Stop (sv_acceptor v)\<rparr>;
          v2 = (if sv_listenSocket v1 then server_emit [VCloseListen] (v1\<lparr>sv_listenSocket := False\<rparr>) else v1)
      in v2\<lparr>sv_acceptor := None\<rparr>)"

definition stop_sessions :: "server_env \<Rightarrow> (nat list \<Rightarrow> nat list) \<Rightarrow> server \<Rightarrow> server" where
  "stop_sessions e order v =
     (let snapshot = order (sv_sessions v);
          v1 = fold (\<lambda>i. session_event e i SvClose) snapshot v
      in if sv_sessions v1 \<noteq> [] then
           fold (\<lambda>i. session_event e i SvClose) (order (sv_sessions v1)) (v1\<lparr>sv_sessions := []\<rparr>)
         else v1)"

definition ProxyServer_Stop :: "server_env \<Rightarrow> (nat list \<Rightarrow> nat list) \<Rightarrow> server \<Rightarrow> server" where
  "ProxyServer_Stop e order v =
     (if sv_stopping v then v
      else
        let v1 = stop_sessions e order (stop_accepting (v\<lparr>sv_stopping := True\<rparr>));
            v2 = v1\<lparr>sv_dns := map_option (DnsResolver.Stop (ve_dns e)) (sv_dns v1)\<rparr>
        in server_emit [VIocpStop] (v2\<lparr>sv_dns := None, sv_iocp := False\<rparr>))"

text \<open>Everything that happens to a running server.\<close>

datatype server_event =
    VvAccept nat nat accepted
  | VvSession nat session_event
  | VvStop "nat list \<Rightarrow> nat list"

fun server_step :: "server_env \<Rightarrow> server_event \<Rightarrow> server \<Rightarrow> server" where
  "server_step e (VvAccept slot error acc) v =
     (case sv_acceptor v of
        None \<Rightarrow> v
      | Some a \<Rightarrow>
          let (a1, v1) = TcpAcceptor_OnIoCompleted (ve_accept e) (Some (OnAccept e acc)) slot error (a, v)
          in v1\<lparr>sv_acceptor := Some a1\<rparr>)"
| "server_step e (VvSession i ev) v = (if i < length (sv_heap v) then session_event e i ev v else v)"
| "server_step e (VvStop order) v = ProxyServer_Stop e order v"

definition server_run :: "server_env \<Rightarrow> server_event list \<Rightarrow> server \<Rightarrow> server" where
  "server_run e evs v = fold (server_step e) evs v"

section \<open>Slots and sessions\<close>

text \<open>The invariant, for a server with capacity \<open>cap\<close> (\<open>None\<close>: unlimited): the set of sessions is the set of the sessions that
  are not closed, a closed session has given up its sockets, an open one holds a slot exactly when there is a limit, and the free slots and the sessions add up to
  the capacity.\<close>

definition pool_ok :: "nat option \<Rightarrow> server \<Rightarrow> bool" where
  "pool_ok cap v \<longleftrightarrow>
     (case cap of None \<Rightarrow> sv_slots v = None | Some n \<Rightarrow> \<exists>free. sv_slots v = Some free \<and> free + length (sv_sessions v) = n)"

definition heap_ok :: "nat option \<Rightarrow> server \<Rightarrow> bool" where
  "heap_ok cap v \<longleftrightarrow> distinct (sv_sessions v) \<and>
     set (sv_sessions v) = {i. i < length (sv_heap v) \<and> \<not> ss_closed (sv_heap v ! i)} \<and>
     (\<forall>s \<in> set (sv_heap v). ss_out s = [] \<and>
        (if ss_closed s then \<not> ss_client s \<and> \<not> ss_dest s else ss_slotHeld s = (cap \<noteq> None)))"

definition server_ok :: "nat option \<Rightarrow> server \<Rightarrow> bool" where
  "server_ok cap v \<longleftrightarrow> pool_ok cap v \<and> heap_ok cap v"

lemma server_ok_frame [simp]:
  "server_ok cap (server_emit as v) = server_ok cap v" "server_ok cap (v\<lparr>sv_acceptor := a\<rparr>) = server_ok cap v"
  "server_ok cap (v\<lparr>sv_stopping := b\<rparr>) = server_ok cap v" "server_ok cap (v\<lparr>sv_listenSocket := b\<rparr>) = server_ok cap v"
  "server_ok cap (v\<lparr>sv_dns := d\<rparr>) = server_ok cap v" "server_ok cap (v\<lparr>sv_iocp := b\<rparr>) = server_ok cap v"
  by (cases cap; simp add: server_ok_def pool_ok_def heap_ok_def server_emit_def)+

lemma notify_none: "close_notices as = 0 \<Longrightarrow> fold (notify_server i) as v = v"
proof (induction as arbitrary: v)
  case (Cons a as)
  then show ?case by (cases a) auto
qed simp

lemma notify_one:
  assumes "close_notices as = 1" and "as \<noteq> []" and "last as = SSessionClosed b"
  shows "fold (notify_server i) as v = OnSessionClosed i b v"
proof -
  obtain xs where "as = xs @ [SSessionClosed b]" using assms(2,3) by (metis append_butlast_last_id)
  with assms(1) show ?thesis by (simp add: notify_none)
qed

text \<open>One session goes from \<open>s0\<close> to \<open>s\<close>: either it stays open, or it closes and reports it, or it was closed and stays so.\<close>

lemma put_open:
  assumes "server_ok cap v" and "i < length (sv_heap v)" and "\<not> ss_closed (sv_heap v ! i)" and "close_ok (cap \<noteq> None) s"
  shows "server_ok cap (put_session i s v)"
proof (cases "ss_closed s")
  case True
  then have "put_session i s v = OnSessionClosed i (cap \<noteq> None)
      (server_emit (map (VSession i) (ss_out s)) (v\<lparr>sv_heap := (sv_heap v)[i := s\<lparr>ss_out := []\<rparr>]\<rparr>))"
    using assms(4) notify_one [of "ss_out s" "cap \<noteq> None" i] by (simp add: put_session_def close_ok_def)
  moreover have mem: "i \<in> set (sv_sessions v)" and d: "distinct (sv_sessions v)"
    using assms(1-3) by (auto simp: server_ok_def heap_ok_def)
  moreover have "Suc (length (remove1 i (sv_sessions v))) = length (sv_sessions v)"
    using mem by (simp add: length_remove1) (metis Suc_pred length_pos_if_in_set)
  moreover have "\<not> ss_client s" "\<not> ss_dest s" using assms(4) True by (auto simp: close_ok_def)
  ultimately show ?thesis
    using assms(1,2) True set_update_subset_insert [of "sv_heap v" i "s\<lparr>ss_out := []\<rparr>"]
    by (auto simp: server_ok_def pool_ok_def heap_ok_def OnSessionClosed_def release_slot_def server_emit_def nth_list_update
        split: option.splits if_splits)
next
  case False
  then have "close_notices (ss_out s) = 0" "ss_slotHeld s = (cap \<noteq> None)" using assms(4) by (auto simp: close_ok_def)
  with assms(1-3) False set_update_subset_insert [of "sv_heap v" i "s\<lparr>ss_out := []\<rparr>"] show ?thesis
    by (auto simp: put_session_def notify_none server_ok_def pool_ok_def heap_ok_def server_emit_def nth_list_update split: option.splits if_splits)
qed

lemma put_closed:
  assumes "server_ok cap v" and "i < length (sv_heap v)" and "ss_closed (sv_heap v ! i)" and "ss_closed s" and "ss_out s = []" and "\<not> ss_client s" and "\<not> ss_dest s"
  shows "server_ok cap (put_session i s v)"
  using assms set_update_subset_insert [of "sv_heap v" i "s\<lparr>ss_out := []\<rparr>"]
  by (auto simp: put_session_def server_ok_def pool_ok_def heap_ok_def server_emit_def nth_list_update split: option.splits if_splits)

lemma heap_entry:
  assumes "server_ok cap v" and "i < length (sv_heap v)"
  shows "ss_out (sv_heap v ! i) = []" and "\<not> ss_closed (sv_heap v ! i) \<Longrightarrow> close_ok (cap \<noteq> None) (sv_heap v ! i)"
    and "ss_closed (sv_heap v ! i) \<Longrightarrow> \<not> ss_client (sv_heap v ! i) \<and> \<not> ss_dest (sv_heap v ! i)"
  using assms nth_mem [OF assms(2)] by (auto simp: server_ok_def heap_ok_def close_ok_def)

lemma closed_sockets:
  assumes "ss_closed s" and "ev \<noteq> SvStart"
  shows "ss_client (OnIoCompleted e ev s) = ss_client s" "ss_dest (OnIoCompleted e ev s) = ss_dest s"
  using assms by (cases ev; simp add: OnDnsAnswer_def Let_def)+

lemma session_event_ok:
  assumes "server_ok cap v" and "i < length (sv_heap v)" and "ev \<noteq> SvStart"
  shows "server_ok cap (session_event e i ev v)"
proof (cases "ss_closed (sv_heap v ! i)")
  case True
  then have "ss_out (OnIoCompleted (ve_session e i) ev (sv_heap v ! i)) = [] \<and> ss_closed (OnIoCompleted (ve_session e i) ev (sv_heap v ! i))"
    using closed_run_id [of "sv_heap v ! i" "[ev]"] heap_entry(1) [OF assms(1,2)] assms(3)
    by (simp add: session_run_def del: OnIoCompleted.simps)
  moreover have "\<not> ss_client (OnIoCompleted (ve_session e i) ev (sv_heap v ! i))" "\<not> ss_dest (OnIoCompleted (ve_session e i) ev (sv_heap v ! i))"
    using closed_sockets [OF True assms(3)] heap_entry(3) [OF assms(1,2) True] by simp_all
  ultimately show ?thesis using put_closed [OF assms(1,2) True] by (simp add: session_event_def del: OnIoCompleted.simps)
next
  case False
  then show ?thesis
    using put_open [OF assms(1,2) False] close_ok_step [OF heap_entry(2) [OF assms(1,2)], OF _ assms(3)]
    by (simp add: session_event_def del: OnIoCompleted.simps)
qed

lemma start_close_ok: "close_ok h s \<Longrightarrow> \<not> ss_closed s \<Longrightarrow> close_ok h (OnIoCompleted e SvStart s)"
  using close_ok_Start [of h s e] by (cases "Session_Start e s") (auto simp: close_ok_Close split: bool.split)

text \<open>A slot has been taken for the session that is about to be made: the books are one short.\<close>

definition reserved :: "nat option \<Rightarrow> server \<Rightarrow> bool" where
  "reserved cap v \<longleftrightarrow> heap_ok cap v \<and>
     (case cap of None \<Rightarrow> sv_slots v = None
      | Some n \<Rightarrow> \<exists>free. sv_slots v = Some free \<and> Suc (free + length (sv_sessions v)) = n)"

definition made_session :: "server_env \<Rightarrow> accepted \<Rightarrow> bool \<Rightarrow> server \<Rightarrow> server" where
  "made_session e acc slotHeld v =
     (let i = length (sv_heap v); s = new_Socks5Session (ve_session e i) (acc_peer acc) (acc_local acc) slotHeld
      in server_emit (map (VSession i) (ss_out s)) (v\<lparr>sv_heap := sv_heap v @ [s\<lparr>ss_out := []\<rparr>]\<rparr>))"

lemma made_fields [simp]:
  "length (sv_heap (made_session e acc h v)) = Suc (length (sv_heap v))"
  "sv_heap (made_session e acc h v) ! length (sv_heap v) =
     (new_Socks5Session (ve_session e (length (sv_heap v))) (acc_peer acc) (acc_local acc) h)\<lparr>ss_out := []\<rparr>"
  "sv_slots (made_session e acc h v) = sv_slots v" "sv_sessions (made_session e acc h v) = sv_sessions v"
  "sv_heap (RetainSession i w) = sv_heap w"
  by (simp_all add: made_session_def server_emit_def RetainSession_def Let_def nth_append)

lemma retained_ok:
  assumes "reserved cap v" and "h = (cap \<noteq> None)"
  shows "server_ok cap (RetainSession (length (sv_heap v)) (made_session e acc h v))"
proof -
  have fresh: "length (sv_heap v) \<notin> set (sv_sessions v)" using assms(1) by (auto simp: reserved_def heap_ok_def)
  then have "set (List.insert (length (sv_heap v)) (sv_sessions v)) =
      {i. i < Suc (length (sv_heap v)) \<and> \<not> ss_closed ((sv_heap v @ [s]) ! i)}" if "\<not> ss_closed s" for s
    using assms(1) that by (auto simp: reserved_def heap_ok_def nth_append less_Suc_eq)
  with assms fresh show ?thesis
    by (cases cap) (auto simp: server_ok_def pool_ok_def heap_ok_def reserved_def made_session_def RetainSession_def server_emit_def
        new_Socks5Session_def Let_def)
qed

text \<open>The destructor of a session that was never retained tells nobody.\<close>

lemma destroy_quiet: "ss_out s = [] \<Longrightarrow> close_notices (ss_out (destroy_Socks5Session s)) = 0 \<and> ss_closed (destroy_Socks5Session s) \<and>
    \<not> ss_client (destroy_Socks5Session s) \<and> \<not> ss_dest (destroy_Socks5Session s)"
  by (simp add: destroy_Socks5Session_def close_dest_def CancelIdleTimer_def CancelConnectTimer_def session_emit_def Let_def)

lemma destroyed_ok:
  assumes "reserved cap v"
  shows "reserved cap (put_session (length (sv_heap v))
    (destroy_Socks5Session (sv_heap (made_session e acc h v) ! length (sv_heap v))) (made_session e acc h v))"
proof -
  define d where "d = destroy_Socks5Session (sv_heap (made_session e acc h v) ! length (sv_heap v))"
  have d: "close_notices (ss_out d) = 0" "ss_closed d" "\<not> ss_client d" "\<not> ss_dest d"
    using destroy_quiet [of "sv_heap (made_session e acc h v) ! length (sv_heap v)"] by (simp_all add: d_def)
  show ?thesis unfolding d_def [symmetric]
    using assms d
    by (cases cap) (auto simp: reserved_def heap_ok_def put_session_def notify_none made_session_def server_emit_def Let_def
        nth_append list_update_append split: if_splits)
qed

lemma released_ok: "reserved cap v \<Longrightarrow> server_ok cap (if cap \<noteq> None then release_slot v else v)"
  by (cases cap) (auto simp: reserved_def server_ok_def pool_ok_def heap_ok_def release_slot_def)

lemma admit_eq:
  "admit e acc h v =
     (let i = length (sv_heap v); made = made_session e acc h v
      in case acc_fault acc of
           Some FaultNew \<Rightarrow> (False, v)
         | Some FaultRetain \<Rightarrow> (False, put_session i (destroy_Socks5Session (sv_heap made ! i)) made)
         | Some FaultStart \<Rightarrow>
             (let v1 = RetainSession i made; (assoc, s1) = session_call (ve_session e i) (sv_heap v1 ! i)
              in if assoc then (False, put_session i s1 v1) else (True, put_session i (Close s1) v1))
         | None \<Rightarrow> (True, session_event e i SvStart (RetainSession i made)))"
  by (simp add: admit_def made_session_def Let_def)

lemma called_ok:
  "close_ok h (snd (session_call x ((new_Socks5Session x' p l h)\<lparr>ss_out := []\<rparr>)))"
  "close_ok h (Close (snd (session_call x ((new_Socks5Session x' p l h)\<lparr>ss_out := []\<rparr>))))"
proof -
  show ok: "close_ok h (snd (session_call x ((new_Socks5Session x' p l h)\<lparr>ss_out := []\<rparr>)))"
    by (simp add: session_call_def close_ok_def new_Socks5Session_def)
  then show "close_ok h (Close (snd (session_call x ((new_Socks5Session x' p l h)\<lparr>ss_out := []\<rparr>))))"
    by (rule close_ok_Close)
qed

text \<open>An exception out of \<^verbatim>\<open>Start\<close> leaves the session in the set, so no slot is reserved any more when the \<^verbatim>\<open>catch\<close> clause runs.\<close>

lemma admit_ok:
  assumes "reserved cap v" and "h = (cap \<noteq> None)"
  shows "case admit e acc h v of (finished, v2) \<Rightarrow>
    if finished \<or> acc_fault acc = Some FaultStart then server_ok cap v2 else reserved cap v2"
proof -
  let ?i = "length (sv_heap v)"
  let ?s = "(new_Socks5Session (ve_session e ?i) (acc_peer acc) (acc_local acc) h)\<lparr>ss_out := []\<rparr>"
  have "close_ok h ?s" "\<not> ss_closed ?s" by (simp_all add: close_ok_def new_Socks5Session_def)
  moreover note called_ok [of h "ve_session e ?i" "ve_session e ?i" "acc_peer acc" "acc_local acc"]
  ultimately have "server_ok cap (session_event e ?i SvStart (RetainSession ?i (made_session e acc h v)))"
    "server_ok cap (put_session ?i (snd (session_call (ve_session e ?i) ?s)) (RetainSession ?i (made_session e acc h v)))"
    "server_ok cap (put_session ?i (Close (snd (session_call (ve_session e ?i) ?s))) (RetainSession ?i (made_session e acc h v)))"
    using put_open [OF retained_ok [OF assms(1,2), of e acc]] start_close_ok [of h ?s "ve_session e ?i"] assms(2)
    by (simp_all add: session_event_def del: OnIoCompleted.simps)
  then show ?thesis
    using assms destroyed_ok [OF assms(1), of e acc h]
    by (auto simp: admit_eq Let_def split_def split: option.split accept_fault.split)
qed

text \<open>\<open>OnAccept\<close> comes as far as \<^verbatim>\<open>Start\<close>, and an exception leaves it.\<close>

definition start_throws :: "server_env \<Rightarrow> accepted \<Rightarrow> server \<Rightarrow> bool" where
  "start_throws e acc v \<longleftrightarrow> \<not> sv_stopping v \<and> acc_valid acc \<and> (sv_slots v = None \<or> fst (try_acquire (acc_spurious acc) v)) \<and>
     acc_fault acc = Some FaultStart \<and> se_ok (ve_session e (length (sv_heap v))) 0"

lemma admit_throws:
  assumes "admit e acc h v = (finished, v2)" and "acc_fault acc = Some FaultStart"
  shows "finished \<longleftrightarrow> \<not> se_ok (ve_session e (length (sv_heap v))) 0"
  using assms by (auto simp: admit_eq Let_def session_call_def new_Socks5Session_def split: if_splits)

lemma OnAccept_cases [consumes 1, case_names refused admitted failed]:
  assumes "server_ok cap v"
  obtains (refused) "\<not> start_throws e acc v" "OnAccept e acc v = v \<or> OnAccept e acc v = server_emit [VCloseClient] v"
  | (admitted) v1 v2 where "reserved cap v1" "sv_slots v = map_option Suc (sv_slots v1)" "sv_sessions v1 = sv_sessions v"
      "admit e acc (cap \<noteq> None) v1 = (True, v2)" "OnAccept e acc v = v2" "\<not> start_throws e acc v"
  | (failed) v1 v2 where "reserved cap v1" "sv_slots v = map_option Suc (sv_slots v1)" "sv_sessions v1 = sv_sessions v"
      "admit e acc (cap \<noteq> None) v1 = (False, v2)"
      "OnAccept e acc v = (if cap \<noteq> None \<and> sv_slots v2 \<noteq> None then release_slot (server_emit [VCloseClient] v2)
         else server_emit [VCloseClient] v2)" "start_throws e acc v \<longleftrightarrow> acc_fault acc = Some FaultStart"
proof -
  have slots: "(sv_slots v \<noteq> None) = (cap \<noteq> None)" using assms by (cases cap) (auto simp: server_ok_def pool_ok_def)
  obtain acquired v1 where a: "(if sv_slots v \<noteq> None then try_acquire (acc_spurious acc) v else (True, v)) = (acquired, v1)" by fastforce
  have v1: "if acquired then reserved cap v1 \<and> sv_slots v = map_option Suc (sv_slots v1) \<and> sv_sessions v1 = sv_sessions v \<and> sv_heap v1 = sv_heap v else v1 = v"
    using a assms
    by (cases cap) (auto simp: try_acquire_def reserved_def server_ok_def pool_ok_def heap_ok_def split: if_splits option.splits nat.splits)
  obtain finished v2 where b: "admit e acc (cap \<noteq> None) v1 = (finished, v2)" by fastforce
  have "OnAccept e acc v =
      (if sv_stopping v \<or> \<not> acc_valid acc then (if acc_valid acc then server_emit [VCloseClient] v else v)
       else if \<not> acquired then server_emit [VCloseClient] v1
       else if finished then v2
       else if cap \<noteq> None \<and> sv_slots v2 \<noteq> None then release_slot (server_emit [VCloseClient] v2)
       else server_emit [VCloseClient] v2)"
    unfolding OnAccept_def a unfolding Let_def slots by (simp only: prod.case b) (simp add: server_emit_def)
  moreover have "start_throws e acc v \<longleftrightarrow> \<not> sv_stopping v \<and> acc_valid acc \<and> acquired \<and> acc_fault acc = Some FaultStart \<and>
      se_ok (ve_session e (length (sv_heap v))) 0"
    using a by (auto simp: start_throws_def split: if_splits)
  ultimately have
    "sv_stopping v \<or> \<not> acc_valid acc \<or> \<not> acquired \<Longrightarrow>
       \<not> start_throws e acc v \<and> (OnAccept e acc v = v \<or> OnAccept e acc v = server_emit [VCloseClient] v)"
    "\<not> (sv_stopping v \<or> \<not> acc_valid acc \<or> \<not> acquired) \<Longrightarrow> finished \<Longrightarrow> OnAccept e acc v = v2 \<and> \<not> start_throws e acc v"
    "\<not> (sv_stopping v \<or> \<not> acc_valid acc \<or> \<not> acquired) \<Longrightarrow> \<not> finished \<Longrightarrow>
       OnAccept e acc v = (if cap \<noteq> None \<and> sv_slots v2 \<noteq> None then release_slot (server_emit [VCloseClient] v2)
         else server_emit [VCloseClient] v2) \<and> (start_throws e acc v \<longleftrightarrow> acc_fault acc = Some FaultStart)"
    using v1 admit_throws [OF b] by (simp_all del: not_None_eq) blast+
  note outcome = this
  show thesis
  proof (cases "sv_stopping v \<or> \<not> acc_valid acc \<or> \<not> acquired")
    case True
    then show thesis using outcome(1) refused by blast
  next
    case False
    then have "acquired" by simp
    note v1 = v1 [unfolded if_P [OF this]]
    show thesis
    proof (cases finished)
      case True
      then show thesis using v1 b outcome(2) [OF False True] admitted [of v1 v2] by (simp del: not_None_eq)
    next
      case nf: False
      then show thesis using v1 b outcome(3) [OF False nf] failed [of v1 v2] by (simp del: not_None_eq)
    qed
  qed
qed

text \<open>One more slot than before, if there is a limit and an exception left \<^verbatim>\<open>Start\<close>.\<close>

definition spilled :: "bool \<Rightarrow> nat option \<Rightarrow> nat option" where
  "spilled threw cap = (if threw then map_option Suc cap else cap)"

lemma released_twice: "server_ok cap v \<Longrightarrow> server_ok (map_option Suc cap) (if cap \<noteq> None then release_slot v else v)"
  by (cases cap) (auto simp: server_ok_def pool_ok_def heap_ok_def release_slot_def)

lemma OnAccept_ok:
  assumes "server_ok cap v"
  shows "server_ok (spilled (start_throws e acc v) cap) (OnAccept e acc v)"
  using assms(1)
proof (cases rule: OnAccept_cases [where acc = acc and e = e])
  case (admitted v1 v2)
  then show ?thesis using admit_ok [OF admitted(1) refl, where e = e and acc = acc] by (simp add: spilled_def)
next
  case (failed v1 v2)
  show ?thesis
  proof (cases "acc_fault acc = Some FaultStart")
    case True
    then have "server_ok cap v2" using failed admit_ok [OF failed(1) refl, where e = e and acc = acc] by simp
    moreover from this have "sv_slots v2 \<noteq> None \<longleftrightarrow> cap \<noteq> None" by (cases cap) (auto simp: server_ok_def pool_ok_def)
    ultimately show ?thesis
      using released_twice [of cap "server_emit [VCloseClient] v2"] failed(5,6) True by (simp add: spilled_def split: if_splits)
  next
    case False
    then have "reserved cap v2" using failed admit_ok [OF failed(1) refl, where e = e and acc = acc] by simp
    then have "sv_slots v2 \<noteq> None \<longleftrightarrow> cap \<noteq> None" "reserved cap (server_emit [VCloseClient] v2)"
      by (cases cap; auto simp: reserved_def server_emit_def heap_ok_def)+
    then show ?thesis
      using released_ok [of cap "server_emit [VCloseClient] v2"] failed(5,6) False by (simp add: spilled_def split: if_splits)
  qed
qed (use assms(1) in \<open>auto simp: spilled_def\<close>)

text \<open>A completion of the acceptor hands one client over, or none: \<open>accept_delivers\<close> counts the calls of the callback.\<close>

definition accept_delivers :: "server_env \<Rightarrow> nat \<Rightarrow> nat \<Rightarrow> server \<Rightarrow> bool" where
  "accept_delivers e slot error v =
     (case sv_acceptor v of None \<Rightarrow> False
      | Some a \<Rightarrow> snd (TcpAcceptor_OnIoCompleted (ve_accept e) (Some Suc) slot error (a, 0)) = 1)"

lemma accept_once:
  "snd (TcpAcceptor_OnIoCompleted ae (Some f) slot error (a, w)) =
     (if snd (TcpAcceptor_OnIoCompleted ae (Some Suc) slot error (a, 0)) = 1 then f w else w)"
  by (auto simp: TcpAcceptor_OnIoCompleted_def HandleAccept_def Let_def)

lemma server_accept:
  "\<exists>a1. server_step e (VvAccept slot error acc) v =
     (if accept_delivers e slot error v then OnAccept e acc v else v)\<lparr>sv_acceptor := a1\<rparr>"
proof (cases "sv_acceptor v")
  case None
  then show ?thesis by (intro exI [of _ None]) (simp add: accept_delivers_def)
next
  case (Some a)
  show ?thesis
    using accept_once [of "ve_accept e" "OnAccept e acc" slot error a v] Some
    by (auto simp: accept_delivers_def split_def Let_def)
qed

fun step_throws :: "server_env \<Rightarrow> server_event \<Rightarrow> server \<Rightarrow> bool" where
  "step_throws e (VvAccept slot error acc) v \<longleftrightarrow> accept_delivers e slot error v \<and> start_throws e acc v"
| "step_throws e _ v \<longleftrightarrow> False"

text \<open>How often an exception leaves \<^verbatim>\<open>Start\<close> in a run.\<close>

fun spills :: "server_env \<Rightarrow> server_event list \<Rightarrow> server \<Rightarrow> nat" where
  "spills e [] v = 0"
| "spills e (ev # evs) v = (if step_throws e ev v then 1 else 0) + spills e evs (server_step e ev v)"


section \<open>Closing every session\<close>

lemma notify_heap [simp]: "sv_heap (fold (notify_server i) as v) = sv_heap v"
proof (induction as arbitrary: v)
  case (Cons a as)
  then show ?case by (cases a) (auto simp: OnSessionClosed_def release_slot_def Let_def)
qed simp

lemma put_heap [simp]: "sv_heap (put_session i s v) = (sv_heap v)[i := s\<lparr>ss_out := []\<rparr>]"
  by (simp add: put_session_def server_emit_def)

lemma close_event:
  assumes "server_ok cap v" and "i < length (sv_heap v)"
  shows "server_ok cap (session_event e i SvClose v)" "length (sv_heap (session_event e i SvClose v)) = length (sv_heap v)"
    "set (sv_sessions (session_event e i SvClose v)) = set (sv_sessions v) - {i}"
proof -
  show ok: "server_ok cap (session_event e i SvClose v)" by (rule session_event_ok [OF assms]) simp
  have heap: "sv_heap (session_event e i SvClose v) = (sv_heap v)[i := (Close (sv_heap v ! i))\<lparr>ss_out := []\<rparr>]"
    by (simp add: session_event_def)
  then show "length (sv_heap (session_event e i SvClose v)) = length (sv_heap v)" by simp
  show "set (sv_sessions (session_event e i SvClose v)) = set (sv_sessions v) - {i}"
    using ok assms heap by (auto simp: server_ok_def heap_ok_def nth_list_update split: if_splits)
qed

lemma close_all:
  "server_ok cap v \<Longrightarrow> set is \<subseteq> {..< length (sv_heap v)} \<Longrightarrow>
     server_ok cap (fold (\<lambda>i. session_event e i SvClose) is v) \<and>
     set (sv_sessions (fold (\<lambda>i. session_event e i SvClose) is v)) = set (sv_sessions v) - set is"
proof (induction "is" arbitrary: v)
  case (Cons i "is")
  have "i < length (sv_heap v)" using Cons.prems by simp
  note c = close_event [OF Cons.prems(1) this, of e]
  show ?case using Cons.IH [OF c(1)] Cons.prems(2) c(2,3) by auto
qed simp

lemma stop_sessions_ok:
  assumes "server_ok cap v" and "iter_ok order"
  shows "server_ok cap (stop_sessions e order v) \<and> sv_sessions (stop_sessions e order v) = []"
proof -
  have "distinct (sv_sessions v)" "set (sv_sessions v) \<subseteq> {..< length (sv_heap v)}"
    using assms(1) by (auto simp: server_ok_def heap_ok_def)
  then have "set (order (sv_sessions v)) = set (sv_sessions v)" "set (order (sv_sessions v)) \<subseteq> {..< length (sv_heap v)}"
    using assms(2) by (auto simp: iter_ok_def)
  with close_all [OF assms(1), of "order (sv_sessions v)" e] show ?thesis by (simp add: stop_sessions_def Let_def)
qed

lemma stop_accepting_ok [simp]: "server_ok cap (stop_accepting v) = server_ok cap v"
  by (simp add: stop_accepting_def Let_def)

lemma Server_Stop_ok:
  assumes "server_ok cap v" and "iter_ok order"
  shows "server_ok cap (ProxyServer_Stop e order v)"
  using stop_sessions_ok [of cap "stop_accepting (v\<lparr>sv_stopping := True\<rparr>)" order e] assms
  by (simp add: ProxyServer_Stop_def Let_def)

text \<open>A session is started by \<open>OnAccept\<close> and by nobody else, and a hash set is iterated in some order of its elements.\<close>

fun event_ok :: "server_event \<Rightarrow> bool" where
  "event_ok (VvAccept slot error acc) \<longleftrightarrow> True"
| "event_ok (VvSession i ev) \<longleftrightarrow> ev \<noteq> SvStart"
| "event_ok (VvStop order) \<longleftrightarrow> iter_ok order"

lemma server_step_ok:
  assumes "server_ok cap v" and "event_ok ev"
  shows "server_ok (spilled (step_throws e ev v) cap) (server_step e ev v)"
proof (cases ev)
  case (VvAccept slot error acc)
  obtain a1 where "server_step e ev v = (if accept_delivers e slot error v then OnAccept e acc v else v)\<lparr>sv_acceptor := a1\<rparr>"
    using server_accept [of e slot error acc v] VvAccept by blast
  then show ?thesis using OnAccept_ok [OF assms(1), of e acc] assms(1) by (simp add: VvAccept spilled_def)
qed (use assms in \<open>auto simp: spilled_def intro: session_event_ok Server_Stop_ok\<close>)

lemma server_run_ok:
  "server_ok cap v \<Longrightarrow> list_all event_ok evs \<Longrightarrow> server_ok (map_option (\<lambda>n. n + spills e evs v) cap) (server_run e evs v)"
  unfolding server_run_def
proof (induction evs arbitrary: cap v)
  case (Cons ev evs)
  let ?v = "server_step e ev v"
  have "map_option (\<lambda>n. n + spills e evs ?v) (spilled (step_throws e ev v) cap) = map_option (\<lambda>n. n + spills e (ev # evs) v) cap"
    by (cases cap) (simp_all add: spilled_def)
  with Cons.IH [OF server_step_ok [of cap v ev e]] Cons.prems show ?case by simp
qed (simp add: option.map_ident)

lemma no_spills:
  assumes "\<And>slot error acc. VvAccept slot error acc \<in> set evs \<Longrightarrow> acc_fault acc \<noteq> Some FaultStart"
  shows "spills e evs v = 0"
  using assms
proof (induction evs arbitrary: v)
  case (Cons ev evs)
  have "\<not> step_throws e ev v" using Cons.prems by (cases ev) (auto simp: start_throws_def)
  moreover have "spills e evs (server_step e ev v) = 0" using Cons.prems by (intro Cons.IH) auto
  ultimately show ?case by simp
qed simp

definition capacity :: "server_env \<Rightarrow> nat option" where
  "capacity e = (if MaxConnections (ve_cfg e) > 0 then Some (nat (MaxConnections (ve_cfg e))) else None)"

lemma Start_ok:
  assumes "ProxyServer_Start e new_ProxyServer = (None, v)"
  shows "server_ok (capacity e) v" "\<not> sv_stopping v" "sv_slots v = capacity e" "sv_heap v = []"
  using assms
  by (auto simp: ProxyServer_Start_def new_ProxyServer_def capacity_def server_ok_def pool_ok_def heap_ok_def Let_def
      split: if_splits prod.splits option.splits)

section \<open>The server as a pool of slots\<close>

text \<open>The abstract specification: a pool with a number of free slots (\<open>None\<close>: no limit) and a set of holders.  A holder enters while
  a slot is free, and a holder leaves and frees its slot.\<close>

record pool =
  p_free :: "nat option"
  p_holders :: "nat set"

inductive pool_step :: "pool \<Rightarrow> pool \<Rightarrow> bool" where
  enter: "p_free p \<noteq> Some 0 \<Longrightarrow> i \<notin> p_holders p \<Longrightarrow>
    pool_step p \<lparr>p_free = map_option (\<lambda>n. n - 1) (p_free p), p_holders = insert i (p_holders p)\<rparr>"
| leave: "i \<in> p_holders p \<Longrightarrow> pool_step p \<lparr>p_free = map_option Suc (p_free p), p_holders = p_holders p - {i}\<rparr>"

definition pool_of :: "server \<Rightarrow> pool" where
  "pool_of v = \<lparr>p_free = sv_slots v, p_holders = set (sv_sessions v)\<rparr>"

lemma pool_of_frame [simp]:
  "pool_of (server_emit as v) = pool_of v" "pool_of (v\<lparr>sv_acceptor := a\<rparr>) = pool_of v" "pool_of (v\<lparr>sv_heap := hp\<rparr>) = pool_of v"
  "pool_of (v\<lparr>sv_stopping := b\<rparr>) = pool_of v" "pool_of (v\<lparr>sv_listenSocket := b\<rparr>) = pool_of v"
  "pool_of (v\<lparr>sv_dns := d\<rparr>) = pool_of v" "pool_of (v\<lparr>sv_iocp := b\<rparr>) = pool_of v"
  by (simp_all add: pool_of_def server_emit_def)

lemma put_quiet_pool: "close_notices (ss_out s) = 0 \<Longrightarrow> pool_of (put_session i s v) = pool_of v"
  by (simp add: put_session_def notify_none)

lemma put_open_pool:
  assumes "server_ok cap v" and "i < length (sv_heap v)" and "\<not> ss_closed (sv_heap v ! i)" and "close_ok (cap \<noteq> None) s"
  shows "pool_step\<^sup>*\<^sup>* (pool_of v) (pool_of (put_session i s v))"
proof (cases "ss_closed s")
  case True
  let ?w = "server_emit (map (VSession i) (ss_out s)) (v\<lparr>sv_heap := (sv_heap v)[i := s\<lparr>ss_out := []\<rparr>]\<rparr>)"
  have "put_session i s v = OnSessionClosed i (cap \<noteq> None) ?w"
    using assms(4) True notify_one [of "ss_out s" "cap \<noteq> None" i] by (simp add: put_session_def close_ok_def)
  moreover have "i \<in> set (sv_sessions v)" "distinct (sv_sessions v)" "(sv_slots v \<noteq> None) = (cap \<noteq> None)"
    using assms(1-3) by (cases cap; auto simp: server_ok_def heap_ok_def pool_ok_def)+
  ultimately have "pool_of (put_session i s v) =
      \<lparr>p_free = map_option Suc (p_free (pool_of v)), p_holders = p_holders (pool_of v) - {i}\<rparr>" "i \<in> p_holders (pool_of v)"
    by (auto simp: OnSessionClosed_def pool_of_def release_slot_def server_emit_def Let_def)
  then show ?thesis using leave [of i "pool_of v"] by (simp add: r_into_rtranclp)
qed (use assms(4) put_quiet_pool in \<open>simp add: close_ok_def\<close>)

lemma session_event_pool:
  assumes "server_ok cap v" and "i < length (sv_heap v)" and "ev \<noteq> SvStart"
  shows "pool_step\<^sup>*\<^sup>* (pool_of v) (pool_of (session_event e i ev v))"
proof (cases "ss_closed (sv_heap v ! i)")
  case True
  then have "ss_out (OnIoCompleted (ve_session e i) ev (sv_heap v ! i)) = []"
    using closed_run_id [of "sv_heap v ! i" "[ev]"] heap_entry(1) [OF assms(1,2)] assms(3)
    by (simp add: session_run_def del: OnIoCompleted.simps)
  then show ?thesis by (simp add: session_event_def put_quiet_pool del: OnIoCompleted.simps)
next
  case False
  show ?thesis
    unfolding session_event_def
    by (rule put_open_pool [OF assms(1,2) False close_ok_step [OF heap_entry(2) [OF assms(1,2) False] assms(3)]])
qed

lemma admit_pool:
  assumes "reserved cap v" and "h = (cap \<noteq> None)" and "acc_fault acc \<noteq> Some FaultStart \<or> finished"
    and "p = \<lparr>p_free = map_option Suc (sv_slots v), p_holders = set (sv_sessions v)\<rparr>" and adm: "admit e acc h v = (finished, v2)"
  shows "if finished then pool_step\<^sup>*\<^sup>* p (pool_of v2) else pool_of v2 = pool_of v"
proof -
  let ?i = "length (sv_heap v)"
  let ?s = "(new_Socks5Session (ve_session e ?i) (acc_peer acc) (acc_local acc) h)\<lparr>ss_out := []\<rparr>"
  let ?v1 = "RetainSession ?i (made_session e acc h v)" and ?c = "Close (snd (session_call (ve_session e ?i) ?s))"
  have s: "close_ok h ?s" "\<not> ss_closed ?s" by (simp_all add: close_ok_def new_Socks5Session_def)
  have c: "close_ok h ?c" by (rule called_ok)
  have "pool_step\<^sup>*\<^sup>* (pool_of ?v1) (pool_of (session_event e ?i SvStart ?v1))" "pool_step\<^sup>*\<^sup>* (pool_of ?v1) (pool_of (put_session ?i ?c ?v1))"
    using put_open_pool [OF retained_ok [OF assms(1,2), of e acc]] start_close_ok [OF s, of "ve_session e ?i"] assms(2) s(2) c
    by (simp_all add: session_event_def del: OnIoCompleted.simps)
  moreover have "?i \<notin> set (sv_sessions v)" using assms(1) by (auto simp: reserved_def heap_ok_def)
  then have "pool_step p (pool_of ?v1)"
    using enter [of p ?i] by (simp add: assms(4) pool_of_def RetainSession_def option.map_comp comp_def option.map_ident split: option.split)
  ultimately have "pool_step\<^sup>*\<^sup>* p (pool_of (session_event e ?i SvStart ?v1))" "pool_step\<^sup>*\<^sup>* p (pool_of (put_session ?i ?c ?v1))"
    by (auto intro: converse_rtranclp_into_rtranclp)
  moreover have "pool_of (made_session e acc h v) = pool_of v" by (simp add: pool_of_def)
  ultimately show ?thesis
    using assms(3) adm destroy_quiet [of ?s]
    by (auto simp: admit_eq Let_def split_def put_quiet_pool split: option.splits accept_fault.splits if_splits)
qed

lemma OnAccept_pool:
  assumes "server_ok cap v" and "\<not> start_throws e acc v"
  shows "pool_step\<^sup>*\<^sup>* (pool_of v) (pool_of (OnAccept e acc v))"
  using assms(1)
proof (cases rule: OnAccept_cases [where acc = acc and e = e])
  case (admitted v1 v2)
  then show ?thesis using admit_pool [OF admitted(1) refl _ refl admitted(4)] by (simp add: pool_of_def)
next
  case (failed v1 v2)
  then have "pool_of v2 = pool_of v1" using admit_pool [OF failed(1) refl _ refl failed(4)] assms(2) by simp
  moreover have "sv_slots v1 \<noteq> None \<longleftrightarrow> cap \<noteq> None" using failed(1) by (cases cap) (auto simp: reserved_def)
  ultimately have "pool_of (OnAccept e acc v) = pool_of v"
    using failed(2,3,5) by (auto simp: pool_of_def release_slot_def server_emit_def split: if_splits)
  then show ?thesis by simp
qed auto

lemma OnAccept_pool_throws:
  assumes "server_ok cap v" and "start_throws e acc v"
  shows "pool_of (OnAccept e acc v) = \<lparr>p_free = sv_slots v, p_holders = insert (length (sv_heap v)) (set (sv_sessions v))\<rparr> \<and>
    length (sv_heap v) \<notin> set (sv_sessions v) \<and> sv_slots v \<noteq> Some 0"
proof -
  have "length (sv_heap v) \<notin> set (sv_sessions v)" using assms(1) by (auto simp: server_ok_def heap_ok_def)
  then show ?thesis
    using assms(2)
    by (cases "sv_slots v"; cases "the (sv_slots v)")
      (auto simp: start_throws_def OnAccept_def try_acquire_def admit_def Let_def session_call_def new_Socks5Session_def put_session_def
        pool_of_def server_emit_def RetainSession_def release_slot_def split: if_splits)
qed

lemma close_all_pool:
  "server_ok cap v \<Longrightarrow> set is \<subseteq> {..< length (sv_heap v)} \<Longrightarrow>
     pool_step\<^sup>*\<^sup>* (pool_of v) (pool_of (fold (\<lambda>i. session_event e i SvClose) is v))"
proof (induction "is" arbitrary: v)
  case (Cons i "is")
  have i: "i < length (sv_heap v)" using Cons.prems by simp
  note c = close_event [OF Cons.prems(1) i, of e]
  have "pool_step\<^sup>*\<^sup>* (pool_of v) (pool_of (session_event e i SvClose v))" by (rule session_event_pool [OF Cons.prems(1) i]) simp
  with Cons.IH [OF c(1)] Cons.prems(2) c(2) show ?case by (auto intro: rtranclp_trans)
qed simp

lemma Stop_pool:
  assumes "server_ok cap v" and "iter_ok order"
  shows "pool_step\<^sup>*\<^sup>* (pool_of v) (pool_of (ProxyServer_Stop e order v))"
proof -
  let ?v = "stop_accepting (v\<lparr>sv_stopping := True\<rparr>)"
  have v: "server_ok cap ?v" "pool_of ?v = pool_of v" using assms(1) by (simp_all add: stop_accepting_def Let_def)
  then have "distinct (sv_sessions ?v)" "set (sv_sessions ?v) \<subseteq> {..< length (sv_heap ?v)}"
    by (auto simp: server_ok_def heap_ok_def)
  then have s: "set (order (sv_sessions ?v)) = set (sv_sessions ?v)" "set (order (sv_sessions ?v)) \<subseteq> {..< length (sv_heap ?v)}"
    using assms(2) by (auto simp: iter_ok_def)
  have "pool_step\<^sup>*\<^sup>* (pool_of v) (pool_of (stop_sessions e order ?v))"
    using close_all_pool [OF v(1) s(2), of e] close_all [OF v(1) s(2), of e] s(1) v(2) by (simp add: stop_sessions_def Let_def)
  then show ?thesis by (simp add: ProxyServer_Stop_def Let_def)
qed

text \<open>C8.  The server refines the pool of slots, with one exception: whatever happens to a server that was started -- a client is accepted and
  admitted, refused or lost to an exception, a session gets a completion, the server is stopped -- is a sequence of moves of the
  pool, in which a session enters only while a slot is free, and leaves once, freeing its slot.  The exception is a client for which
  \<^verbatim>\<open>Socks5Session::Start\<close> throws: its session enters while a slot is free, and the slot is given back although the session stays.\<close>

theorem server_refines_pool:
  assumes "server_ok cap v" and "event_ok ev"
  shows "if step_throws e ev v
    then p_free (pool_of v) \<noteq> Some 0 \<and> (\<exists>i. i \<notin> p_holders (pool_of v) \<and>
      pool_of (server_step e ev v) = \<lparr>p_free = p_free (pool_of v), p_holders = insert i (p_holders (pool_of v))\<rparr>) \<and>
      server_ok (map_option Suc cap) (server_step e ev v)
    else pool_step\<^sup>*\<^sup>* (pool_of v) (pool_of (server_step e ev v)) \<and> server_ok cap (server_step e ev v)"
proof (cases ev)
  case (VvAccept slot error acc)
  obtain a1 where "server_step e ev v = (if accept_delivers e slot error v then OnAccept e acc v else v)\<lparr>sv_acceptor := a1\<rparr>"
    using server_accept [of e slot error acc v] VvAccept by blast
  then show ?thesis
    using server_step_ok [OF assms, of e] OnAccept_pool [OF assms(1), of e acc] OnAccept_pool_throws [OF assms(1), of e acc]
    by (auto simp: VvAccept spilled_def pool_of_def [of v])
qed (use assms server_step_ok [OF assms, of e] in \<open>auto simp: spilled_def intro: session_event_pool Stop_pool\<close>)

text \<open>C7.  Slots are accounted for: in every state a started server reaches, the sessions it keeps are exactly those that are not closed, and the
  free slots and the sessions add up to the configured limit and the number of times \<^verbatim>\<open>Socks5Session::Start\<close> threw, each of which
  gave a slot back twice.  So while no exception leaves \<^verbatim>\<open>Start\<close> there are never more sessions than the limit, and the semaphore
  never counts above it.\<close>

theorem server_slots_conserved:
  assumes "ProxyServer_Start e new_ProxyServer = (None, v0)" and "list_all event_ok evs" and "v = server_run e evs v0"
  shows "set (sv_sessions v) = {i. i < length (sv_heap v) \<and> \<not> ss_closed (sv_heap v ! i)} \<and> distinct (sv_sessions v) \<and>
    (if MaxConnections (ve_cfg e) > 0
     then \<exists>free. sv_slots v = Some free \<and> int (free + length (sv_sessions v)) = MaxConnections (ve_cfg e) + int (spills e evs v0)
     else sv_slots v = None) \<and>
    ((\<forall>slot error acc. VvAccept slot error acc \<in> set evs \<longrightarrow> acc_fault acc \<noteq> Some FaultStart) \<longrightarrow> spills e evs v0 = 0)"
  using server_run_ok [OF Start_ok(1) [OF assms(1)] assms(2), of e] assms(3) no_spills [of evs e v0]
  by (auto simp: server_ok_def heap_ok_def pool_ok_def capacity_def split: if_splits)

definition halted :: "nat option \<Rightarrow> server \<Rightarrow> bool" where
  "halted cap v \<longleftrightarrow> server_ok cap v \<and> sv_sessions v = [] \<and> sv_acceptor v = None \<and> sv_stopping v"

lemma put_fields:
  "close_notices (ss_out s) = 0 \<Longrightarrow> sv_sessions (put_session i s v) = sv_sessions v"
  "close_notices (ss_out s) = 0 \<Longrightarrow> sv_acceptor (put_session i s v) = sv_acceptor v"
  "close_notices (ss_out s) = 0 \<Longrightarrow> sv_stopping (put_session i s v) = sv_stopping v"
  by (simp_all add: put_session_def notify_none server_emit_def)

lemma halted_step:
  assumes "halted cap v" and "event_ok ev"
  shows "halted cap (server_step e ev v)" "length (sv_heap (server_step e ev v)) = length (sv_heap v)"
proof -
  have v: "server_ok cap v" "sv_sessions v = []" "sv_acceptor v = None" "sv_stopping v" using assms(1) by (auto simp: halted_def)
  have calm: "\<not> step_throws e ev v" using v(3) by (cases ev) (simp_all add: accept_delivers_def)
  have quiet: "close_notices (ss_out (OnIoCompleted (ve_session e i) sev (sv_heap v ! i))) = 0"
    if "i < length (sv_heap v)" "sev \<noteq> SvStart" for i sev
    using v(1,2) that closed_run_id [of "sv_heap v ! i" "[sev]" "ve_session e i"] heap_entry(1) [OF v(1) that(1)]
    by (auto simp: server_ok_def heap_ok_def session_run_def simp del: OnIoCompleted.simps)
  show "halted cap (server_step e ev v)" "length (sv_heap (server_step e ev v)) = length (sv_heap v)"
    using v assms(2) quiet calm server_step_ok [OF v(1) assms(2), of e]
    by (cases ev; auto simp: halted_def spilled_def session_event_def put_fields ProxyServer_Stop_def simp del: OnIoCompleted.simps)+
qed

lemma halted_run:
  "halted cap v \<Longrightarrow> list_all event_ok evs \<Longrightarrow> halted cap (server_run e evs v) \<and> length (sv_heap (server_run e evs v)) = length (sv_heap v)"
  unfolding server_run_def
proof (induction evs arbitrary: v)
  case (Cons ev evs)
  then show ?case using halted_step [of cap v ev e] by simp
qed simp

lemma notify_stopping: "sv_stopping (fold (notify_server i) as v) = sv_stopping v" "sv_acceptor (fold (notify_server i) as v) = sv_acceptor v"
proof (induction as arbitrary: v)
  case (Cons a as)
  {
    case 1 then show ?case using Cons by (cases a) (auto simp: OnSessionClosed_def release_slot_def Let_def)
  next
    case 2 then show ?case using Cons by (cases a) (auto simp: OnSessionClosed_def release_slot_def Let_def)
  }
qed simp_all

lemma OnAccept_stopping: "sv_stopping (OnAccept e acc v) = sv_stopping v"
  by (simp add: OnAccept_def try_acquire_def admit_def session_event_def put_session_def notify_stopping server_emit_def
      RetainSession_def release_slot_def Let_def split_def del: OnIoCompleted.simps split: option.split accept_fault.split nat.split)

lemma accept_stopping: "sv_stopping (server_step e (VvAccept slot error acc) v) = sv_stopping v"
  by (auto simp: TcpAcceptor_OnIoCompleted_def HandleAccept_def OnAccept_stopping Let_def split: option.split)

lemma close_all_frame:
  "sv_stopping (fold (\<lambda>i. session_event e i SvClose) is v) = sv_stopping v"
  "sv_acceptor (fold (\<lambda>i. session_event e i SvClose) is v) = sv_acceptor v"
  by (induction "is" arbitrary: v) (simp_all add: session_event_def put_session_def notify_stopping server_emit_def)

lemma Stop_halts:
  assumes "server_ok cap v" and "iter_ok order" and "\<not> sv_stopping v"
  shows "halted cap (ProxyServer_Stop e order v)"
proof -
  let ?v = "stop_accepting (v\<lparr>sv_stopping := True\<rparr>)"
  have "sv_stopping ?v" "sv_acceptor ?v = None" by (simp_all add: stop_accepting_def server_emit_def Let_def)
  then have "sv_stopping (stop_sessions e order ?v)" "sv_acceptor (stop_sessions e order ?v) = None"
    by (simp_all add: stop_sessions_def close_all_frame Let_def)
  with stop_sessions_ok [of cap ?v order e] assms show ?thesis
    by (simp add: halted_def ProxyServer_Stop_def Let_def) (simp add: server_emit_def)
qed

text \<open>C11.  Stop leaves nothing behind: when a running server is stopped, every session it ever had is closed with its sockets given up, all
  slots are free again, and whatever completions still arrive, no session is made any more and none comes back.  The free slots are those of
  the configuration, and one more for each time \<^verbatim>\<open>Socks5Session::Start\<close> threw.\<close>

theorem server_stop_is_final:
  assumes "ProxyServer_Start e new_ProxyServer = (None, v0)" and "list_all event_ok evs" and "v = server_run e evs v0"
    and "\<not> sv_stopping v" and "iter_ok order" and "list_all event_ok later"
    and "v' = server_run e later (ProxyServer_Stop e order v)"
  shows "sv_sessions v' = [] \<and> sv_slots v' = map_option (\<lambda>n. n + spills e evs v0) (capacity e) \<and>
    (\<forall>s \<in> set (sv_heap v'). ss_closed s \<and> \<not> ss_client s \<and> \<not> ss_dest s) \<and>
    length (sv_heap v') = length (sv_heap (ProxyServer_Stop e order v))"
proof -
  let ?cap = "map_option (\<lambda>n. n + spills e evs v0) (capacity e)"
  have "server_ok ?cap v" using server_run_ok [OF Start_ok(1) [OF assms(1)] assms(2)] assms(3) by simp
  from Stop_halts [OF this assms(5,4), of e]
  have h: "halted ?cap v' \<and> length (sv_heap v') = length (sv_heap (ProxyServer_Stop e order v))"
    unfolding assms(7) by (rule halted_run) (rule assms(6))
  then have v': "server_ok ?cap v'" "sv_sessions v' = []" by (simp_all add: halted_def)
  have slots: "sv_slots v' = ?cap" using v' by (cases "capacity e") (auto simp: server_ok_def pool_ok_def)
  have "ss_closed s \<and> \<not> ss_client s \<and> \<not> ss_dest s" if mem: "s \<in> set (sv_heap v')" for s
  proof -
    obtain i where i: "i < length (sv_heap v')" "s = sv_heap v' ! i" using mem by (auto simp: in_set_conv_nth)
    then have "ss_closed s" using v' by (auto simp: server_ok_def heap_ok_def)
    then show ?thesis using heap_entry(3) [OF v'(1) i(1)] i(2) by simp
  qed
  then show ?thesis using h v'(2) slots by simp
qed

text \<open>C38.  An exception that leaves \<^verbatim>\<open>Socks5Session::Start\<close> frees the slot twice: the session is already in the set and holds its slot, the
  \<^verbatim>\<open>catch\<close> clause of \<^verbatim>\<open>OnAccept\<close> releases the slot and closes the client's socket, and the session's own Close releases
  it again.  From then on one more session than the limit is admitted.\<close>

theorem server_fault_frees_slot_twice:
  assumes "server_ok (Some n) v" and "sv_slots v = Some (Suc free)" and "\<not> sv_stopping v" and "acc_valid acc" and "\<not> acc_spurious acc"
    and "acc_fault acc = Some FaultStart" and "se_ok (ve_session e (length (sv_heap v))) 0"
  shows "sv_slots (OnAccept e acc v) = Some (Suc free) \<and>
    set (sv_sessions (OnAccept e acc v)) = insert (length (sv_heap v)) (set (sv_sessions v)) \<and>
    sv_slots (session_event e (length (sv_heap v)) SvClose (OnAccept e acc v)) = Some (Suc (Suc free))"
  using assms
  by (simp add: OnAccept_def try_acquire_def admit_def Let_def session_call_def new_Socks5Session_def put_session_def
      server_emit_def RetainSession_def release_slot_def session_event_def Close_def session_emit_def CancelIdleTimer_def
      CancelConnectTimer_def OnSessionClosed_def)

section \<open>A concrete server\<close>

text \<open>One slot, and every call succeeds; two clients come, the first one leaves.\<close>

definition sample_server_env :: server_env where
  "sample_server_env =
     \<lparr>ve_ws = sample_ws, ve_cfg = default_netcfg\<lparr>ListenIPAddress := ''4aaaaaaaa'', MaxConnections := 1\<rparr>,
      ve_dns = \<lparr>de_ws = sample_ws, de_cfg = default_netcfg\<lparr>OutputInterfaceIP := ''4aaaaaaaa''\<rparr>, de_server = ''4aiaiaiai'',
        de_rng = (\<lambda>n. 7), de_ok = (\<lambda>n. True), de_timer = Suc, de_ids = (\<lambda>ks. ks), de_names = (\<lambda>ks. ks)\<rparr>,
      ve_session = (\<lambda>i. sample_session_env), ve_accept = (\<lambda>n. True), ve_ok = (\<lambda>n. True)\<rparr>"

definition sample_client :: accepted where
  "sample_client = \<lparr>acc_valid = True, acc_peer = AddrIn 40000 [10, 0, 0, 2], acc_local = AddrIn 1080 [10, 0, 0, 1], acc_spurious = False, acc_fault = None\<rparr>"

definition sample_server :: server where
  "sample_server = snd (ProxyServer_Start sample_server_env new_ProxyServer)"

lemma sample_server_started: "ProxyServer_Start sample_server_env new_ProxyServer = (None, sample_server)"
proof -
  have "fst (ProxyServer_Start sample_server_env new_ProxyServer) = None" by code_simp
  then show ?thesis by (simp add: sample_server_def prod_eq_iff)
qed

lemma sample_server_ok: "server_ok (Some 1) sample_server" "\<not> sv_stopping sample_server"
  using Start_ok(1,2) [OF sample_server_started] by (simp_all add: capacity_def sample_server_env_def)

lemma sample_simps [simp]:
  "acc_fault sample_client = None" "acc_valid sample_client" "\<not> acc_spurious sample_client" "MaxConnections (ve_cfg sample_server_env) = 1"
  "se_ok (ve_session sample_server_env i) n" "capacity sample_server_env = Some 1"
  by (simp_all add: sample_client_def sample_server_env_def sample_session_env_def capacity_def)

theorem server_refines_pool_witness:
  "pool_step\<^sup>*\<^sup>* (pool_of sample_server) (pool_of (server_step sample_server_env (VvAccept 0 0 sample_client) sample_server))"
  using server_refines_pool [OF sample_server_ok(1), of "VvAccept 0 0 sample_client" sample_server_env]
  by (simp add: start_throws_def)

theorem server_slots_conserved_witness:
  "\<exists>free. sv_slots (server_run sample_server_env [VvAccept 0 0 sample_client, VvAccept 1 0 sample_client, VvSession 0 SvClose] sample_server)
      = Some free \<and>
    int (free + length (sv_sessions (server_run sample_server_env
      [VvAccept 0 0 sample_client, VvAccept 1 0 sample_client, VvSession 0 SvClose] sample_server))) = 1"
  using server_slots_conserved [OF sample_server_started _ refl,
      of "[VvAccept 0 0 sample_client, VvAccept 1 0 sample_client, VvSession 0 SvClose]"]
  by (simp add: start_throws_def del: server_step.simps)

theorem server_stop_is_final_witness:
  "sv_slots (server_run sample_server_env [VvSession 0 (SvClientRecv [] True)]
      (ProxyServer_Stop sample_server_env (\<lambda>is. is) (server_run sample_server_env [VvAccept 0 0 sample_client] sample_server))) = Some 1"
proof -
  have "\<not> sv_stopping (server_run sample_server_env [VvAccept 0 0 sample_client] sample_server)"
    using sample_server_ok(2) accept_stopping by (simp add: server_run_def)
  then show ?thesis
    using server_stop_is_final [OF sample_server_started _ refl, of "[VvAccept 0 0 sample_client]" "\<lambda>is. is"
        "[VvSession 0 (SvClientRecv [] True)]", OF _ _ _ _ refl]
    by (simp add: start_throws_def)
qed

theorem server_fault_frees_slot_twice_witness:
  "sv_slots (session_event sample_server_env 0 SvClose
      (OnAccept sample_server_env (sample_client\<lparr>acc_fault := Some FaultStart\<rparr>) sample_server)) = Some 2"
proof -
  have "sv_slots sample_server = Some (Suc 0)" "sv_heap sample_server = []"
    using Start_ok(3,4) [OF sample_server_started] by simp_all
  then show ?thesis
    using server_fault_frees_slot_twice [OF sample_server_ok(1), of 0 "sample_client\<lparr>acc_fault := Some FaultStart\<rparr>" sample_server_env]
      sample_server_ok(2)
    by (simp add: numeral_2_eq_2)
qed

end
