(* ===== verification/ProxyConfiguration.thy ===== *)
theory ProxyConfiguration
  imports NetworkConfiguration
begin

text \<open>
  The configuration file reader of \<^verbatim>\<open>config/ProxyConfiguration.cpp\<close>: the field extractors
  that scan the JSON text, \<^verbatim>\<open>LoadFromFile\<close>, and \<^verbatim>\<open>IsValid\<close>, which pushes the fields into
  \<open>netcfg\<close>.  The sources keep an index \<^verbatim>\<open>pos\<close> into the text; here the position is the suffix
  that starts there, so \<^verbatim>\<open>pos >= json.size()\<close> is the empty suffix.  An output parameter that
  a failing call leaves untouched is returned unchanged.  File access is the argument
  \<open>content\<close> (\<open>None\<close>: the file cannot be opened).
\<close>

abbreviation dquote :: char where "dquote \<equiv> CHR 0x22"
abbreviation backslash :: char where "backslash \<equiv> CHR 0x5C"


section \<open>Text scanning\<close>

definition Trim :: "string \<Rightarrow> string" where
  "Trim s = rev (dropWhile isspace_c (rev (dropWhile isspace_c s)))"

definition unescape_chr :: "char \<Rightarrow> char" where
  "unescape_chr c = (if c = CHR ''n'' then CHR 0x0A else if c = CHR ''t'' then CHR 0x09 else c)"

fun UnescapeJsonString :: "string \<Rightarrow> string" where
  "UnescapeJsonString [] = []"
| "UnescapeJsonString [c] = [c]"
| "UnescapeJsonString (c # d # cs) =
     (if c = backslash then unescape_chr d # UnescapeJsonString cs
      else c # UnescapeJsonString (d # cs))"

text \<open>\<open>str_find pat s\<close> is \<^verbatim>\<open>s.find(pat)\<close>: the suffix of \<open>s\<close> at the first occurrence of \<open>pat\<close>.\<close>

fun str_find :: "string \<Rightarrow> string \<Rightarrow> string option" where
  "str_find pat s =
     (if take (length pat) s = pat then Some s
      else case s of [] \<Rightarrow> None | c # cs \<Rightarrow> str_find pat cs)"

declare str_find.simps [simp del]

definition quoted :: "string \<Rightarrow> string" where
  "quoted key = dquote # key @ [dquote]"

definition value_pos :: "string \<Rightarrow> string \<Rightarrow> string option" where
  "value_pos json key =
     (case str_find (quoted key) json of
        None \<Rightarrow> None
      | Some s \<Rightarrow>
          (case str_find '':'' (drop (length (quoted key)) s) of
             None \<Rightarrow> None
           | Some s' \<Rightarrow>
               let v = dropWhile isspace_c (tl s') in if v = [] then None else Some v))"

fun read_raw :: "string \<Rightarrow> string \<times> string" where
  "read_raw [] = ([], [])"
| "read_raw (c # cs) =
     (if c = backslash then
        (case cs of
           [] \<Rightarrow> ([c], [])
         | d # ds \<Rightarrow> (let (raw, rest) = read_raw ds in (c # d # raw, rest)))
      else if c = dquote then ([], c # cs)
      else (let (raw, rest) = read_raw cs in (c # raw, rest)))"

definition ExtractString :: "string \<Rightarrow> string \<Rightarrow> string \<Rightarrow> bool \<times> string" where
  "ExtractString json key value =
     (case value_pos json key of
        None \<Rightarrow> (False, value)
      | Some s \<Rightarrow>
          if take 4 s = ''null'' then (True, [])
          else if hd s \<noteq> dquote then (False, value)
          else (case read_raw (tl s) of
              (raw, []) \<Rightarrow> (False, value)
            | (raw, c # cs) \<Rightarrow> if c \<noteq> dquote then (False, value) else (True, UnescapeJsonString raw)))"

text \<open>\<^verbatim>\<open>std::stoi\<close> on an optional minus sign and digits: \<open>None\<close> is \<^verbatim>\<open>std::out_of_range\<close>.\<close>

definition stoi :: "bool \<Rightarrow> string \<Rightarrow> int option" where
  "stoi neg ds =
     (let n = (if neg then - int (digits_val ds) else int (digits_val ds))
      in if -(2 ^ 31) \<le> n \<and> n < 2 ^ 31 then Some n else None)"

definition ExtractInt :: "string \<Rightarrow> string \<Rightarrow> int \<Rightarrow> bool \<times> int" where
  "ExtractInt json key value =
     (case value_pos json key of
        None \<Rightarrow> (False, value)
      | Some s \<Rightarrow>
          if take 4 s = ''null'' then (True, value)
          else
            let neg = (hd s = CHR ''-'');
                ds = takeWhile isdigit_c (if neg then tl s else s)
            in if ds = [] then (False, value)
               else (case stoi neg ds of None \<Rightarrow> (False, value) | Some n \<Rightarrow> (True, n)))"

definition ExtractBoolAsInt :: "string \<Rightarrow> string \<Rightarrow> int \<Rightarrow> bool \<times> int" where
  "ExtractBoolAsInt json key value =
     (case value_pos json key of
        None \<Rightarrow> (False, value)
      | Some s \<Rightarrow>
          if take 4 s = ''true'' then (True, 1)
          else if take 5 s = ''false'' then (True, 0)
          else (case ExtractInt json key 0 of
              (False, n) \<Rightarrow> (False, value)
            | (True, n) \<Rightarrow> (True, if n \<noteq> 0 then 1 else 0)))"

lemma read_raw_length: "read_raw s = (raw, rest) \<Longrightarrow> length rest \<le> length s"
proof (induction s arbitrary: raw rest rule: read_raw.induct)
  case (2 c cs)
  then show ?case by (fastforce split: if_splits list.splits prod.splits)
qed simp

function read_array :: "string \<Rightarrow> string list \<Rightarrow> bool \<times> string list" where
  "read_array s values =
     (case dropWhile (\<lambda>c. isspace_c c \<or> c = CHR '','') s of
        [] \<Rightarrow> (True, values)
      | c # cs \<Rightarrow>
          if c = CHR '']'' then (True, values)
          else if take 4 (c # cs) = ''null'' then read_array (drop 4 (c # cs)) values
          else if c \<noteq> dquote then (False, values)
          else (case read_raw cs of
              (raw, []) \<Rightarrow> (False, values)
            | (raw, d # ds) \<Rightarrow>
                if d \<noteq> dquote then (False, values)
                else read_array ds (values @ [UnescapeJsonString raw])))"
  by pat_completeness auto
termination
proof (relation "measure (length \<circ> fst)", goal_cases)
  case (2 s vs c cs)
  then have "Suc (length cs) \<le> length s"
    by (metis length_Cons length_dropWhile_le)
  then show ?case by simp
next
  case (3 s vs c cs raw q d ds)
  then have "Suc (length cs) \<le> length s" "Suc (length ds) \<le> length cs"
    by (metis length_Cons length_dropWhile_le, metis length_Cons read_raw_length)
  then show ?case by simp
qed simp

declare read_array.simps [simp del]

definition ExtractStringArray :: "string \<Rightarrow> string \<Rightarrow> bool \<times> string list" where
  "ExtractStringArray json key =
     (case value_pos json key of
        None \<Rightarrow> (False, [])
      | Some s \<Rightarrow>
          if take 4 s = ''null'' then (True, [])
          else if hd s \<noteq> CHR ''['' then (False, [])
          else read_array (tl s) [])"

record IPAddressMapping =
  im_IPAddress :: string
  im_FriendlyName :: string

function read_mappings :: "string \<Rightarrow> IPAddressMapping list \<Rightarrow> bool \<times> IPAddressMapping list" where
  "read_mappings s mappings =
     (case dropWhile (\<lambda>c. c \<noteq> CHR ''{'' \<and> c \<noteq> CHR '']'') s of
        [] \<Rightarrow> (True, mappings)
      | c # cs \<Rightarrow>
          if c = CHR '']'' then (True, mappings)
          else if CHR ''}'' \<notin> set (c # cs) then (False, mappings)
          else
            let body = takeWhile (\<lambda>d. d \<noteq> CHR ''}'') (c # cs);
                object = body @ [CHR ''}''];
                mapping = \<lparr>im_IPAddress = snd (ExtractString object ''IPAddress'' []),
                           im_FriendlyName = snd (ExtractString object ''FriendlyName'' [])\<rparr>;
                mappings' = (if im_IPAddress mapping \<noteq> [] \<or> im_FriendlyName mapping \<noteq> []
                             then mappings @ [mapping] else mappings)
            in read_mappings (drop (length object) (c # cs)) mappings')"
  by pat_completeness auto
termination
proof (relation "measure (length \<circ> fst)", goal_cases)
  case (2 s mappings c cs body object)
  then have "Suc (length cs) \<le> length s" "0 < length object"
    by (metis length_Cons length_dropWhile_le, simp)
  then show ?case by (cases object) auto
qed simp

declare read_mappings.simps [simp del]

definition ExtractMappings :: "string \<Rightarrow> bool \<times> IPAddressMapping list" where
  "ExtractMappings json =
     (case str_find (quoted ''IPAddressMappings'') json of
        None \<Rightarrow> (True, [])
      | Some s \<Rightarrow>
          (case str_find ''['' s of None \<Rightarrow> (False, []) | Some s' \<Rightarrow> read_mappings (tl s') []))"

section \<open>Loading and applying a configuration\<close>

record ProxyConfig =
  pc_ListenIPAddress :: string
  pc_ListenPort :: int
  pc_OutputIPAddress :: "string list"
  pc_OutputInterfaceName :: "string list"
  pc_DnsServer :: string
  pc_IPAddressMappings :: "IPAddressMapping list"
  pc_MaxConnections :: int
  pc_RunDelayS :: int
  pc_Username :: string
  pc_Password :: string
  pc_EnableGssapi :: int
  pc_GssapiMaxProtection :: int
  pc_options :: socket_options

definition default_ProxyConfig :: ProxyConfig where
  "default_ProxyConfig =
    \<lparr>pc_ListenIPAddress = [], pc_ListenPort = 1080, pc_OutputIPAddress = [],
     pc_OutputInterfaceName = [], pc_DnsServer = [], pc_IPAddressMappings = [],
     pc_MaxConnections = 1000, pc_RunDelayS = 0, pc_Username = [], pc_Password = [],
     pc_EnableGssapi = -1, pc_GssapiMaxProtection = -1,
     pc_options =
       \<lparr>so_idleTimeoutMs = -1, so_connectTimeoutMs = -1, so_sendTimeoutMs = -1,
        so_receiveTimeoutMs = -1, so_dnsSendTimeoutMs = -1, so_dnsReceiveTimeoutMs = -1,
        so_udpAssociateIdleTimeoutMs = -1, so_sendBufferSize = -1, so_receiveBufferSize = -1,
        so_bufferSize = -1, so_noDelay = -1, so_keepAlive = -1, so_lingerEnabled = -1,
        so_lingerTimeoutSec = -1, so_tcpKeepAliveTime = -1, so_tcpKeepAliveInterval = -1,
        so_tcpKeepAliveRetryCount = -1\<rparr>\<rparr>"

type_synonym load_step = "ProxyConfig \<Rightarrow> string option \<times> ProxyConfig"

definition hasKey :: "string \<Rightarrow> string \<Rightarrow> bool" where
  "hasKey json key \<longleftrightarrow> str_find (quoted key) json \<noteq> None"

definition readInt :: "string \<Rightarrow> string \<Rightarrow> (ProxyConfig \<Rightarrow> int) \<Rightarrow> (int \<Rightarrow> ProxyConfig \<Rightarrow> ProxyConfig) \<Rightarrow> load_step" where
  "readInt json key get put c =
     (if \<not> hasKey json key then (None, c)
      else case ExtractInt json key (get c) of
        (True, n) \<Rightarrow> (None, put n c)
      | (False, n) \<Rightarrow> (Some (''Invalid integer value for '' @ key @ ''.''), put n c))"

definition readBool :: "string \<Rightarrow> string \<Rightarrow> (ProxyConfig \<Rightarrow> int) \<Rightarrow> (int \<Rightarrow> ProxyConfig \<Rightarrow> ProxyConfig) \<Rightarrow> load_step" where
  "readBool json key get put c =
     (if \<not> hasKey json key then (None, c)
      else case ExtractBoolAsInt json key (get c) of
        (True, n) \<Rightarrow> (None, put n c)
      | (False, n) \<Rightarrow> (Some (''Invalid boolean value for '' @ key @ ''.''), put n c))"

definition readString :: "string \<Rightarrow> string \<Rightarrow> (ProxyConfig \<Rightarrow> string) \<Rightarrow> (string \<Rightarrow> ProxyConfig \<Rightarrow> ProxyConfig) \<Rightarrow> load_step" where
  "readString json key get put c =
     (if \<not> hasKey json key then (None, c)
      else case ExtractString json key (get c) of
        (True, v) \<Rightarrow> (None, put v c)
      | (False, v) \<Rightarrow> (Some (''Invalid string value for '' @ key @ ''.''), put v c))"

definition readStrings :: "string \<Rightarrow> string \<Rightarrow> (string list \<Rightarrow> ProxyConfig \<Rightarrow> ProxyConfig) \<Rightarrow> load_step" where
  "readStrings json key put c =
     (if \<not> hasKey json key then (None, c)
      else case ExtractStringArray json key of
        (True, v) \<Rightarrow> (None, put v c)
      | (False, v) \<Rightarrow> (Some (''Invalid string array for '' @ key @ ''.''), put v c))"

definition readMappings :: "string \<Rightarrow> string \<Rightarrow> load_step" where
  "readMappings json errorMessage c =
     (case ExtractMappings json of
        (True, ms) \<Rightarrow> (None, c\<lparr>pc_IPAddressMappings := ms\<rparr>)
      | (False, ms) \<Rightarrow>
          (Some (if errorMessage = [] then ''Invalid IPAddressMappings value.'' else errorMessage),
           c\<lparr>pc_IPAddressMappings := ms\<rparr>))"

abbreviation opt_put :: "((int \<Rightarrow> int) \<Rightarrow> socket_options \<Rightarrow> socket_options) \<Rightarrow> int \<Rightarrow> ProxyConfig \<Rightarrow> ProxyConfig" where
  "opt_put upd \<equiv> (\<lambda>v c. c\<lparr>pc_options := upd (\<lambda>_. v) (pc_options c)\<rparr>)"

definition load_steps :: "string \<Rightarrow> string \<Rightarrow> load_step list" where
  "load_steps json errorMessage =
     [readInt json ''ListenPort'' pc_ListenPort (\<lambda>v c. c\<lparr>pc_ListenPort := v\<rparr>),
      readStrings json ''OutputIPAddress'' (\<lambda>v c. c\<lparr>pc_OutputIPAddress := v\<rparr>),
      readStrings json ''OutputInterfaceName'' (\<lambda>v c. c\<lparr>pc_OutputInterfaceName := v\<rparr>),
      readString json ''DnsServer'' pc_DnsServer (\<lambda>v c. c\<lparr>pc_DnsServer := v\<rparr>),
      readInt json ''MaxConnections'' pc_MaxConnections (\<lambda>v c. c\<lparr>pc_MaxConnections := v\<rparr>),
      readInt json ''RunDelayS'' pc_RunDelayS (\<lambda>v c. c\<lparr>pc_RunDelayS := v\<rparr>),
      readString json ''Username'' pc_Username (\<lambda>v c. c\<lparr>pc_Username := v\<rparr>),
      readString json ''Password'' pc_Password (\<lambda>v c. c\<lparr>pc_Password := v\<rparr>),
      readBool json ''EnableGssapi'' pc_EnableGssapi (\<lambda>v c. c\<lparr>pc_EnableGssapi := v\<rparr>),
      readInt json ''GssapiMaxProtection'' pc_GssapiMaxProtection (\<lambda>v c. c\<lparr>pc_GssapiMaxProtection := v\<rparr>),
      readMappings json errorMessage,
      readInt json ''IdleTimeoutMs'' (so_idleTimeoutMs \<circ> pc_options) (opt_put so_idleTimeoutMs_update),
      readInt json ''ConnectTimeoutMs'' (so_connectTimeoutMs \<circ> pc_options) (opt_put so_connectTimeoutMs_update),
      readInt json ''SendTimeoutMs'' (so_sendTimeoutMs \<circ> pc_options) (opt_put so_sendTimeoutMs_update),
      readInt json ''ReceiveTimeoutMs'' (so_receiveTimeoutMs \<circ> pc_options) (opt_put so_receiveTimeoutMs_update),
      readInt json ''DnsSendTimeoutMs'' (so_dnsSendTimeoutMs \<circ> pc_options) (opt_put so_dnsSendTimeoutMs_update),
      readInt json ''DnsReceiveTimeoutMs'' (so_dnsReceiveTimeoutMs \<circ> pc_options) (opt_put so_dnsReceiveTimeoutMs_update),
      readInt json ''UdpAssociateIdleTimeoutMs'' (so_udpAssociateIdleTimeoutMs \<circ> pc_options) (opt_put so_udpAssociateIdleTimeoutMs_update),
      readInt json ''SendBufferSize'' (so_sendBufferSize \<circ> pc_options) (opt_put so_sendBufferSize_update),
      readInt json ''ReceiveBufferSize'' (so_receiveBufferSize \<circ> pc_options) (opt_put so_receiveBufferSize_update),
      readInt json ''BufferSize'' (so_bufferSize \<circ> pc_options) (opt_put so_bufferSize_update),
      readBool json ''NoDelay'' (so_noDelay \<circ> pc_options) (opt_put so_noDelay_update),
      readBool json ''KeepAlive'' (so_keepAlive \<circ> pc_options) (opt_put so_keepAlive_update),
      readBool json ''LingerEnabled'' (so_lingerEnabled \<circ> pc_options) (opt_put so_lingerEnabled_update),
      readInt json ''LingerTimeoutSec'' (so_lingerTimeoutSec \<circ> pc_options) (opt_put so_lingerTimeoutSec_update),
      readInt json ''TcpKeepAliveTime'' (so_tcpKeepAliveTime \<circ> pc_options) (opt_put so_tcpKeepAliveTime_update),
      readInt json ''TcpKeepAliveInterval'' (so_tcpKeepAliveInterval \<circ> pc_options) (opt_put so_tcpKeepAliveInterval_update),
      readInt json ''TcpKeepAliveRetryCount'' (so_tcpKeepAliveRetryCount \<circ> pc_options) (opt_put so_tcpKeepAliveRetryCount_update)]"

fun run_load :: "load_step list \<Rightarrow> ProxyConfig \<Rightarrow> string option \<times> ProxyConfig" where
  "run_load [] c = (None, c)"
| "run_load (st # sts) c =
     (case st c of (Some e, c') \<Rightarrow> (Some e, c') | (None, c') \<Rightarrow> run_load sts c')"

definition LoadFromFile ::
  "string \<Rightarrow> string option \<Rightarrow> ProxyConfig \<Rightarrow> string \<Rightarrow> bool \<times> string \<times> ProxyConfig" where
  "LoadFromFile path content c errorMessage =
     (case content of
        None \<Rightarrow> (False, ''Proxy configuration file not found: '' @ [CHR 0x27] @ path @ [CHR 0x27] @
           ''. Please create the configuration file or specify a valid path using --config <path>.'', c)
      | Some json \<Rightarrow>
          let (found, ip) = ExtractString json ''ListenIPAddress'' (pc_ListenIPAddress c);
              c1 = c\<lparr>pc_ListenIPAddress := ip\<rparr>
          in if \<not> found \<or> ip = [] then (False, ''ListenIPAddress is required.'', c1)
             else (case run_load (load_steps json errorMessage) c1 of
                 (Some e, c2) \<Rightarrow> (False, e, c2)
               | (None, c2) \<Rightarrow>
                   (True, errorMessage,
                    c2\<lparr>pc_ListenIPAddress := Trim (pc_ListenIPAddress c2),
                       pc_DnsServer := Trim (pc_DnsServer c2),
                       pc_Username := Trim (pc_Username c2),
                       pc_Password := Trim (pc_Password c2)\<rparr>)))"

text \<open>
  The two search loops of \<^verbatim>\<open>IsValid\<close> try the candidates in order and stop at the first the
  setter accepts.  The address loop leaves the last setter's message in \<^verbatim>\<open>errorMessage\<close>, the
  interface loop accumulates the messages.
\<close>

fun try_addresses :: "winsock \<Rightarrow> string list \<Rightarrow> string \<Rightarrow> netcfg \<Rightarrow> setter_result" where
  "try_addresses ws [] err n = (False, err, n)"
| "try_addresses ws (a # as) err n =
     (if a = [] then try_addresses ws as err n
      else case SetOutputInterfaceIP ws a n of
        (True, e, n') \<Rightarrow> (True, e, n')
      | (False, e, n') \<Rightarrow> try_addresses ws as e n')"

fun try_interfaces :: "winsock \<Rightarrow> string list \<Rightarrow> string \<Rightarrow> netcfg \<Rightarrow> setter_result" where
  "try_interfaces ws [] accumulated n = (False, accumulated, n)"
| "try_interfaces ws (i # is) accumulated n =
     (if i = [] then try_interfaces ws is accumulated n
      else case SetOutputInterfaceName ws i n of
        (True, e, n') \<Rightarrow> (True, accumulated, n')
      | (False, e, n') \<Rightarrow>
          try_interfaces ws is
            (if e = [] then accumulated
             else if accumulated = [] then e else accumulated @ [CHR 0x0A] @ e) n')"

definition then_set :: "setter_result \<Rightarrow> (string \<Rightarrow> netcfg \<Rightarrow> setter_result) \<Rightarrow> setter_result" where
  "then_set r f = (case r of (False, e, n) \<Rightarrow> (False, e, n) | (True, e, n) \<Rightarrow> f e n)"

definition IsValid :: "winsock \<Rightarrow> dns_probe \<Rightarrow> ProxyConfig \<Rightarrow> string \<Rightarrow> netcfg \<Rightarrow> setter_result" where
  "IsValid ws pr c errorMessage n =
     (if pc_RunDelayS c < 0 \<or> pc_RunDelayS c > 86400
      then (False, ''RunDelayS must be in the range 0-86400.'', n)
      else if (pc_Username c \<noteq> []) \<noteq> (pc_Password c \<noteq> [])
      then (False, ''Username and Password must either both be set or both be empty.'', n)
      else
        then_set (SetServerInterfaceIP ws (pc_ListenIPAddress c) (pc_ListenPort c) n) (\<lambda>e1 n1.
        then_set (if pc_OutputIPAddress c = [] then (True, e1, n1)
                  else try_addresses ws (pc_OutputIPAddress c) e1 n1) (\<lambda>e2 n2.
        then_set (if pc_OutputInterfaceName c = [] then (True, e2, n2)
                  else case try_interfaces ws (pc_OutputInterfaceName c) [] n2 of
                      (True, acc, n') \<Rightarrow> (True, e2, n')
                    | (False, acc, n') \<Rightarrow>
                        (False, if acc = [] then ''No valid output interface found.'' else acc, n')) (\<lambda>e3 n3.
        then_set (SetSocketOptions (pc_options c) n3) (\<lambda>e4 n4.
        then_set (if pc_DnsServer c = [] then (True, e4, n4) else SetDnsIP ws pr (pc_DnsServer c) n4) (\<lambda>e5 n5.
        then_set (SetMaxConnections (pc_MaxConnections c) n5) (\<lambda>e6 n6.
        then_set (if pc_Username c \<noteq> [] \<and> pc_Password c \<noteq> []
                  then SetUsernamePassword (pc_Username c) (pc_Password c) n6 else (True, e6, n6)) (\<lambda>e7 n7.
          let n8 = (if pc_EnableGssapi c \<ge> 0 then n7\<lparr>EnableGssapi := (pc_EnableGssapi c \<noteq> 0)\<rparr> else n7)
          in if 1 \<le> pc_GssapiMaxProtection c \<and> pc_GssapiMaxProtection c \<le> 3
             then (True, e7, n8\<lparr>GssapiMaxProtection := pc_GssapiMaxProtection c\<rparr>)
             else if pc_GssapiMaxProtection c \<noteq> -1
             then (False, ''GssapiMaxProtection must be 1 (integrity), 2 (confidentiality), or 3 (selective).'', n8)
             else (True, e7, n8)))))))))"

section \<open>Applying a configuration keeps every option in range\<close>

definition setter_keeps :: "(string \<Rightarrow> netcfg \<Rightarrow> setter_result) \<Rightarrow> bool" where
  "setter_keeps g \<longleftrightarrow> (\<forall>e n. netcfg_ok n \<longrightarrow> netcfg_ok (snd (snd (g e n))))"

lemma setter_keepsI:
  "(\<And>e n r e' n'. netcfg_ok n \<Longrightarrow> g e n = (r, e', n') \<Longrightarrow> netcfg_ok n') \<Longrightarrow> setter_keeps g"
  by (metis prod.collapse setter_keeps_def)

lemma setter_keeps_then:
  "setter_keeps s \<Longrightarrow> setter_keeps f \<Longrightarrow> setter_keeps (\<lambda>e n. then_set (s e n) f)"
proof (unfold setter_keeps_def, intro allI impI)
  fix e n assume s: "\<forall>e n. netcfg_ok n \<longrightarrow> netcfg_ok (snd (snd (s e n)))"
    and f: "\<forall>e n. netcfg_ok n \<longrightarrow> netcfg_ok (snd (snd (f e n)))" and n: "netcfg_ok n"
  obtain r e1 n1 where "s e n = (r, e1, n1)" by (metis prod_cases3)
  moreover from this s n have "netcfg_ok n1" by (metis snd_conv)
  ultimately show "netcfg_ok (snd (snd (then_set (s e n) f)))"
    using f by (cases r) (auto simp: then_set_def)
qed

lemma setter_keeps_skip: "setter_keeps (\<lambda>e n. (True, e, n))"
  by (simp add: setter_keeps_def)

lemma setter_keeps_if:
  "setter_keeps s \<Longrightarrow> setter_keeps t \<Longrightarrow> setter_keeps (\<lambda>e n. if b then s e n else t e n)"
  by (simp add: setter_keeps_def)

lemma try_addresses_ok: "netcfg_ok n \<Longrightarrow> try_addresses ws as err n = (r, e, n') \<Longrightarrow> netcfg_ok n'"
  by (induction ws as err n rule: try_addresses.induct)
    (auto split: if_splits prod.splits bool.splits dest: SetOutputInterfaceIP_ok)

lemma try_interfaces_ok: "netcfg_ok n \<Longrightarrow> try_interfaces ws is acc n = (r, e, n') \<Longrightarrow> netcfg_ok n'"
proof (induction ws "is" acc n rule: try_interfaces.induct)
  case (2 ws i "is" acc n)
  show ?case
  proof (cases "i = []")
    case False
    obtain r1 e1 n1 where st: "SetOutputInterfaceName ws i n = (r1, e1, n1)"
      by (metis prod_cases3)
    then have "netcfg_ok n1" using 2(3) by (blast dest: SetOutputInterfaceName_ok)
    with 2 st False show ?thesis by (cases r1) auto
  qed (use 2 in simp)
qed simp

lemma IsValid_interfaces_keep:
  "setter_keeps (\<lambda>e n. case try_interfaces ws is [] n of
       (True, acc, n') \<Rightarrow> (True, e, n')
     | (False, acc, n') \<Rightarrow> (False, if acc = [] then ''No valid output interface found.'' else acc, n'))"
  by (rule setter_keepsI) (auto split: prod.splits bool.splits dest: try_interfaces_ok)

lemma IsValid_gssapi_keep:
  "setter_keeps (\<lambda>e n.
     let n8 = (if g \<ge> 0 then n\<lparr>EnableGssapi := (g \<noteq> 0)\<rparr> else n)
     in if 1 \<le> p \<and> p \<le> 3 then (True, e, n8\<lparr>GssapiMaxProtection := p\<rparr>)
        else if p \<noteq> -1 then (False, msg, n8) else (True, e, n8))"
  by (auto simp: setter_keeps_def Let_def intro: netcfg_ok_GssapiMaxProtection)

lemmas IsValid_stages =
  setter_keeps_then setter_keeps_skip setter_keeps_if IsValid_interfaces_keep IsValid_gssapi_keep
  setter_keepsI [OF SetServerInterfaceIP_ok] setter_keepsI [OF try_addresses_ok]
  setter_keepsI [OF SetSocketOptions_ok] setter_keepsI [OF SetDnsIP_ok]
  setter_keepsI [OF SetMaxConnections_ok] setter_keepsI [OF SetUsernamePassword_ok]

lemma IsValid_keeps: "setter_keeps (\<lambda>e n. IsValid ws pr c e n)"
  unfolding IsValid_def
  by (rule setter_keeps_if, simp add: setter_keeps_def, rule setter_keeps_if, simp add: setter_keeps_def)
    (rule IsValid_stages | assumption)+

lemma IsValid_ok: "netcfg_ok n \<Longrightarrow> IsValid ws pr c err n = (r, e, n') \<Longrightarrow> netcfg_ok n'"
  using IsValid_keeps [of ws pr c] unfolding setter_keeps_def by (metis snd_conv)


section \<open>Round trips of the extractors\<close>

definition escape_chr :: "char \<Rightarrow> string" where
  "escape_chr c =
     (if c = dquote then [backslash, dquote]
      else if c = backslash then [backslash, backslash]
      else if c = CHR 0x0A then [backslash, CHR ''n'']
      else if c = CHR 0x09 then [backslash, CHR ''t'']
      else [c])"

definition escape_json :: "string \<Rightarrow> string" where
  "escape_json s = concat (map escape_chr s)"

lemma escape_json_simps [simp]:
  "escape_json [] = []" "escape_json (c # cs) = escape_chr c @ escape_json cs"
  by (simp_all add: escape_json_def)

lemma Unescape_Cons: "c \<noteq> backslash \<Longrightarrow> UnescapeJsonString (c # cs) = c # UnescapeJsonString cs"
  by (cases cs) auto

lemma Unescape_escape [simp]: "UnescapeJsonString (escape_json s) = s"
  by (induction s) (auto simp: escape_chr_def unescape_chr_def Unescape_Cons)

lemma read_raw_escape [simp]: "read_raw (escape_json s @ dquote # rest) = (escape_json s, dquote # rest)"
  by (induction s) (auto simp: escape_chr_def)

lemma str_find_first:
  assumes "\<forall>i < length pre. take (length pat) (drop i (pre @ pat @ post)) \<noteq> pat"
  shows "str_find pat (pre @ pat @ post) = Some (pat @ post)"
  using assms
proof (induction pre)
  case Nil
  show ?case by (subst str_find.simps) simp
next
  case (Cons c pre)
  have "take (length pat) (c # pre @ pat @ post) \<noteq> pat" using Cons.prems by (auto dest: spec [of _ 0])
  moreover have "\<forall>i < length pre. take (length pat) (drop i (pre @ pat @ post)) \<noteq> pat"
    using Cons.prems by (auto dest: spec [of _ "Suc _"])
  ultimately show ?case using Cons.IH by (subst str_find.simps) simp
qed

lemma str_find_char: "c \<notin> set ws \<Longrightarrow> str_find [c] (ws @ c # rest) = Some (c # rest)"
  by (induction ws) (auto simp: str_find.simps)

lemma value_pos_found:
  assumes "\<forall>i < length pre. take (length (quoted key)) (drop i (pre @ quoted key @ post)) \<noteq> quoted key"
    and "post = ws1 @ '':'' @ ws2 @ v # vs"
    and "list_all isspace_c ws1" and "list_all isspace_c ws2" and "\<not> isspace_c v"
  shows "value_pos (pre @ quoted key @ post) key = Some (v # vs)"
proof -
  have found: "str_find (quoted key) (pre @ quoted key @ post) = Some (quoted key @ post)"
    by (rule str_find_first [OF assms(1)])
  have "CHR '':'' \<notin> set ws1"
  proof
    assume "CHR '':'' \<in> set ws1"
    with assms(3) have "isspace_c CHR '':''" by (simp only: list_all_iff)
    then show False by (simp add: isspace_c_def)
  qed
  then have colon: "str_find '':'' post = Some (CHR '':'' # ws2 @ v # vs)"
    unfolding assms(2) by (simp only: append_Cons append_Nil) (rule str_find_char)
  have skip: "dropWhile isspace_c (ws2 @ v # vs) = v # vs"
    using assms(4,5) by (simp add: dropWhile_append2 list_all_iff)
  have "drop (length (quoted key)) (quoted key @ post) = post" by simp
  then show ?thesis
    unfolding value_pos_def found option.case by (simp only: colon option.case list.sel skip Let_def) simp
qed

lemma dquote_not_space [simp]: "\<not> isspace_c dquote"
  by (simp add: isspace_c_def)

lemma isdigit_not_space: "isdigit_c c \<Longrightarrow> \<not> isspace_c c"
  by (auto simp: isdigit_c_def isspace_c_def)

lemma ExtractString_reads_back:
  assumes "\<forall>i < length pre. take (length (quoted key)) (drop i (pre @ quoted key @ post)) \<noteq> quoted key"
    and "post = ws1 @ '':'' @ ws2 @ quoted (escape_json value) @ rest"
    and "list_all isspace_c ws1" and "list_all isspace_c ws2"
  shows "ExtractString (pre @ quoted key @ post) key old = (True, value)"
proof -
  have "value_pos (pre @ quoted key @ post) key = Some (dquote # escape_json value @ dquote # rest)"
    using value_pos_found [OF assms(1) _ assms(3,4), of dquote] assms(2) by (simp add: quoted_def)
  then show ?thesis by (simp add: ExtractString_def)
qed

lemma takeWhile_digits:
  "(rest = [] \<or> \<not> isdigit_c (hd rest)) \<Longrightarrow> takeWhile isdigit_c (to_string n @ rest) = to_string n"
  by (cases rest) (auto simp: takeWhile_append2 to_string_isdigit)

lemma ExtractInt_reads_back:
  assumes "\<forall>i < length pre. take (length (quoted key)) (drop i (pre @ quoted key @ post)) \<noteq> quoted key"
    and "post = ws1 @ '':'' @ ws2 @ to_string n @ rest"
    and "list_all isspace_c ws1" and "list_all isspace_c ws2"
    and "rest = [] \<or> \<not> isdigit_c (hd rest)" and "n < 2 ^ 31"
  shows "ExtractInt (pre @ quoted key @ post) key old = (True, int n)"
proof -
  obtain d ds where dd: "to_string n = d # ds" by (metis list.exhaust to_string_nonempty)
  then have dig: "isdigit_c d" by (metis list.set_intros(1) to_string_isdigit)
  then have "d \<noteq> CHR ''n''" "d \<noteq> CHR ''-''" by (auto simp: isdigit_c_def)
  moreover have "value_pos (pre @ quoted key @ post) key = Some (to_string n @ rest)"
    using value_pos_found [OF assms(1) _ assms(3,4), of d "ds @ rest"] assms(2) dd dig
    by (simp add: isdigit_not_space)
  moreover have "stoi False (to_string n) = Some (int n)"
    using assms(6) by (simp add: stoi_def Let_def)
  ultimately show ?thesis
    using takeWhile_digits [OF assms(5), of n] by (simp add: ExtractInt_def Let_def dd)
qed

end
