(* ===== verification/FriendlyNameResolver.thy ===== *)
theory FriendlyNameResolver
  imports ProxyConfiguration
begin

text \<open>
  The friendly names of \<^verbatim>\<open>friendly/FriendlyNameResolver.cpp\<close> that decorate the addresses in log lines.  The constructor
  walks the configured mappings and counts those it ignores and those that replace an earlier one; the warnings it
  logs depend on the counts only.
\<close>

definition is_blank :: "char \<Rightarrow> bool" where
  "is_blank c \<longleftrightarrow> c = CHR '' '' \<or> c = CHR 0x09"

definition trim_blanks :: "string \<Rightarrow> string" where
  "trim_blanks s = rev (dropWhile is_blank (rev (dropWhile is_blank s)))"

record name_table =
  nt_map :: "(string, string) umap"
  nt_invalid :: nat
  nt_duplicates :: nat

definition add_mapping :: "winsock \<Rightarrow> IPAddressMapping \<Rightarrow> name_table \<Rightarrow> name_table" where
  "add_mapping ws m t =
     (let ipStr = trim_blanks (im_IPAddress m); name = trim_blanks (im_FriendlyName m)
      in if ipStr = [] \<or> name = [] then t\<lparr>nt_invalid := nt_invalid t + 1\<rparr>
         else case ParseIP ws ipStr of
           None \<Rightarrow> t\<lparr>nt_invalid := nt_invalid t + 1\<rparr>
         | Some (storage, family) \<Rightarrow>
             let key = IPToString ws storage;
                 t1 = (if um_find (nt_map t) key \<noteq> None then t\<lparr>nt_duplicates := nt_duplicates t + 1\<rparr> else t)
             in t1\<lparr>nt_map := um_set key name (nt_map t1)\<rparr>)"

definition new_FriendlyNameResolver :: "winsock \<Rightarrow> IPAddressMapping list \<Rightarrow> name_table" where
  "new_FriendlyNameResolver ws mappings = fold (add_mapping ws) mappings \<lparr>nt_map = [], nt_invalid = 0, nt_duplicates = 0\<rparr>"

definition FriendlySuffix :: "name_table \<Rightarrow> string \<Rightarrow> string" where
  "FriendlySuffix t ip = (case um_find (nt_map t) ip of None \<Rightarrow> '''' | Some name \<Rightarrow> '' ('' @ name @ '')'')"

definition FriendlySuffix_addr :: "winsock \<Rightarrow> name_table \<Rightarrow> sockaddr_storage option \<Rightarrow> string" where
  "FriendlySuffix_addr ws t addr = (case addr of None \<Rightarrow> '''' | Some sa \<Rightarrow> FriendlySuffix t (IPToString ws sa))"


section \<open>The last mapping wins\<close>

text \<open>The reference: the address a mapping is for, in its canonical spelling, if the mapping counts at all.\<close>

definition mapping_key :: "winsock \<Rightarrow> IPAddressMapping \<Rightarrow> string option" where
  "mapping_key ws m =
     (if trim_blanks (im_IPAddress m) = [] \<or> trim_blanks (im_FriendlyName m) = [] then None
      else map_option (IPToString ws \<circ> fst) (ParseIP ws (trim_blanks (im_IPAddress m))))"

lemma add_mapping_find:
  "um_find (nt_map (add_mapping ws m t)) k =
     (if mapping_key ws m = Some k then Some (trim_blanks (im_FriendlyName m)) else um_find (nt_map t) k)"
  by (auto simp: add_mapping_def mapping_key_def Let_def split: option.split)

lemma names_find:
  "um_find (nt_map (fold (add_mapping ws) ms t)) k =
     (case List.find (\<lambda>m. mapping_key ws m = Some k) (rev ms) of
        None \<Rightarrow> um_find (nt_map t) k | Some m \<Rightarrow> Some (trim_blanks (im_FriendlyName m)))"
  by (induction ms arbitrary: t rule: rev_induct) (simp_all add: add_mapping_find)

lemma add_mapping_counts:
  "nt_invalid (add_mapping ws m t) + nt_duplicates (add_mapping ws m t) + length (nt_map (add_mapping ws m t)) =
   Suc (nt_invalid t + nt_duplicates t + length (nt_map t))"
  by (auto simp: add_mapping_def Let_def um_size_set split: option.split)

lemma names_counts:
  "nt_invalid (fold (add_mapping ws) ms t) + nt_duplicates (fold (add_mapping ws) ms t) + length (nt_map (fold (add_mapping ws) ms t)) =
   length ms + (nt_invalid t + nt_duplicates t + length (nt_map t))"
  by (induction ms arbitrary: t) (simp_all add: add_mapping_counts)

text \<open>An address is shown with the name of the last valid mapping for it, however the mapping spells the address, and
  without a name if there is none; and every mapping is accounted for: ignored, replacing an earlier one, or counted in
  the table.\<close>

theorem friendly_last_mapping_wins:
  "FriendlySuffix (new_FriendlyNameResolver ws ms) ip =
     (case List.find (\<lambda>m. mapping_key ws m = Some ip) (rev ms) of
        None \<Rightarrow> '''' | Some m \<Rightarrow> '' ('' @ trim_blanks (im_FriendlyName m) @ '')'') \<and>
   nt_invalid (new_FriendlyNameResolver ws ms) + nt_duplicates (new_FriendlyNameResolver ws ms) +
     length (nt_map (new_FriendlyNameResolver ws ms)) = length ms"
  by (simp add: FriendlySuffix_def new_FriendlyNameResolver_def names_find names_counts split: option.split)

end
