(* ===== verification/NetworkMonitoring.thy ===== *)
theory NetworkMonitoring
  imports NetworkUtils
begin

text \<open>
  The monitor thread of \<^verbatim>\<open>helper/NetworkMonitoring.cpp\<close>.  The stop flag is shared with other threads: in \<open>Run\<close> the list of
  rounds are those entered before the flag is seen set, each with the adapters as the two checks find them; in the countdown
  \<open>stop n\<close> is what the \<open>n\<close>-th load of the flag returns.  A sleep of 100 milliseconds is one tick.
\<close>

record monitoring =
  nm_currentNetworkCheck :: int
  nm_restartRequested :: bool

definition new_NetworkMonitoring :: monitoring where
  "new_NetworkMonitoring = \<lparr>nm_currentNetworkCheck = 0, nm_restartRequested = False\<rparr>"

definition MaxNetworkCheckRetry :: int where "MaxNetworkCheckRetry = 3"

definition StartupRestartDelaySec :: int where "StartupRestartDelaySec = 30"

definition ValidateInterface :: "winsock \<Rightarrow> string \<Rightarrow> string \<Rightarrow> bool" where
  "ValidateInterface ws address tag =
     (if tag = ''Listener'' \<and> (IsAnyAddress address \<or> address = ''127.0.0.1'' \<or> address = ''::1'') then True
      else case ResolveInterfaceName ws address of
        None \<Rightarrow> False
      | Some (name, isUp) \<Rightarrow> if \<not> isUp then False else True)"

fun sleep_loop :: "nat \<Rightarrow> (nat \<Rightarrow> bool) \<Rightarrow> nat \<Rightarrow> nat \<Rightarrow> nat \<times> nat" where
  "sleep_loop 0 stop n ticks = (n, ticks)"
| "sleep_loop (Suc i) stop n ticks = (if stop n then (Suc n, ticks) else sleep_loop i stop (Suc n) (Suc ticks))"

fun countdown :: "nat \<Rightarrow> (nat \<Rightarrow> bool) \<Rightarrow> nat \<Rightarrow> nat \<Rightarrow> monitoring \<Rightarrow> monitoring \<times> nat" where
  "countdown 0 stop n ticks m = (if \<not> stop n then m\<lparr>nm_restartRequested := True\<rparr> else m, ticks)"
| "countdown (Suc remaining) stop n ticks m =
     (if stop n then (m, ticks)
      else let (n', ticks') = sleep_loop 10 stop (Suc n) ticks in countdown remaining stop n' ticks' m)"

definition PrepareRestartAfterDelay :: "int \<Rightarrow> (nat \<Rightarrow> bool) \<Rightarrow> monitoring \<Rightarrow> monitoring \<times> nat" where
  "PrepareRestartAfterDelay delaySeconds stop m =
     (if delaySeconds \<le> 0 then (m\<lparr>nm_restartRequested := True\<rparr>, 0) else countdown (nat delaySeconds) stop 0 0 m)"

text \<open>One round; the flag says that the monitor stops the program and returns.\<close>

definition monitor_round :: "string \<Rightarrow> string \<Rightarrow> winsock \<times> winsock \<Rightarrow> monitoring \<Rightarrow> bool \<times> monitoring" where
  "monitor_round listenerAddress outputAddress w m =
     (let listenOk = ValidateInterface (fst w) listenerAddress ''Listener'';
          m1 = (if \<not> listenOk then m\<lparr>nm_currentNetworkCheck := nm_currentNetworkCheck m + 1\<rparr> else m);
          outputOk = ValidateInterface (snd w) outputAddress ''Output'';
          m2 = (if \<not> outputOk then m1\<lparr>nm_currentNetworkCheck := nm_currentNetworkCheck m1 + 1\<rparr> else m1);
          allSuccess = (if listenOk then 1 else 0) + (if outputOk then 1 else 0 :: nat)
      in if allSuccess \<ge> 2 then (False, m2\<lparr>nm_currentNetworkCheck := 0\<rparr>)
         else if nm_currentNetworkCheck m2 \<ge> MaxNetworkCheckRetry then (True, m2\<lparr>nm_restartRequested := True\<rparr>)
         else (False, m2))"

fun Monitoring_Run :: "string \<Rightarrow> string \<Rightarrow> (winsock \<times> winsock) list \<Rightarrow> monitoring \<Rightarrow> bool \<times> monitoring" where
  "Monitoring_Run la oa [] m = (False, m)"
| "Monitoring_Run la oa (w # ws) m =
     (let (stopped, m1) = monitor_round la oa w m in if stopped then (True, m1) else Monitoring_Run la oa ws m1)"


section \<open>When the monitor gives up\<close>

text \<open>The number of interfaces found missing in a round.\<close>

definition failures :: "string \<Rightarrow> string \<Rightarrow> winsock \<times> winsock \<Rightarrow> nat" where
  "failures la oa w =
     (if ValidateInterface (fst w) la ''Listener'' then 0 else 1) + (if ValidateInterface (snd w) oa ''Output'' then 0 else 1)"

text \<open>The reference: three failures in consecutive rounds none of which was without failure.\<close>

definition outage :: "string \<Rightarrow> string \<Rightarrow> nat \<Rightarrow> (winsock \<times> winsock) list \<Rightarrow> bool" where
  "outage la oa n ws \<longleftrightarrow> (\<exists>ys zs. ws = ys @ zs \<and> ys \<noteq> [] \<and> (\<forall>w \<in> set ys. failures la oa w > 0) \<and> n + sum_list (map (failures la oa) ys) \<ge> 3)"

lemma outage_Nil [simp]: "\<not> outage la oa n []"
  by (simp add: outage_def)

lemma outage_Cons:
  "outage la oa n (w # ws) \<longleftrightarrow> failures la oa w > 0 \<and> (n + failures la oa w \<ge> 3 \<or> outage la oa (n + failures la oa w) ws)"
  (is "?L \<longleftrightarrow> ?R")
proof
  assume ?L
  then obtain ys zs where y: "w # ws = ys @ zs" "ys \<noteq> []" "\<forall>w \<in> set ys. failures la oa w > 0"
    "n + sum_list (map (failures la oa) ys) \<ge> 3" by (auto simp: outage_def)
  then obtain us where "ys = w # us" "ws = us @ zs" by (cases ys) auto
  moreover from this have "outage la oa (n + failures la oa w) ws" if "us \<noteq> []"
    using y that unfolding outage_def by (intro exI [of _ us] exI [of _ zs]) (simp add: add.assoc)
  ultimately show ?R using y by (cases us) auto
next
  assume r: ?R
  then show ?L
  proof (cases "n + failures la oa w \<ge> 3")
    case True
    then show ?thesis using r unfolding outage_def by (intro exI [of _ "[w]"] exI [of _ ws]) simp
  next
    case False
    with r obtain ys zs where "ws = ys @ zs" "\<forall>w \<in> set ys. failures la oa w > 0"
      "n + failures la oa w + sum_list (map (failures la oa) ys) \<ge> 3" by (auto simp: outage_def)
    then show ?thesis using r unfolding outage_def by (intro exI [of _ "w # ys"] exI [of _ zs]) simp
  qed
qed

lemma round_result:
  assumes "nm_currentNetworkCheck m = int n" and "n < 3"
  shows "monitor_round la oa w m =
    (if failures la oa w = 0 then (False, m\<lparr>nm_currentNetworkCheck := 0\<rparr>)
     else if n + failures la oa w \<ge> 3 then (True, m\<lparr>nm_currentNetworkCheck := int (n + failures la oa w), nm_restartRequested := True\<rparr>)
     else (False, m\<lparr>nm_currentNetworkCheck := int (n + failures la oa w)\<rparr>))"
  using assms by (auto simp: monitor_round_def failures_def MaxNetworkCheckRetry_def Let_def)

lemma outage_mono: "outage la oa 0 ws \<Longrightarrow> outage la oa n ws"
  unfolding outage_def by force

definition outage_in :: "string \<Rightarrow> string \<Rightarrow> (winsock \<times> winsock) list \<Rightarrow> bool" where
  "outage_in la oa ws \<longleftrightarrow> (\<exists>us vs. ws = us @ vs \<and> outage la oa 0 vs)"

lemma outage_in_simps [simp]:
  "\<not> outage_in la oa []" "outage_in la oa (w # ws) \<longleftrightarrow> outage la oa 0 (w # ws) \<or> outage_in la oa ws"
  by (auto simp: outage_in_def Cons_eq_append_conv)

lemma run_outage:
  assumes "nm_currentNetworkCheck m = int n" and "n < 3" and "\<not> nm_restartRequested m"
  shows "fst (Monitoring_Run la oa ws m) = nm_restartRequested (snd (Monitoring_Run la oa ws m)) \<and>
    (fst (Monitoring_Run la oa ws m) \<longleftrightarrow> outage la oa n ws \<or> outage_in la oa ws)"
  using assms
proof (induction ws arbitrary: m n)
  case (Cons w ws)
  note r = round_result [OF Cons.prems(1,2), of la oa w]
  consider (none) "failures la oa w = 0" | (stop) "failures la oa w > 0" "n + failures la oa w \<ge> 3"
    | (go) "failures la oa w > 0" "n + failures la oa w < 3" by linarith
  then show ?case
  proof cases
    case none
    have "outage la oa 0 ws \<Longrightarrow> outage_in la oa ws" by (metis append_Nil outage_in_def)
    then show ?thesis
      using Cons.IH [of "m\<lparr>nm_currentNetworkCheck := 0\<rparr>" 0] Cons.prems(3) none by (auto simp: r outage_Cons)
  next
    case stop
    then show ?thesis by (simp add: r outage_Cons)
  next
    case go
    have "outage la oa (failures la oa w) ws \<Longrightarrow> outage la oa (n + failures la oa w) ws" by (auto simp: outage_def)
    then show ?thesis
      using Cons.IH [of "m\<lparr>nm_currentNetworkCheck := int (n + failures la oa w)\<rparr>" "n + failures la oa w"] Cons.prems(3) go
      by (auto simp: r outage_Cons)
  qed
qed simp

text \<open>C32.  The monitor stops the program for a restart exactly when there is an outage: a run of consecutive rounds, each with an
  interface missing, in which at least three checks failed.  A round in which both interfaces are found starts the
  count afresh.\<close>

theorem monitor_restarts_on_outage:
  "fst (Monitoring_Run la oa ws new_NetworkMonitoring) = nm_restartRequested (snd (Monitoring_Run la oa ws new_NetworkMonitoring)) \<and>
   (fst (Monitoring_Run la oa ws new_NetworkMonitoring) \<longleftrightarrow> outage_in la oa ws)"
proof -
  have "outage la oa 0 ws \<Longrightarrow> outage_in la oa ws" by (metis append_Nil outage_in_def)
  then show ?thesis using run_outage [of new_NetworkMonitoring 0 la oa ws] by (auto simp: new_NetworkMonitoring_def)
qed


section \<open>The countdown\<close>

definition flag_stays :: "(nat \<Rightarrow> bool) \<Rightarrow> bool" where
  "flag_stays stop \<longleftrightarrow> (\<forall>n k. stop n \<longrightarrow> stop (n + k))"

lemma sleep_loop_stays:
  assumes "flag_stays stop" and "sleep_loop i stop n t = (n', t')"
  shows "(stop n' \<longleftrightarrow> stop (n + i)) \<and> (\<not> stop (n + i) \<longrightarrow> n' = n + i \<and> t' = t + i) \<and> n' \<le> n + i \<and> t' \<le> t + i"
  using assms(2)
proof (induction i arbitrary: n t)
  case (Suc i)
  show ?case
  proof (cases "stop n")
    case True
    then have "stop (n + k)" for k using assms(1) by (simp add: flag_stays_def)
    from this [of 1] this [of "Suc i"] show ?thesis using Suc.prems True by auto
  next
    case False
    then show ?thesis using Suc.IH [of "Suc n" "Suc t"] Suc.prems by auto
  qed
qed simp

lemma countdown_stays:
  assumes "flag_stays stop" and "countdown r stop n t m = (m', t')"
  shows "(nm_restartRequested m' \<longleftrightarrow> nm_restartRequested m \<or> \<not> stop (n + 11 * r)) \<and> t' \<le> t + 10 * r \<and>
    (\<not> stop (n + 11 * r) \<longrightarrow> t' = t + 10 * r)"
  using assms(2)
proof (induction r arbitrary: n t)
  case (Suc r)
  have later: "stop a \<Longrightarrow> stop (a + k)" for a k using assms(1) by (simp add: flag_stays_def)
  show ?case
  proof (cases "stop n")
    case True
    then show ?thesis using Suc.prems later [OF True, of "11 * Suc r"] by auto
  next
    case False
    obtain n1 t1 where l: "sleep_loop 10 stop (Suc n) t = (n1, t1)" by fastforce
    note s = sleep_loop_stays [OF assms(1) l]
    have c: "countdown r stop n1 t1 m = (m', t')" using Suc.prems False l by simp
    note ih = Suc.IH [OF c]
    show ?thesis
    proof (cases "stop (Suc n + 10)")
      case True
      then have "stop (n1 + 11 * r)" "stop (n + 11 * Suc r)"
        using s later [of n1 "11 * r"] later [OF True, of "11 * r"] by (auto simp: algebra_simps)
      then show ?thesis using ih s by auto
    next
      case False
      then have "n1 + 11 * r = n + 11 * Suc r" "t1 + 10 * r = t + 10 * Suc r" using s by auto
      then show ?thesis using ih by (simp del: mult_Suc_right)
    qed
  qed
qed auto

text \<open>The countdown to a restart takes the given number of seconds, ten ticks each, and then requests the restart, unless
  the stop flag is set meanwhile: then it returns early and requests nothing.\<close>

theorem restart_countdown_exact:
  assumes "flag_stays stop" and "0 < d" and "PrepareRestartAfterDelay d stop m = (m', ticks)"
  shows "(nm_restartRequested m' \<longleftrightarrow> nm_restartRequested m \<or> \<not> stop (11 * nat d)) \<and> int ticks \<le> 10 * d \<and>
    (\<not> stop (11 * nat d) \<longrightarrow> int ticks = 10 * d)"
proof -
  have c: "countdown (nat d) stop 0 0 m = (m', ticks)" using assms(2,3) by (simp add: PrepareRestartAfterDelay_def)
  have "ticks \<le> 10 * nat d \<Longrightarrow> int ticks \<le> 10 * d" "ticks = 10 * nat d \<Longrightarrow> int ticks = 10 * d" using assms(2) by linarith+
  then show ?thesis using countdown_stays [OF assms(1) c] by auto
qed

theorem restart_countdown_exact_witness:
  "nm_restartRequested (fst (PrepareRestartAfterDelay 2 (\<lambda>n. 30 \<le> n) new_NetworkMonitoring)) \<and>
   snd (PrepareRestartAfterDelay 2 (\<lambda>n. 30 \<le> n) new_NetworkMonitoring) = 20"
  using restart_countdown_exact [of "\<lambda>n. 30 \<le> n" 2 new_NetworkMonitoring, OF _ _ surjective_pairing]
  by (simp add: flag_stays_def)

end
