(* ===== verification/Application.thy ===== *)
theory Application
  imports NetworkUtils
begin

text \<open>
  The process-level helpers of \<^verbatim>\<open>utils/Application.cpp\<close>: the single-instance guard, elevation and restart, and the firewall
  rules.  Each answer of the operating system is an argument; the calls that change something outside the process are
  recorded.  A \<^verbatim>\<open>std::wstring\<close> is a list of 16-bit units.
\<close>

type_synonym wstring = "u16 list"

definition wide :: "string \<Rightarrow> wstring" where
  "wide s = map (\<lambda>c. word_of_nat (of_char c)) s"

abbreviation (input) "W_NUL \<equiv> (0 :: u16)"
abbreviation (input) "W_TAB \<equiv> (9 :: u16)"
abbreviation (input) "W_SPACE \<equiv> (32 :: u16)"
abbreviation (input) "W_QUOTE \<equiv> (34 :: u16)"

datatype os_call =
    ShellExecute string wstring "wstring option"
  | ReleaseMutex
  | CloseMutexHandle
  | Netsh string


section \<open>Command line\<close>

definition CurrentCommandLineParameters :: "wstring option \<Rightarrow> wstring" where
  "CurrentCommandLineParameters commandLine =
     (case commandLine of
        None \<Rightarrow> []
      | Some memory \<Rightarrow>
          let s = takeWhile (\<lambda>c. c \<noteq> W_NUL) memory;
              p = (case s of
                     [] \<Rightarrow> []
                   | c # rest \<Rightarrow>
                       if c = W_QUOTE
                       then (case dropWhile (\<lambda>c. c \<noteq> W_QUOTE) rest of [] \<Rightarrow> [] | _ # after \<Rightarrow> after)
                       else dropWhile (\<lambda>c. c \<noteq> W_SPACE \<and> c \<noteq> W_TAB) s)
          in dropWhile (\<lambda>c. c = W_SPACE \<or> c = W_TAB) p)"


section \<open>Single instance\<close>

record guard =
  gd_mutex :: bool
  gd_hasLock :: bool
  gd_isRunning :: bool

text \<open>\<open>created\<close> and \<open>exists\<close>: what \<^verbatim>\<open>CreateMutexW\<close> and \<^verbatim>\<open>GetLastError\<close> answer.\<close>

definition TryAcquire :: "bool \<Rightarrow> bool \<Rightarrow> guard \<Rightarrow> bool \<times> os_call list \<times> guard" where
  "TryAcquire created exists g =
     (if \<not> created then (False, [], g)
      else if exists then (False, [CloseMutexHandle], g)
      else (True, [], g\<lparr>gd_mutex := True, gd_hasLock := True, gd_isRunning := False\<rparr>))"

definition ReleaseHandle :: "guard \<Rightarrow> os_call list \<times> guard" where
  "ReleaseHandle g =
     (if \<not> gd_mutex g then ([], g)
      else if gd_hasLock g then ([ReleaseMutex, CloseMutexHandle], g\<lparr>gd_hasLock := False, gd_mutex := False\<rparr>)
      else ([CloseMutexHandle], g\<lparr>gd_mutex := False\<rparr>))"

definition new_SingleInstanceGuard :: "bool \<Rightarrow> bool \<Rightarrow> os_call list \<times> guard" where
  "new_SingleInstanceGuard created exists =
     (case TryAcquire created exists \<lparr>gd_mutex = False, gd_hasLock = False, gd_isRunning = False\<rparr> of
        (True, calls, g) \<Rightarrow> (calls, g)
      | (False, calls, g) \<Rightarrow> (calls, g\<lparr>gd_isRunning := True, gd_hasLock := False\<rparr>))"


section \<open>Elevation and restart\<close>

text \<open>\<open>token\<close>: \<^verbatim>\<open>OpenProcessToken\<close> succeeded; \<open>info\<close>: the answer of \<^verbatim>\<open>GetTokenInformation\<close>.  \<^verbatim>\<open>TRUE\<close> is 1.\<close>

definition IsElevated :: "bool \<Rightarrow> nat option \<Rightarrow> bool" where
  "IsElevated token info = (if \<not> token then False else (case info of None \<Rightarrow> 0 | Some e \<Rightarrow> e) = 1)"

definition lpParameters :: "wstring option \<Rightarrow> wstring option" where
  "lpParameters commandLine =
     (let parameters = CurrentCommandLineParameters commandLine in if parameters = [] then None else Some parameters)"

definition EnsureElevatedOrRelaunch :: "bool \<Rightarrow> wstring option \<Rightarrow> wstring option \<Rightarrow> bool \<times> os_call list" where
  "EnsureElevatedOrRelaunch elevated path commandLine =
     (if elevated then (True, [])
      else case path of
        None \<Rightarrow> (False, [])
      | Some file \<Rightarrow> (False, [ShellExecute ''runas'' file (lpParameters commandLine)]))"

text \<open>The flag says whether the process exits here.\<close>

definition RestartApplication :: "bool \<Rightarrow> wstring option \<Rightarrow> wstring option \<Rightarrow> bool \<times> os_call list" where
  "RestartApplication requestElevation path commandLine =
     (case path of
        None \<Rightarrow> (False, [])
      | Some file \<Rightarrow> (True, [ShellExecute (if requestElevation then ''runas'' else ''open'') file (lpParameters commandLine)]))"


section \<open>Firewall\<close>

text \<open>\<open>answer\<close>: the exit code of \<^verbatim>\<open>netsh\<close>, or \<open>None\<close> when it cannot be started.\<close>

definition runNetsh :: "(string \<Rightarrow> nat option) \<Rightarrow> string \<Rightarrow> bool \<times> os_call list" where
  "runNetsh answer args =
     (let command = ''netsh advfirewall firewall '' @ args
      in case answer command of None \<Rightarrow> (False, []) | Some code \<Rightarrow> (code = 0, [Netsh command]))"

definition in_quotes :: "string \<Rightarrow> string" where
  "in_quotes s = CHR 0x22 # s @ [CHR 0x22]"

definition AllowApplication :: "string \<Rightarrow> string \<Rightarrow> bool \<Rightarrow> (string \<Rightarrow> nat option) \<Rightarrow> bool \<times> os_call list" where
  "AllowApplication appPath ruleBaseName exists answer =
     (if appPath = [] \<or> ruleBaseName = [] then (False, [])
      else if \<not> exists then (False, [])
      else
        let inbound = ruleBaseName @ '' (Inbound)''; outbound = ruleBaseName @ '' (Outbound)'';
            (_, c1) = runNetsh answer (''delete rule name='' @ in_quotes inbound);
            (_, c2) = runNetsh answer (''delete rule name='' @ in_quotes outbound);
            (inOk, c3) = runNetsh answer (''add rule name='' @ in_quotes inbound @ '' dir=in action=allow program='' @ in_quotes appPath @ '' enable=yes'');
            (outOk, c4) = runNetsh answer (''add rule name='' @ in_quotes outbound @ '' dir=out action=allow program='' @ in_quotes appPath @ '' enable=yes'')
        in (inOk \<and> outOk, c1 @ c2 @ c3 @ c4))"


section \<open>Properties\<close>

lemma takeWhile_app: "\<forall>x \<in> set xs. P x \<Longrightarrow> takeWhile P (xs @ ys) = xs @ takeWhile P ys"
  by (induction xs) auto

lemma dropWhile_app: "\<forall>x \<in> set xs. P x \<Longrightarrow> dropWhile P (xs @ ys) = dropWhile P ys"
  by (induction xs) auto

lemma after_blanks:
  "\<forall>c \<in> set gap. c = W_SPACE \<or> c = W_TAB \<Longrightarrow> args = [] \<or> hd args \<noteq> W_SPACE \<and> hd args \<noteq> W_TAB \<Longrightarrow>
   dropWhile (\<lambda>c. c = W_SPACE \<or> c = W_TAB) (gap @ args) = args"
  by (cases args) (auto simp: dropWhile_app)

text \<open>A restarted process gets the arguments of this one: from a command line that names the program, in quotes or
  as one word, the restart passes exactly what follows it and the blanks behind it, up to the terminating NUL.\<close>

theorem restart_keeps_arguments:
  assumes "\<forall>c \<in> set gap. c = W_SPACE \<or> c = W_TAB" and "args \<noteq> []" and "hd args \<noteq> W_SPACE \<and> hd args \<noteq> W_TAB"
    and "W_NUL \<notin> set program" and "W_NUL \<notin> set args" and "W_QUOTE \<notin> set program"
    and "W_SPACE \<notin> set program" and "W_TAB \<notin> set program" and "gap \<noteq> []" and "program \<noteq> []"
  shows "snd (RestartApplication False (Some file) (Some (W_QUOTE # program @ W_QUOTE # gap @ args @ W_NUL # memory))) =
      [ShellExecute ''open'' file (Some args)] \<and>
    snd (RestartApplication False (Some file) (Some (program @ gap @ args @ W_NUL # memory))) = [ShellExecute ''open'' file (Some args)]"
proof -
  have nul: "\<forall>c \<in> set (program @ gap @ args). c \<noteq> W_NUL" using assms(1,4,5) by auto
  then have q: "takeWhile (\<lambda>c. c \<noteq> W_NUL) (program @ W_QUOTE # gap @ args @ W_NUL # memory) = program @ W_QUOTE # gap @ args"
    and u: "takeWhile (\<lambda>c. c \<noteq> W_NUL) (program @ gap @ args @ W_NUL # memory) = program @ gap @ args"
    by (simp_all add: takeWhile_app takeWhile_tail)
  have blank: "dropWhile (\<lambda>c. c = W_SPACE \<or> c = W_TAB) (gap @ args) = args" using after_blanks [OF assms(1)] assms(3) by blast
  have d: "dropWhile (\<lambda>c. c \<noteq> W_QUOTE) (program @ W_QUOTE # gap @ args) = W_QUOTE # gap @ args"
    using assms(6) by (subst dropWhile_app) auto
  have w: "dropWhile (\<lambda>c. c \<noteq> W_SPACE \<and> c \<noteq> W_TAB) (program @ gap @ args) = gap @ args"
    using assms(1,7,8,9) by (subst dropWhile_app) (auto simp: neq_Nil_conv)
  obtain c rest where p: "program = c # rest" "c \<noteq> W_QUOTE" using assms(6,10) by (cases program) auto
  have "CurrentCommandLineParameters (Some (W_QUOTE # program @ W_QUOTE # gap @ args @ W_NUL # memory)) = args"
    by (simp add: CurrentCommandLineParameters_def q d blank Let_def)
  moreover have "CurrentCommandLineParameters (Some (program @ gap @ args @ W_NUL # memory)) = args"
    unfolding CurrentCommandLineParameters_def option.case Let_def u using w blank p by (simp del: dropWhile.simps)
  ultimately show ?thesis using assms(2) by (simp add: RestartApplication_def lpParameters_def Let_def)
qed

theorem restart_keeps_arguments_witness:
  "snd (RestartApplication False (Some [99]) (Some (34 # [97] @ 34 # [32, 9] @ [45, 120] @ 0 # [7]))) = [ShellExecute ''open'' [99] (Some [45, 120])]"
  using restart_keeps_arguments [of "[32, 9]" "[45, 120]" "[97]" "[99]" "[7]"] by simp

text \<open>The guard gives back what it took: the program counts as running elsewhere exactly when the mutex could not be
  acquired, the handle is closed once on every path, and the mutex is released exactly when it was owned.\<close>

theorem instance_guard_balanced:
  "case new_SingleInstanceGuard created exists of
     (calls, g) \<Rightarrow> case ReleaseHandle g of
       (calls', g') \<Rightarrow>
         (gd_isRunning g \<longleftrightarrow> \<not> (created \<and> \<not> exists)) \<and> \<not> gd_mutex g' \<and>
         length (filter (\<lambda>c. c = CloseMutexHandle) (calls @ calls')) = (if created then 1 else 0) \<and>
         length (filter (\<lambda>c. c = ReleaseMutex) (calls @ calls')) = (if created \<and> \<not> exists then 1 else 0)"
  by (cases created; cases exists) (simp_all add: new_SingleInstanceGuard_def TryAcquire_def ReleaseHandle_def)

end
