(* ===== verification/Socks5Proxy.thy ===== *)
theory Socks5Proxy
  imports ProxyServer FriendlyNameResolver NetworkMonitoring Application
begin

text \<open>
  The program as a whole, \<^verbatim>\<open>Socks5Proxy.cpp\<close>: from the command line and the configuration file to the running server and its
  monitor, and back to the exit code or a restart.

  \<open>main_env\<close> holds what the program asks of its surroundings.  The result is the exit code and the list of what was done, in
  order; log lines below the error level are left out.  The server is the model of \<open>ProxyServer\<close>, given the configuration that
  \<open>IsValid\<close> has put into force; the monitor runs on the same configuration, in the rounds before the stop flag is set.
\<close>

datatype fatal = FatalConfig | FatalSetup

record main_env =
  me_wsaStartup :: bool
  me_args :: "string list"
  me_is_absolute :: "string \<Rightarrow> bool"
  me_exists :: "string \<Rightarrow> bool"
  me_in_cwd :: "string \<Rightarrow> string"
  me_beside_exe :: "string \<Rightarrow> string"
  me_file :: "string \<Rightarrow> string option"
  me_ws :: winsock
  me_probe :: dns_probe
  me_stop :: "nat \<Rightarrow> bool"
  me_elevated :: bool
  me_path :: "wstring option"
  me_commandLine :: "wstring option"
  me_mutex :: "bool \<times> bool"
  me_exePath :: string
  me_stem :: string
  me_netsh :: "string \<Rightarrow> nat option"
  me_server :: server_env
  me_rounds :: "(winsock \<times> winsock) list"
  me_standalone :: bool
  me_fatal :: "fatal option"

datatype main_act =
    AError string
  | APause
  | ASetHandler bool
  | ADelay int
  | AOs os_call
  | AAlreadyRunning
  | AServerStart netcfg "string option"
  | AMonitorJoined
  | ACountdown nat
  | AServerDestroyed
  | AWSACleanup

text \<open>\<^verbatim>\<open>ConsoleHandler\<close>: which control events set the stop flag (0 is \<^verbatim>\<open>CTRL_C_EVENT\<close>, 1 \<^verbatim>\<open>CTRL_BREAK_EVENT\<close>, 2 \<^verbatim>\<open>CTRL_CLOSE_EVENT\<close>).\<close>

definition ConsoleHandler :: "nat \<Rightarrow> bool \<Rightarrow> bool \<times> bool" where
  "ConsoleHandler type g_stop = (if type = 0 \<or> type = 1 \<or> type = 2 then (True, True) else (False, g_stop))"

definition PauseOnErrorIfStandaloneConsole :: "main_env \<Rightarrow> main_act list" where
  "PauseOnErrorIfStandaloneConsole e = (if me_standalone e then [APause] else [])"

text \<open>The loop over the arguments behind the program name.\<close>

fun config_arg :: "string list \<Rightarrow> string \<Rightarrow> string" where
  "config_arg (x # y # rest) configPath = (if x = ''--config'' then config_arg rest y else config_arg (y # rest) configPath)"
| "config_arg _ configPath = configPath"

definition config_path :: "main_env \<Rightarrow> string" where
  "config_path e =
     (let configPath = config_arg (me_args e) ''proxy.json''
      in if me_is_absolute e configPath then configPath
         else if me_exists e (me_in_cwd e configPath) then me_in_cwd e configPath
         else if me_exists e (me_beside_exe e configPath) then me_beside_exe e configPath
         else configPath)"

text \<open>From the start of the monitor thread to the end of the scope: whether to restart, and what was done.\<close>

definition serve :: "main_env \<Rightarrow> netcfg \<Rightarrow> bool \<times> main_act list" where
  "serve e n =
     (let (started, v) = ProxyServer_Start ((me_server e)\<lparr>ve_cfg := n\<rparr>) new_ProxyServer;
          (gaveUp, m) = Monitoring_Run (ListenIPAddress n) (OutputInterfaceIP n) (me_rounds e) new_NetworkMonitoring
      in case started of
           Some what \<Rightarrow>
             let (m1, ticks) = PrepareRestartAfterDelay StartupRestartDelaySec (\<lambda>i. True) m
             in (nm_restartRequested m1,
                 [AServerStart n started, AMonitorJoined, AError (''Failed to start proxy server: '' @ what), ACountdown ticks, AServerDestroyed])
         | None \<Rightarrow> (nm_restartRequested m, [AServerStart n started, AMonitorJoined, AServerDestroyed]))"

text \<open>How the \<^verbatim>\<open>try\<close> block ends: by an early return, or by falling through with an exit code and the restart flag.\<close>

datatype body_end = Returned int | Fell int bool

definition set_up :: "main_env \<Rightarrow> ProxyConfig \<Rightarrow> netcfg \<Rightarrow> body_end \<times> main_act list" where
  "set_up e c n =
     (let delay = (if pc_RunDelayS c > 0 then [ADelay (pc_RunDelayS c)] else []);
          (elevated, calls) = EnsureElevatedOrRelaunch (me_elevated e) (me_path e) (me_commandLine e);
          a1 = delay @ map AOs calls
      in if \<not> elevated
         then (Returned 3, a1 @ [AError ''Application requires administrator/root privileges to run.'', AWSACleanup])
         else
           let (gcalls, g) = new_SingleInstanceGuard (fst (me_mutex e)) (snd (me_mutex e));
               release = map AOs (fst (ReleaseHandle g));
               a2 = a1 @ map AOs gcalls
           in if gd_isRunning g then (Returned 1, a2 @ [AAlreadyRunning, AWSACleanup] @ release)
              else if me_fatal e = Some FatalSetup
              then (Fell 5 False, a2 @ release @ [AError ''Fatal error occurred''])
              else
                let (allowed, fcalls) = AllowApplication (me_exePath e) (me_stem e) (me_exists e (me_exePath e)) (me_netsh e);
                    a3 = a2 @ map AOs fcalls @ (if allowed then [] else [AError ''Failed to apply Windows Firewall rules for this application. The application may not work correctly without network access.'']) @ [ASetHandler True];
                    (restart, acts) = serve e n
                in (Fell 0 restart, a3 @ acts @ release))"

definition body :: "main_env \<Rightarrow> body_end \<times> main_act list" where
  "body e =
     (if me_fatal e = Some FatalConfig then (Fell 5 False, [AError ''Fatal error occurred''])
      else
        let path = config_path e
        in case LoadFromFile path (me_file e path) default_ProxyConfig [] of
             (False, err, c) \<Rightarrow> (Returned 4, [AError err] @ PauseOnErrorIfStandaloneConsole e @ [AWSACleanup])
           | (True, err, c) \<Rightarrow>
               (case IsValid (me_ws e) (me_probe e) c err default_netcfg of
                  (False, err', n) \<Rightarrow>
                    let (m, ticks) = PrepareRestartAfterDelay StartupRestartDelaySec (me_stop e) new_NetworkMonitoring
                    in (Fell 0 (nm_restartRequested m),
                        [AError (''Invalid proxy configuration: '' @ err'), ASetHandler True, ACountdown ticks])
                | (True, err', n) \<Rightarrow> set_up e c n))"

definition main :: "main_env \<Rightarrow> int \<times> main_act list" where
  "main e =
     (if \<not> me_wsaStartup e then (5, [])
      else case body e of
        (Returned code, acts) \<Rightarrow> (code, acts)
      | (Fell exitCode restartAfterCleanup, acts) \<Rightarrow>
          let a1 = acts @ [ASetHandler False, AWSACleanup];
              (exited, calls) = (if restartAfterCleanup then RestartApplication False (me_path e) (me_commandLine e) else (False, []));
              a2 = a1 @ map AOs calls
          in if exited then (0, a2)
             else (exitCode, a2 @ (if exitCode \<noteq> 0 then PauseOnErrorIfStandaloneConsole e else [])))"

section \<open>What main does\<close>

text \<open>The acts that matter outside: the start of the server, the countdown, the clean-up of Winsock, and the restart.\<close>

fun core_act :: "main_act \<Rightarrow> bool" where
  "core_act AWSACleanup = True"
| "core_act (AServerStart n r) = True"
| "core_act (ACountdown ticks) = True"
| "core_act (AOs (ShellExecute verb file params)) = (verb = ''open'')"
| "core_act _ = False"

definition core :: "main_act list \<Rightarrow> main_act list" where
  "core acts = filter core_act acts"

definition restart_acts :: "main_env \<Rightarrow> main_act list" where
  "restart_acts e = (case me_path e of None \<Rightarrow> [] | Some file \<Rightarrow> [AOs (ShellExecute ''open'' file (lpParameters (me_commandLine e)))])"

definition start_acts :: "main_env \<Rightarrow> netcfg \<Rightarrow> main_act list" where
  "start_acts e n =
     (case fst (ProxyServer_Start ((me_server e)\<lparr>ve_cfg := n\<rparr>) new_ProxyServer) of
        None \<Rightarrow> [AServerStart n None]
      | Some what \<Rightarrow> [AServerStart n (Some what), ACountdown 0])"

text \<open>The specification: who decides what, in which order.\<close>

definition main_spec :: "main_env \<Rightarrow> int \<times> main_act list" where
  "main_spec e =
     (if \<not> me_wsaStartup e then (5, [])
      else if me_fatal e = Some FatalConfig then (5, [AWSACleanup])
      else case LoadFromFile (config_path e) (me_file e (config_path e)) default_ProxyConfig [] of
        (False, err, c) \<Rightarrow> (4, [AWSACleanup])
      | (True, err, c) \<Rightarrow>
          (case IsValid (me_ws e) (me_probe e) c err default_netcfg of
             (False, err', n) \<Rightarrow>
               (0, ACountdown (snd (PrepareRestartAfterDelay StartupRestartDelaySec (me_stop e) new_NetworkMonitoring)) # AWSACleanup #
                     (if me_stop e 330 then [] else restart_acts e))
           | (True, err', n) \<Rightarrow>
               if \<not> me_elevated e then (3, [AWSACleanup])
               else if me_mutex e \<noteq> (True, False) then (1, [AWSACleanup])
               else if me_fatal e = Some FatalSetup then (5, [AWSACleanup])
               else (0, start_acts e n @ AWSACleanup #
                       (if outage_in (ListenIPAddress n) (OutputInterfaceIP n) (me_rounds e) then restart_acts e else []))))"

lemma core_append [simp]: "core (xs @ ys) = core xs @ core ys" and core_Nil [simp]: "core [] = []"
  and core_Cons [simp]: "core (x # xs) = (if core_act x then x # core xs else core xs)"
  by (simp_all add: core_def)

lemma core_pause [simp]: "core (PauseOnErrorIfStandaloneConsole e) = []"
  by (simp add: PauseOnErrorIfStandaloneConsole_def)

lemma core_elevate [simp]: "core (map AOs (snd (EnsureElevatedOrRelaunch el path cl))) = []"
  by (simp add: EnsureElevatedOrRelaunch_def split: option.split)

lemma core_firewall [simp]: "core (map AOs (snd (AllowApplication p r ex answer))) = []"
  by (auto simp: AllowApplication_def runNetsh_def Let_def split: option.split)

lemma core_guard [simp]:
  "core (map AOs (fst (new_SingleInstanceGuard cr ex))) = []" "core (map AOs (fst (ReleaseHandle g))) = []"
  by (simp_all add: new_SingleInstanceGuard_def TryAcquire_def ReleaseHandle_def)

lemma core_restart [simp]: "core (map AOs (snd (RestartApplication False (me_path e) (me_commandLine e)))) = restart_acts e"
  by (simp add: RestartApplication_def restart_acts_def split: option.split)

lemma guard_running [simp]: "gd_isRunning (snd (new_SingleInstanceGuard (fst m) (snd m))) \<longleftrightarrow> m \<noteq> (True, False)"
  by (cases m) (auto simp: new_SingleInstanceGuard_def TryAcquire_def)

lemma guard_acquired [simp]: "\<not> gd_isRunning (snd (new_SingleInstanceGuard True False))"
  by (simp add: new_SingleInstanceGuard_def TryAcquire_def)

lemma elevated_iff [simp]: "fst (EnsureElevatedOrRelaunch el path cl) = el"
  by (simp add: EnsureElevatedOrRelaunch_def split: option.split)

lemma countdown_stopped: "PrepareRestartAfterDelay StartupRestartDelaySec (\<lambda>i. True) m = (m, 0)"
  by (simp add: PrepareRestartAfterDelay_def StartupRestartDelaySec_def numeral_nat)

lemma countdown_30:
  "flag_stays stop \<Longrightarrow> nm_restartRequested (fst (PrepareRestartAfterDelay StartupRestartDelaySec stop new_NetworkMonitoring)) \<longleftrightarrow> \<not> stop 330"
  using countdown_stays [of stop 30 0 0 new_NetworkMonitoring, OF _ surjective_pairing]
  by (simp add: PrepareRestartAfterDelay_def StartupRestartDelaySec_def) (simp add: new_NetworkMonitoring_def)

lemma monitor_gives_up: "nm_restartRequested (snd (Monitoring_Run la oa ws new_NetworkMonitoring)) \<longleftrightarrow> outage_in la oa ws"
proof -
  have "outage la oa 0 ws \<Longrightarrow> outage_in la oa ws" by (metis append_Nil outage_in_def)
  then show ?thesis using run_outage [of new_NetworkMonitoring 0 la oa ws] by (auto simp: new_NetworkMonitoring_def)
qed

lemma serve_outcome:
  "fst (serve e n) \<longleftrightarrow> outage_in (ListenIPAddress n) (OutputInterfaceIP n) (me_rounds e)"
  "core (snd (serve e n)) = start_acts e n"
  by (simp_all add: serve_def start_acts_def Let_def split_def countdown_stopped monitor_gives_up split: option.split)

lemma set_up_outcome:
  "fst (set_up e c n) =
     (if \<not> me_elevated e then Returned 3 else if me_mutex e \<noteq> (True, False) then Returned 1
      else if me_fatal e = Some FatalSetup then Fell 5 False else Fell 0 (fst (serve e n)))"
  "core (snd (set_up e c n)) =
     (if \<not> me_elevated e \<or> me_mutex e \<noteq> (True, False) then [AWSACleanup]
      else if me_fatal e = Some FatalSetup then [] else core (snd (serve e n)))"
  by (simp_all add: set_up_def Let_def split_def)

lemma main_of_body:
  "me_wsaStartup e \<Longrightarrow> body e = (b, acts) \<Longrightarrow>
   (fst (main e), core (snd (main e))) =
     (case b of Returned code \<Rightarrow> (code, core acts)
      | Fell code restart \<Rightarrow> (if restart \<and> me_path e \<noteq> None then 0 else code, core acts @ [AWSACleanup] @ (if restart then restart_acts e else [])))"
  by (cases b) (auto simp: main_def Let_def split_def restart_acts_def RestartApplication_def split: option.split)

lemma spec_of_main:
  assumes "flag_stays (me_stop e)"
  shows "(fst (main e), core (snd (main e))) = main_spec e"
proof (cases "me_wsaStartup e \<and> me_fatal e \<noteq> Some FatalConfig")
  case False
  then show ?thesis by (auto simp: main_spec_def main_def body_def)
next
  case True
  obtain b acts where b: "body e = (b, acts)" by fastforce
  obtain ok err c where l: "LoadFromFile (config_path e) (me_file e (config_path e)) default_ProxyConfig [] = (ok, err, c)"
    by (metis prod_cases3)
  obtain valid err' n where v: "IsValid (me_ws e) (me_probe e) c err default_netcfg = (valid, err', n)" by (metis prod_cases3)
  note m = main_of_body [OF conjunct1 [OF True] b]
  show ?thesis
  proof (cases ok)
    case False
    then have "b = Returned 4" "core acts = [AWSACleanup]" using b True by (auto simp: body_def Let_def l)
    then show ?thesis unfolding m main_spec_def using True by (simp add: l False)
  next
    case ok: True
    show ?thesis
    proof (cases valid)
      case False
      then have "b = Fell 0 (\<not> me_stop e 330)"
        "core acts = [ACountdown (snd (PrepareRestartAfterDelay StartupRestartDelaySec (me_stop e) new_NetworkMonitoring))]"
        using b True countdown_30 [OF assms] by (auto simp: body_def Let_def l v ok split_def)
      then show ?thesis unfolding m main_spec_def using True by (simp add: l v ok False)
    next
      case valid: True
      then have "b = fst (set_up e c n)" "acts = snd (set_up e c n)" using b True by (auto simp: body_def Let_def l v ok)
      then show ?thesis unfolding m main_spec_def using True by (simp add: l v ok valid set_up_outcome serve_outcome)
    qed
  qed
qed

text \<open>C12.  The program as a whole does what its specification says, whatever its surroundings answer: the exit code, and, in order, the
  start of the server, exactly one clean-up of Winsock, and the restart after it.  In particular the server is started only with
  a configuration that was read and found valid, by an elevated process that is the only instance.\<close>

theorem main_meets_spec:
  assumes "flag_stays (me_stop e)"
  shows "(fst (main e), core (snd (main e))) = main_spec e \<and>
    (me_wsaStartup e \<longrightarrow> length (filter (\<lambda>a. a = AWSACleanup) (snd (main e))) = 1)"
proof -
  have "length (filter (\<lambda>a. a = AWSACleanup) (snd (main e))) = length (filter (\<lambda>a. a = AWSACleanup) (core (snd (main e))))"
    by (simp add: core_def) (metis (mono_tags, lifting) core_act.simps(1) filter_cong)
  moreover have "length (filter (\<lambda>a. a = AWSACleanup) (restart_acts e)) = 0" by (simp add: restart_acts_def split: option.split)
  moreover have "length (filter (\<lambda>a. a = AWSACleanup) (start_acts e n)) = 0" for n by (simp add: start_acts_def split: option.split)
  ultimately show ?thesis
    using spec_of_main [OF assms] by (auto simp: main_spec_def split: if_splits prod.splits bool.splits)
qed

lemma started_in_spec:
  "flag_stays (me_stop e) \<Longrightarrow> AServerStart n r \<in> set (snd (main e)) \<Longrightarrow> AServerStart n r \<in> set (snd (main_spec e))"
proof -
  assume "flag_stays (me_stop e)" and m: "AServerStart n r \<in> set (snd (main e))"
  then have "core (snd (main e)) = snd (main_spec e)" using spec_of_main [of e] by (metis snd_conv)
  moreover have "AServerStart n r \<in> set (core (snd (main e)))" using m by (simp add: core_def)
  ultimately show ?thesis by metis
qed

lemma start_not_restart [simp]: "AServerStart n r \<notin> set (restart_acts e)"
  by (simp add: restart_acts_def split: option.split)

lemma start_acts_mem: "AServerStart n r \<in> set (start_acts e n') \<Longrightarrow> n' = n"
  by (auto simp: start_acts_def split: option.splits)

text \<open>C18.  The server only ever runs with a configuration in the documented ranges, read from the file and accepted, in an elevated
  process that holds the instance lock.\<close>

theorem main_serves_only_valid_config:
  assumes "flag_stays (me_stop e)" and "AServerStart n r \<in> set (snd (main e))"
  shows "netcfg_ok n \<and> me_elevated e \<and> me_mutex e = (True, False) \<and>
    (\<exists>err c err'. LoadFromFile (config_path e) (me_file e (config_path e)) default_ProxyConfig [] = (True, err, c) \<and>
       IsValid (me_ws e) (me_probe e) c err default_netcfg = (True, err', n))"
proof -
  note s = started_in_spec [OF assms(1,2)]
  obtain ok err c where l: "LoadFromFile (config_path e) (me_file e (config_path e)) default_ProxyConfig [] = (ok, err, c)"
    by (metis prod_cases3)
  obtain valid err' n' where v: "IsValid (me_ws e) (me_probe e) c err default_netcfg = (valid, err', n')" by (metis prod_cases3)
  have "ok" "valid" "n' = n" "me_elevated e" "me_mutex e = (True, False)"
    using s by (cases ok; cases valid; auto simp: main_spec_def l v split: if_splits dest: start_acts_mem)+
  moreover from this have "netcfg_ok n" using IsValid_ok [OF default_netcfg_ok v] by simp
  ultimately show ?thesis using l v by simp
qed

text \<open>C40.  When the server cannot be started the program means to restart after 30 seconds but never does: it sets the stop flag
  to end the monitor, and the countdown, which watches the same flag, returns at once.  Only an outage seen by the monitor
  before brings the program back.\<close>

theorem main_failed_start_never_restarts:
  assumes "flag_stays (me_stop e)" and "AServerStart n (Some what) \<in> set (snd (main e))"
    and "\<not> outage_in (ListenIPAddress n) (OutputInterfaceIP n) (me_rounds e)"
  shows "fst (main e) = 0 \<and> AOs (ShellExecute ''open'' file params) \<notin> set (snd (main e)) \<and> ACountdown 0 \<in> set (snd (main e))"
proof -
  note s = started_in_spec [OF assms(1,2)]
  have "start_acts e n' = [AServerStart n (Some what), ACountdown 0]" if "AServerStart n (Some what) \<in> set (start_acts e n')" for n'
    using that by (auto simp: start_acts_def split: option.splits)
  then have "main_spec e = (0, [AServerStart n (Some what), ACountdown 0, AWSACleanup])"
    using s assms(3) start_acts_mem by (fastforce simp: main_spec_def split: if_splits prod.splits bool.splits)
  then have c: "fst (main e) = 0" "core (snd (main e)) = [AServerStart n (Some what), ACountdown 0, AWSACleanup]"
    using spec_of_main [OF assms(1)] by simp_all
  then have "a \<in> set (snd (main e)) \<and> core_act a \<longleftrightarrow> a \<in> {AServerStart n (Some what), ACountdown 0, AWSACleanup}" for a
    unfolding core_def by (metis (mono_tags, lifting) insert_iff empty_iff list.set mem_Collect_eq set_filter)
  from this [of "AOs (ShellExecute ''open'' file params)"] this [of "ACountdown 0"] show ?thesis using c(1) by auto
qed

section \<open>A concrete program run\<close>

text \<open>A minimal configuration file, an elevated lone process, and a server whose IOCP service cannot be started.\<close>

definition sample_json :: string where
  "sample_json = [CHR 0x22] @ ''ListenIPAddress'' @ [CHR 0x22, CHR '':'', CHR 0x22] @ ''4aaaaaaaa'' @ [CHR 0x22]"

definition sample_main :: main_env where
  "sample_main =
     \<lparr>me_wsaStartup = True, me_args = [], me_is_absolute = (\<lambda>p. True), me_exists = (\<lambda>p. True), me_in_cwd = id, me_beside_exe = id,
      me_file = (\<lambda>p. Some sample_json), me_ws = sample_ws, me_probe = \<lparr>iocp_starts = True, resolver_starts = (\<lambda>c. True), attempt_answer = (\<lambda>c i. Some True)\<rparr>,
      me_stop = (\<lambda>n. False), me_elevated = True, me_path = Some [99], me_commandLine = None, me_mutex = (True, False), me_exePath = ''p.exe'', me_stem = ''p'',
      me_netsh = (\<lambda>c. Some 0), me_server = sample_server_env\<lparr>ve_ok := (\<lambda>n. False)\<rparr>, me_rounds = [], me_standalone = False, me_fatal = None\<rparr>"

definition sample_cfg :: netcfg where
  "sample_cfg = snd (snd (IsValid sample_ws (me_probe sample_main)
     (snd (snd (LoadFromFile ''proxy.json'' (Some sample_json) default_ProxyConfig []))) [] default_netcfg))"

lemma sample_load: "fst (LoadFromFile ''proxy.json'' (Some sample_json) default_ProxyConfig []) \<and>
    fst (snd (LoadFromFile ''proxy.json'' (Some sample_json) default_ProxyConfig [])) = []"
  by code_simp

lemma sample_valid: "fst (IsValid sample_ws (me_probe sample_main) (snd (snd (LoadFromFile ''proxy.json'' (Some sample_json) default_ProxyConfig []))) [] default_netcfg)"
  by code_simp

lemma sample_main_simps [simp]:
  "me_wsaStartup sample_main" "me_fatal sample_main = None" "config_path sample_main = ''proxy.json''" "me_file sample_main p = Some sample_json"
  "me_ws sample_main = sample_ws" "me_elevated sample_main" "me_mutex sample_main = (True, False)" "me_rounds sample_main = []"
  "flag_stays (me_stop sample_main)" "fst (ProxyServer_Start ((me_server sample_main)\<lparr>ve_cfg := n\<rparr>) v) = Some ''Failed to start IOCP service''"
  by (simp_all add: sample_main_def config_path_def flag_stays_def ProxyServer_Start_def)

lemma sample_main_spec:
  "main_spec sample_main = (0, [AServerStart sample_cfg (Some ''Failed to start IOCP service''), ACountdown 0, AWSACleanup])"
proof -
  let ?l = "LoadFromFile ''proxy.json'' (Some sample_json) default_ProxyConfig []"
  obtain c where l: "?l = (True, [], c)" using sample_load by (cases ?l) auto
  obtain err where v: "IsValid sample_ws (me_probe sample_main) c [] default_netcfg = (True, err, sample_cfg)"
    using sample_valid unfolding sample_cfg_def l by (cases "IsValid sample_ws (me_probe sample_main) c [] default_netcfg") simp
  show ?thesis by (simp add: main_spec_def l v start_acts_def)
qed

lemma sample_started: "AServerStart sample_cfg (Some ''Failed to start IOCP service'') \<in> set (snd (main sample_main))"
proof -
  have "core (snd (main sample_main)) = snd (main_spec sample_main)" using spec_of_main [of sample_main] by (metis sample_main_simps(9) snd_conv)
  then have "AServerStart sample_cfg (Some ''Failed to start IOCP service'') \<in> set (core (snd (main sample_main)))" by (simp add: sample_main_spec)
  then show ?thesis by (simp add: core_def)
qed

theorem main_meets_spec_witness:
  "fst (main sample_main) = 0 \<and> length (filter (\<lambda>a. a = AWSACleanup) (snd (main sample_main))) = 1"
  using main_meets_spec [of sample_main] by (auto simp: sample_main_spec)

theorem main_serves_only_valid_config_witness: "netcfg_ok sample_cfg"
  using main_serves_only_valid_config [OF sample_main_simps(9) sample_started] by blast

theorem main_failed_start_never_restarts_witness:
  "AOs (ShellExecute ''open'' [99] None) \<notin> set (snd (main sample_main)) \<and> ACountdown 0 \<in> set (snd (main sample_main))"
  using main_failed_start_never_restarts [OF sample_main_simps(9) sample_started, of "[99]" None] by simp

end
