(* ===== verification/Resolution.thy ===== *)
theory Resolution
  imports SessionAuth DnsLedger ProxyServer
begin

text \<open>
  The proxy as one system: the server with its sessions, and the resolver they share.  A session that has to resolve a name calls
  \<^verbatim>\<open>DnsResolver::ResolveAsync\<close> with a callback; the resolver calls it once, at once or later, on whatever thread completes the query; the
  callback puts the answer into the session and posts a completion.  The resolver also serves the UDP relays.

  The callback of session \<open>i\<close> is the number \<open>2 * i\<close>, that of relay \<open>j\<close> is \<open>2 * j + 1\<close>.  Asking is the last thing a handler does, so
  the question is submitted when the handler has ended; the callback takes the (recursive) lock of the session.
\<close>


section \<open>A session asks before it waits\<close>

definition asks :: "session \<Rightarrow> bool" where
  "asks s \<longleftrightarrow> (\<exists>d. SResolve d \<in> set (ss_out s))"

lemma StartConnect_asks:
  "ss_state s = Request \<Longrightarrow> ss_state (snd (StartConnect e a p s)) = Resolving \<Longrightarrow>
   fst (StartConnect e a p s) \<and> asks (snd (StartConnect e a p s))"
  using ConnectToHost_states(1) [of s e a a p] by (auto simp: StartConnect_def asks_def session_emit_def split: if_splits)

lemma Request_asks:
  assumes "ss_state s = Request" and "ss_state (snd (ProcessRequestBuffer e s)) = Resolving"
  shows "fst (ProcessRequestBuffer e s) \<and> asks (snd (ProcessRequestBuffer e s))"
proof -
  have udp: "ss_state t = Request \<Longrightarrow> ss_state (StartUdpAssociate e t) \<noteq> Resolving" for t using StartUdp_states(1) [of t e] by auto
  show ?thesis
    using assms udp StartConnect_asks
    by (auto simp: ProcessRequestBuffer_def Let_def split_def state_FailAndClose split: request_parse.splits if_splits)
qed

lemma path_to_Resolving: "session_path st Resolving \<Longrightarrow> st = Resolving \<or> session_path st Request"
  by (erule rtranclp.cases) (auto simp: session_next_simps)

lemma path_to_Request: "session_path st Request \<Longrightarrow> protocol_state st"
  by (induction rule: converse_rtranclp_induct) (auto simp: protocol_state_def session_next_simps)

lemma process_asks:
  assumes "ss_state s \<noteq> Resolving" and "ss_state (snd (process_buffer e s)) = Resolving"
  shows "fst (process_buffer e s) \<and> asks (snd (process_buffer e s))"
proof (cases "ss_state s = Request")
  case True
  then show ?thesis using assms Request_asks [OF True] by (simp add: process_buffer_def)
next
  case False
  then have "ss_state (snd (process_buffer e s)) \<noteq> Resolving"
    using assms(1)
    by (cases "ss_state s")
      (auto simp: process_buffer_def ProcessHandshakeBuffer_def ProcessAuthBuffer_def ProcessGssapiAuthBuffer_def
        ProcessGssapiProtectBuffer_def Let_def split: prod.splits gss_read.splits option.splits if_splits)
  with assms(2) show ?thesis by simp
qed

lemma loop_asks:
  "ss_state s \<noteq> Resolving \<Longrightarrow> ss_state (snd (protocol_loop e s)) = Resolving \<Longrightarrow> asks (snd (protocol_loop e s))"
proof (induction e s rule: protocol_loop.induct)
  case (1 e s)
  obtain ok s1 where p: "process_buffer e s = (ok, s1)" by fastforce
  have step: "ss_state s1 = Resolving \<Longrightarrow> ok \<and> asks s1" using process_asks [OF 1(2), of e] p by simp
  have flush: "ss_state (RequestCloseAfterFlush s1) = ss_state s1" by (simp add: RequestCloseAfterFlush_def Let_def)
  have np: "\<not> protocol_state Resolving" "protocol_state (ss_state s1) \<Longrightarrow> ss_state s1 \<noteq> Resolving" by (auto simp: protocol_state_def)
  show ?case
    using 1(1) [OF _ p [symmetric]] 1(2,3) step flush np
    by (subst protocol_loop.simps, subst (asm) (4) protocol_loop.simps) (auto simp: p split: bool.splits if_splits)
qed

lemma ClientRecv_asks:
  assumes "ss_state s \<noteq> Resolving" and "ss_state (OnClientRecv e d err s) = Resolving"
  shows "asks (OnClientRecv e d err s)"
proof -
  define s1 where "s1 = (if protocol_state (ss_state s) then ArmIdleTimer e s else s)"
  define r where "r = protocol_loop e (s1\<lparr>ss_ingest := ss_ingest s1 @ d\<rparr>)"
  have s1: "ss_state s1 = ss_state s" by (simp add: s1_def)
  have loop: "ss_state (snd r) = Resolving \<Longrightarrow> asks (snd r)" unfolding r_def by (rule loop_asks) (simp_all add: s1 assms(1))
  have np: "\<not> protocol_state Resolving" by (simp add: protocol_state_def)
  have "OnClientRecv e d err s = snd r" if "ss_state (OnClientRecv e d err s) = Resolving"
    using that assms(1) s1 np
    unfolding OnClientRecv_def Let_def s1_def [symmetric] r_def [symmetric] by (auto simp: split_def split: if_splits)
  then show ?thesis using assms(2) loop by simp
qed

text \<open>Whatever completes, a session that goes into the resolving state has asked the resolver in the same handler.\<close>

lemma step_asks:
  assumes "ss_state s \<noteq> Resolving" and "ev \<noteq> SvStart" and "ss_state (OnIoCompleted e ev s) = Resolving"
  shows "asks (OnIoCompleted e ev s)"
proof (cases "\<exists>d err. ev = SvClientRecv d err")
  case True
  then obtain d err where "ev = SvClientRecv d err" by blast
  then show ?thesis
    using assms ClientRecv_asks [of "mod_io Client (\<lambda>io. io\<lparr>si_reading := False\<rparr>) s" e d err]
    by (auto simp: Let_def split: if_splits)
next
  case False
  then have q: "quiet s (OnIoCompleted e ev s)" using assms(2) by (intro quiet_step) auto
  have "\<not> protocol_state (ss_state s)" using q assms(1,3) by (auto simp: quiet_def split: if_splits)
  then have "session_path (ss_state s) Resolving" using q assms(3) by (simp add: quiet_def)
  with assms(1) have "session_path (ss_state s) Request" using path_to_Resolving by blast
  then show ?thesis using path_to_Request \<open>\<not> protocol_state (ss_state s)\<close> by blast
qed

lemma Start_not_Resolving: "ss_state s = Handshake \<Longrightarrow> ss_state (OnIoCompleted e SvStart s) = Handshake"
  by (auto simp: Session_Start_def Let_def split_def BeginClientRead_def split: bool.split prod.split)

text \<open>When the posted answer is handled the session stops waiting.\<close>

lemma posted_answer_ends_wait:
  assumes "\<not> ss_closed s" and "ss_state s = Resolving"
  shows "ss_closed (OnIoCompleted e SvDnsPosted s) \<or> ss_state (OnIoCompleted e SvDnsPosted s) \<in> {Connecting, Closing}"
proof -
  have c: "ss_state (snd (ConnectToHost e a ip p s)) \<in> {Connecting, Closing} \<or> ss_closed (snd (ConnectToHost e a ip p s))" for a ip p
    using assms by (auto simp: ConnectToHost_def Let_def split_def state_FailAndClose split: option.split)
  have f: "ss_state (RequestCloseAfterFlush t) = ss_state t" "ss_closed t \<Longrightarrow> ss_closed (RequestCloseAfterFlush t)" for t
    by (simp_all add: RequestCloseAfterFlush_def Let_def)
  show ?thesis
    using assms c f by (auto simp: OnDnsResolved_def Let_def split_def state_FailAndClose split: option.split)
qed

section \<open>The proxy\<close>

text \<open>The state is the server; the resolver is its field \<open>sv_dns\<close>.  What a resolver call puts into its output is handed out and
  cleared, as the server does with the output of its sessions.\<close>

fun answer_of :: "dns_act \<Rightarrow> (nat \<times> string option) list" where
  "answer_of (Deliver cb r) = [(cb, r)]"
| "answer_of _ = []"

fun question_of :: "server_act \<Rightarrow> (nat \<times> string) list" where
  "question_of (VSession i (SResolve d)) = [(i, d)]"
| "question_of _ = []"

definition hand_out :: "server_env \<Rightarrow> nat \<times> string option \<Rightarrow> server \<Rightarrow> server" where
  "hand_out e a v = (if even (fst a) then server_step e (VvSession (fst a div 2) (SvDnsAnswer (snd a))) v else v)"

definition dns_op :: "server_env \<Rightarrow> (resolver \<Rightarrow> resolver) \<Rightarrow> server \<Rightarrow> server" where
  "dns_op e f v =
     (case sv_dns v of
        None \<Rightarrow> v
      | Some r \<Rightarrow>
          let r1 = f (r\<lparr>r_out := []\<rparr>)
          in fold (hand_out e) (concat (map answer_of (r_out r1))) (v\<lparr>sv_dns := Some (r1\<lparr>r_out := []\<rparr>)\<rparr>))"

definition submit :: "server_env \<Rightarrow> int \<Rightarrow> nat \<times> string \<Rightarrow> server \<Rightarrow> server" where
  "submit e now q = dns_op e (ResolveAsync (ve_dns e) now (snd q) (Some (2 * fst q)) True)"

datatype proxy_event =
    PxServer int server_event
  | PxRelay int nat string
  | PxDns int dns_event

text \<open>What completes for a running resolver; it is started, asked and stopped by the server.\<close>

fun completion :: "dns_event \<Rightarrow> bool" where
  "completion EvStart = False"
| "completion EvStop = False"
| "completion (EvResolve d cb u) = False"
| "completion _ = True"

fun proxy_step :: "server_env \<Rightarrow> proxy_event \<Rightarrow> server \<Rightarrow> server" where
  "proxy_step e (PxServer now ev) v =
     (let v1 = server_step e ev v
      in fold (submit e now) (concat (map question_of (drop (length (sv_out v)) (sv_out v1)))) v1)"
| "proxy_step e (PxRelay now j d) v = dns_op e (ResolveAsync (ve_dns e) now d (Some (2 * j + 1)) True) v"
| "proxy_step e (PxDns now ev) v = (if completion ev then dns_op e (dns_step (ve_dns e) (now, ev)) v else v)"

definition proxy_run :: "server_env \<Rightarrow> proxy_event list \<Rightarrow> server \<Rightarrow> server" where
  "proxy_run e evs v = fold (proxy_step e) evs v"

text \<open>Only the resolver answers: the callback of a session is not an event of its own.\<close>

fun proxy_event_ok :: "proxy_event \<Rightarrow> bool" where
  "proxy_event_ok (PxServer now (VvSession i (SvDnsAnswer ip))) \<longleftrightarrow> False"
| "proxy_event_ok (PxServer now ev) \<longleftrightarrow> event_ok ev"
| "proxy_event_ok _ \<longleftrightarrow> True"


section \<open>Who waits, and for what\<close>

definition waiting :: "session \<Rightarrow> bool" where
  "waiting s \<longleftrightarrow> \<not> ss_closed s \<and> ss_state s = Resolving"

definition has_asked :: "nat \<Rightarrow> server_act list \<Rightarrow> bool" where
  "has_asked i as \<longleftrightarrow> (\<exists>d. VSession i (SResolve d) \<in> set as)"

definition posted :: "nat \<Rightarrow> server \<Rightarrow> bool" where
  "posted i v \<longleftrightarrow> VSession i SPostUser \<in> set (sv_out v)"

text \<open>What every operation of a running server keeps, since its output was \<open>b\<close>: the output grows, the resolver \<open>d\<close> is left alone, and a session
  that waits is one of \<open>W\<close>, or has asked since, or its answer is posted.\<close>

definition log_ok :: "nat set \<Rightarrow> server_act list \<Rightarrow> resolver option \<Rightarrow> server \<Rightarrow> bool" where
  "log_ok W b d v \<longleftrightarrow> (\<exists>as. sv_out v = b @ as \<and>
       (\<forall>i < length (sv_heap v). waiting (sv_heap v ! i) \<longrightarrow> i \<in> W \<or> has_asked i as \<or> posted i v)) \<and>
     sv_dns v = d \<and> \<not> sv_stopping v"

lemma log_okE:
  assumes "log_ok W b d v"
  obtains as where "sv_out v = b @ as" "sv_dns v = d" "\<not> sv_stopping v"
    "\<And>i. i < length (sv_heap v) \<Longrightarrow> waiting (sv_heap v ! i) \<Longrightarrow> i \<in> W \<or> has_asked i as \<or> posted i v"
  using assms by (auto simp: log_ok_def)

lemma has_asked_append: "has_asked i (as @ bs) \<longleftrightarrow> has_asked i as \<or> has_asked i bs"
  by (auto simp: has_asked_def)

lemma notify_frame [simp]:
  "sv_out (fold (notify_server i) as v) = sv_out v" "sv_dns (fold (notify_server i) as v) = sv_dns v"
proof -
  have one: "sv_out (notify_server i a v) = sv_out v \<and> sv_dns (notify_server i a v) = sv_dns v" for a v
    by (cases a) (auto simp: OnSessionClosed_def release_slot_def Let_def)
  then show "sv_out (fold (notify_server i) as v) = sv_out v" "sv_dns (fold (notify_server i) as v) = sv_dns v"
    by (induction as arbitrary: v) simp_all
qed

lemma put_out [simp]:
  "sv_out (put_session i s v) = sv_out v @ map (VSession i) (ss_out s)" "sv_dns (put_session i s v) = sv_dns v"
  "sv_stopping (put_session i s v) = sv_stopping v"
  by (simp_all add: put_session_def server_emit_def notify_stopping)

lemma log_ok_frame [simp]:
  "log_ok W b d (v\<lparr>sv_acceptor := a\<rparr>) = log_ok W b d v" "log_ok W b d (v\<lparr>sv_slots := sl\<rparr>) = log_ok W b d v"
  "log_ok W b d (RetainSession i v) = log_ok W b d v" "log_ok W b d (release_slot v) = log_ok W b d v"
  by (simp_all add: log_ok_def posted_def RetainSession_def release_slot_def)

lemma log_ok_emit: "log_ok W b d v \<Longrightarrow> log_ok W b d (server_emit as v)"
  by (auto simp: log_ok_def posted_def has_asked_append server_emit_def)

lemma log_ok_put:
  assumes "log_ok W b d v" and "i < length (sv_heap v)" and "waiting s \<Longrightarrow> waiting (sv_heap v ! i) \<or> asks s"
  shows "log_ok W b d (put_session i s v)"
proof -
  obtain as where v: "sv_out v = b @ as" "sv_dns v = d" "\<not> sv_stopping v"
    "\<And>i. i < length (sv_heap v) \<Longrightarrow> waiting (sv_heap v ! i) \<Longrightarrow> i \<in> W \<or> has_asked i as \<or> posted i v"
    using assms(1) by (rule log_okE) blast
  let ?as = "as @ map (VSession i) (ss_out s)"
  have "asks s \<Longrightarrow> has_asked i ?as" by (auto simp: asks_def has_asked_def)
  moreover have "posted k v \<Longrightarrow> posted k (put_session i s v)" for k by (auto simp: posted_def)
  moreover have "waiting (s\<lparr>ss_out := []\<rparr>) = waiting s" by (simp add: waiting_def)
  ultimately have "k \<in> W \<or> has_asked k ?as \<or> posted k (put_session i s v)"
    if "k < length (sv_heap v)" "waiting (sv_heap (put_session i s v) ! k)" for k
    using that assms(2,3) v(4) [of k] by (cases "k = i") (auto simp: nth_list_update has_asked_append)
  then show ?thesis unfolding log_ok_def by (intro conjI exI [of _ ?as]) (simp_all add: v(1-3))
qed

lemma waiting_step:
  assumes "ev \<noteq> SvStart" and "waiting (OnIoCompleted e ev s)"
  shows "waiting s \<or> asks (OnIoCompleted e ev s)"
  using step_asks [of s ev e] assms closed_run_id [of s "[ev]" e]
  by (auto simp: waiting_def session_run_def simp del: OnIoCompleted.simps)

lemma log_ok_event:
  "log_ok W b d v \<Longrightarrow> i < length (sv_heap v) \<Longrightarrow> ev \<noteq> SvStart \<Longrightarrow> log_ok W b d (session_event e i ev v)"
  unfolding session_event_def using waiting_step by (intro log_ok_put) auto

lemma log_ok_made:
  assumes "log_ok W b d v"
  shows "log_ok W b d (made_session e acc h v)"
proof -
  have "\<not> waiting ((new_Socks5Session x p l h)\<lparr>ss_out := []\<rparr>)" for x p l by (simp add: waiting_def new_Socks5Session_def)
  then show ?thesis
    using assms
    by (auto simp: log_ok_def posted_def has_asked_append made_session_def server_emit_def Let_def nth_append less_Suc_eq)
qed

lemma log_ok_admit: "log_ok W b d v \<Longrightarrow> log_ok W b d (snd (admit e acc h v))"
proof -
  assume v: "log_ok W b d v"
  let ?i = "length (sv_heap v)" and ?m = "made_session e acc h v"
  have made: "log_ok W b d ?m" using v by (rule log_ok_made)
  have st: "ss_state (sv_heap ?m ! ?i) = Handshake" by (simp add: new_Socks5Session_def)
  have put: "log_ok W b d (put_session ?i s w)" if "log_ok W b d w" "?i < length (sv_heap w)" "ss_state s = Handshake" for s w
    using that by (intro log_ok_put) (auto simp: waiting_def)
  have d: "ss_state (destroy_Socks5Session s) = ss_state s" "ss_state (snd (session_call x s)) = ss_state s" "ss_state (Close s) = ss_state s" for s x
    by (simp_all add: destroy_Socks5Session_def close_dest_def Let_def)
  have start: "log_ok W b d (session_event e ?i SvStart (RetainSession ?i ?m))"
    unfolding session_event_def using made Start_not_Resolving [OF st] by (intro put) simp_all
  have "log_ok W b d (put_session ?i (destroy_Socks5Session (sv_heap ?m ! ?i)) ?m)"
    "log_ok W b d (put_session ?i (snd (session_call (ve_session e ?i) (sv_heap ?m ! ?i))) (RetainSession ?i ?m))"
    "log_ok W b d (put_session ?i (Close (snd (session_call (ve_session e ?i) (sv_heap ?m ! ?i)))) (RetainSession ?i ?m))"
    using made st by (simp_all del: made_fields(2) add: put d)
  then show ?thesis
    unfolding admit_eq Let_def split_def using v start by (auto split: option.split accept_fault.split)
qed

lemma log_ok_OnAccept: "log_ok W b d v \<Longrightarrow> log_ok W b d (OnAccept e acc v)"
  using log_ok_admit [of W b d _ e acc]
  by (auto simp: OnAccept_def try_acquire_def Let_def split_def intro!: log_ok_emit split: option.split nat.split)

interpretation asking: accept_client "OnAccept e" "\<lambda>acc. True" "log_ok W b d" for e W b d
  by unfold_locales (rule log_ok_OnAccept)

lemma log_ok_step:
  assumes "log_ok W b d v" and "event_ok ev" and "\<And>order. ev \<noteq> VvStop order"
  shows "log_ok W b d (server_step e ev v)"
proof (cases ev)
  case (VvAccept slot error acc)
  have "log_ok W b d (snd (TcpAcceptor_OnIoCompleted (ve_accept e) (Some (OnAccept e acc)) slot error (a, v)))" for a
    by (rule asking.done_keeps) (use assms(1) in simp_all)
  then show ?thesis using assms(1) by (auto simp: VvAccept Let_def split: option.split prod.split) (metis snd_conv)
qed (use assms in \<open>auto intro: log_ok_event\<close>)

section \<open>Answers\<close>

lemma log_ok_rebase:
  assumes "log_ok W b d v" and "\<And>i. i \<in> W \<or> has_asked i (drop (length b) (sv_out v)) \<Longrightarrow> i \<in> W'"
  shows "log_ok W' (sv_out v) d v"
  using assms by (elim log_okE) (force simp: log_ok_def)

lemma log_ok_settled:
  "log_ok (insert k W) b d v \<Longrightarrow> (k < length (sv_heap v) \<Longrightarrow> waiting (sv_heap v ! k) \<Longrightarrow> posted k v) \<Longrightarrow> log_ok W b d v"
  by (force simp: log_ok_def)

lemma answer_quiet: "ss_out s = [] \<Longrightarrow> SResolve d \<notin> set (ss_out (OnDnsAnswer e x s))"
  by (auto simp: OnDnsAnswer_def Close_def session_emit_def CancelIdleTimer_def CancelConnectTimer_def close_dest_def Let_def split_def split: option.split)

lemma answer_posts: "waiting (OnDnsAnswer e x s) \<Longrightarrow> SPostUser \<in> set (ss_out (OnDnsAnswer e x s))"
  by (auto simp: OnDnsAnswer_def waiting_def session_emit_def Let_def split_def split: if_splits)

text \<open>The callback of a session either posts a completion or closes the session.\<close>

lemma answered_ok:
  assumes "server_ok cap v" and "log_ok (insert k W) (sv_out v) d v" and "k < length (sv_heap v)"
  shows "server_ok cap (session_event e k (SvDnsAnswer x) v)"
    and "log_ok W (sv_out (session_event e k (SvDnsAnswer x) v)) d (session_event e k (SvDnsAnswer x) v)"
proof -
  let ?s = "OnDnsAnswer (ve_session e k) x (sv_heap v ! k)"
  define w where "w = session_event e k (SvDnsAnswer x) v"
  have w: "w = put_session k ?s v" by (simp add: w_def session_event_def)
  have out: "sv_out w = sv_out v @ map (VSession k) (ss_out ?s)" by (simp add: w)
  have heap: "sv_heap w ! k = ?s\<lparr>ss_out := []\<rparr>" using assms(3) by (simp add: w)
  have base: "log_ok (insert k W) (sv_out v) d w" unfolding w_def using assms(2,3) by (intro log_ok_event) simp_all
  have "\<not> has_asked i (map (VSession k) (ss_out ?s))" for i
    using answer_quiet [OF heap_entry(1) [OF assms(1,3)]] by (auto simp: has_asked_def)
  then have "log_ok (insert k W) (sv_out w) d w" using out by (intro log_ok_rebase [OF base]) simp
  moreover have "posted k w" if "waiting (sv_heap w ! k)"
  proof -
    have "waiting ?s" using that heap by (simp add: waiting_def)
    then show ?thesis using answer_posts out by (auto simp: posted_def)
  qed
  ultimately have "log_ok W (sv_out w) d w" by (rule log_ok_settled)
  then show "log_ok W (sv_out (session_event e k (SvDnsAnswer x) v)) d (session_event e k (SvDnsAnswer x) v)" by (simp only: w_def)
  show "server_ok cap (session_event e k (SvDnsAnswer x) v)" using assms(1,3) by (intro session_event_ok) simp_all
qed

lemma hand_out_ok:
  assumes "server_ok cap v" and "log_ok {i. 2 * i \<in> insert c C} (sv_out v) d v"
  shows "server_ok cap (hand_out e (c, x) v) \<and> log_ok {i. 2 * i \<in> C} (sv_out (hand_out e (c, x) v)) d (hand_out e (c, x) v)"
proof (cases "\<exists>k < length (sv_heap v). c = 2 * k")
  case True
  then obtain k where k: "k < length (sv_heap v)" "c = 2 * k" by blast
  have "{i. 2 * i \<in> insert c C} = insert k {i. 2 * i \<in> C}" using k(2) by auto
  then have "log_ok (insert k {i. 2 * i \<in> C}) (sv_out v) d v" using assms(2) by simp
  from answered_ok [OF assms(1) this k(1)] show ?thesis using k by (simp add: hand_out_def)
next
  case False
  then have h: "hand_out e (c, x) v = v" by (auto simp: hand_out_def)
  have "i \<in> {i. 2 * i \<in> C}" if "i < length (sv_heap v)" "i \<in> {i. 2 * i \<in> insert c C}" for i using that False by auto
  then have "log_ok {i. 2 * i \<in> C} (sv_out v) d v" using assms(2) unfolding log_ok_def by blast
  then show ?thesis using h assms(1) by simp
qed

lemma fold_hand_out_ok:
  "server_ok cap v \<Longrightarrow> log_ok {i. 2 * i \<in> set (map fst as) \<union> C} (sv_out v) d v \<Longrightarrow>
   server_ok cap (fold (hand_out e) as v) \<and> log_ok {i. 2 * i \<in> C} (sv_out (fold (hand_out e) as v)) d (fold (hand_out e) as v)"
proof (induction as arbitrary: v)
  case (Cons a as)
  obtain c x where a: "a = (c, x)" by fastforce
  have "set (map fst (a # as)) \<union> C = insert c (set (map fst as) \<union> C)" by (simp add: a)
  then have "log_ok {i. 2 * i \<in> insert c (set (map fst as) \<union> C)} (sv_out v) d v" using Cons.prems(2) by (simp only:)
  from hand_out_ok [OF Cons.prems(1) this, of e x] have "server_ok cap (hand_out e a v)"
    "log_ok {i. 2 * i \<in> set (map fst as) \<union> C} (sv_out (hand_out e a v)) d (hand_out e a v)" by (simp_all only: a)
  from Cons.IH [OF this] show ?case by (simp only: fold.simps comp_apply)
qed simp

lemma answers_delivered: "map fst (concat (map answer_of (r_out r))) = delivered r"
proof -
  have "map fst (answer_of a) = delivered_cb a" for a by (cases a) simp_all
  then show ?thesis by (simp add: delivered_def map_concat comp_def)
qed

lemma flushed [simp]:
  "index_ok (r\<lparr>r_out := os\<rparr>) = index_ok r" "owed (r\<lparr>r_out := os\<rparr>) = owed r" "delivered (r\<lparr>r_out := []\<rparr>) = []"
  by (simp_all add: index_ok_def owed_def delivered_def)


section \<open>The invariant of the proxy\<close>

text \<open>\<open>Q\<close> are the callbacks of the questions that are still to be submitted.\<close>

definition proxy_ok :: "nat option \<Rightarrow> nat multiset \<Rightarrow> server \<Rightarrow> bool" where
  "proxy_ok cap Q v \<longleftrightarrow> server_ok cap v \<and>
     (case sv_dns v of
        None \<Rightarrow> halted cap v
      | Some r \<Rightarrow> index_ok r \<and> log_ok {i. 2 * i \<in># owed r + Q} (sv_out v) (Some r) v)"

lemma dns_op_ok:
  assumes "proxy_ok cap (new + Q) v" and "\<And>r. index_ok r \<Longrightarrow> books_ok new r (f r)"
  shows "proxy_ok cap Q (dns_op e f v)"
proof (cases "sv_dns v")
  case None
  then show ?thesis using assms(1) by (simp add: proxy_ok_def dns_op_def)
next
  case (Some r)
  define r1 where "r1 = f (r\<lparr>r_out := []\<rparr>)"
  define as where "as = concat (map answer_of (r_out r1))"
  let ?r = "r1\<lparr>r_out := []\<rparr>"
  have r: "server_ok cap v" "index_ok r" "log_ok {i. 2 * i \<in># owed r + (new + Q)} (sv_out v) (Some r) v"
    using assms(1) Some by (simp_all add: proxy_ok_def)
  have b: "index_ok r1" "owed r1 + mset (map fst as) = owed r + new"
    using assms(2) [of "r\<lparr>r_out := []\<rparr>"] r(2) by (simp_all add: r1_def [symmetric] books_ok_def accounted_def answers_delivered as_def)
  have "x \<in># owed r + (new + Q) \<longleftrightarrow> x \<in> set (map fst as) \<union> set_mset (owed r1 + Q)" for x
    using arg_cong [OF b(2), of "\<lambda>m. x \<in># m"] by auto
  then have "log_ok {i. 2 * i \<in> set (map fst as) \<union> set_mset (owed r1 + Q)} (sv_out v) (Some ?r) (v\<lparr>sv_dns := Some ?r\<rparr>)"
    using r(3) by (simp add: log_ok_def posted_def)
  then have ok: "server_ok cap (fold (hand_out e) as (v\<lparr>sv_dns := Some ?r\<rparr>))"
    "log_ok {i. 2 * i \<in># owed r1 + Q} (sv_out (fold (hand_out e) as (v\<lparr>sv_dns := Some ?r\<rparr>))) (Some ?r)
      (fold (hand_out e) as (v\<lparr>sv_dns := Some ?r\<rparr>))"
    using fold_hand_out_ok [of cap "v\<lparr>sv_dns := Some ?r\<rparr>" as "set_mset (owed r1 + Q)" "Some ?r" e] r(1) by simp_all
  then have "sv_dns (fold (hand_out e) as (v\<lparr>sv_dns := Some ?r\<rparr>)) = Some ?r" by (simp add: log_ok_def)
  with ok b(1) show ?thesis by (simp add: proxy_ok_def dns_op_def Some r1_def [symmetric] as_def [symmetric])
qed

lemma submit_all_ok:
  "proxy_ok cap (mset (map (\<lambda>q. 2 * fst q) qs)) v \<Longrightarrow> proxy_ok cap {#} (fold (submit e now) qs v)"
proof (induction qs arbitrary: v)
  case (Cons q qs)
  have "proxy_ok cap (mset (map (\<lambda>q. 2 * fst q) qs)) (submit e now q v)"
    unfolding submit_def using Cons.prems
    by (intro dns_op_ok [where new = "new_callbacks (Some (2 * fst q))"] ResolveAsync_books) (simp_all add: new_callbacks_def)
  then show ?case using Cons.IH by simp
qed simp

lemma stopped_dns: "sv_dns (ProxyServer_Stop e order v) = (if sv_stopping v then sv_dns v else None)"
  by (simp add: ProxyServer_Stop_def server_emit_def Let_def)

lemma halted_dns: "halted cap v \<Longrightarrow> sv_dns (server_step e ev v) = sv_dns v"
  by (cases ev) (simp_all add: halted_def session_event_def stopped_dns)

lemma asked_questions: "has_asked i as \<Longrightarrow> 2 * i \<in># mset (map (\<lambda>q. 2 * fst q) (concat (map question_of as)))"
  by (force simp: has_asked_def)

lemma server_event_ok:
  assumes "proxy_ok cap {#} v" and "event_ok ev"
    and "Q = mset (map (\<lambda>q. 2 * fst q) (concat (map question_of (drop (length (sv_out v)) (sv_out (server_step e ev v))))))"
  shows "\<exists>cap'. proxy_ok cap' Q (server_step e ev v)"
proof (cases "sv_dns v")
  case None
  then have h: "halted cap v" using assms(1) by (simp add: proxy_ok_def)
  show ?thesis
    using halted_step(1) [OF h assms(2), of e] halted_dns [OF h, of e ev] None
    by (intro exI [of _ cap]) (simp add: proxy_ok_def, simp add: halted_def)
next
  case (Some r)
  then have r: "server_ok cap v" "index_ok r" "log_ok {i. 2 * i \<in># owed r} (sv_out v) (Some r) v"
    using assms(1) by (simp_all add: proxy_ok_def)
  have ok: "server_ok (spilled (step_throws e ev v) cap) (server_step e ev v)" using r(1) assms(2) by (rule server_step_ok)
  show ?thesis
  proof (cases "\<exists>order. ev = VvStop order")
    case True
    then obtain order where ev: "ev = VvStop order" by blast
    have "\<not> sv_stopping v" using r(3) by (simp add: log_ok_def)
    then show ?thesis
      using Stop_halts [OF r(1), of order e] stopped_dns [of e order v] ok assms(2)
      by (intro exI [of _ cap]) (simp add: ev proxy_ok_def spilled_def)
  next
    case False
    then have log: "log_ok {i. 2 * i \<in># owed r} (sv_out v) (Some r) (server_step e ev v)"
      using r(3) assms(2) by (intro log_ok_step) auto
    then have "log_ok {i. 2 * i \<in># owed r + Q} (sv_out (server_step e ev v)) (Some r) (server_step e ev v)"
      using asked_questions by (intro log_ok_rebase [OF log]) (auto simp: assms(3))
    moreover have "sv_dns (server_step e ev v) = Some r" using log by (simp add: log_ok_def)
    ultimately show ?thesis using ok r(2) by (intro exI [of _ "spilled (step_throws e ev v) cap"]) (simp add: proxy_ok_def)
  qed
qed

lemma proxy_ok_more: "proxy_ok cap {#} v \<Longrightarrow> proxy_ok cap Q v"
  by (fastforce simp: proxy_ok_def log_ok_def split: option.splits)

lemma proxy_event_event_ok: "proxy_event_ok (PxServer now ev) \<Longrightarrow> event_ok ev"
  by (cases "PxServer now ev" rule: proxy_event_ok.cases) auto

lemma proxy_step_ok:
  assumes "proxy_ok cap {#} v" and "proxy_event_ok ev" and "iter_ok (de_ids (ve_dns e))"
  shows "\<exists>cap'. proxy_ok cap' {#} (proxy_step e ev v)"
proof (cases ev)
  case (PxServer now sev)
  obtain cap' where "proxy_ok cap' (mset (map (\<lambda>q. 2 * fst q)
      (concat (map question_of (drop (length (sv_out v)) (sv_out (server_step e sev v))))))) (server_step e sev v)"
    using server_event_ok [OF assms(1) _ refl, of sev e] assms(2) proxy_event_event_ok PxServer by blast
  then show ?thesis by (intro exI [of _ cap']) (auto simp: PxServer Let_def intro!: submit_all_ok)
next
  case (PxRelay now j d)
  then show ?thesis
    using proxy_ok_more [OF assms(1)]
    by (auto intro!: exI [of _ cap] dns_op_ok [where new = "new_callbacks (Some (2 * j + 1))"] ResolveAsync_books)
next
  case (PxDns now dev)
  have "submitted [(now, dev)] = {#}" if "completion dev" using that by (cases dev) simp_all
  then show ?thesis
    using dns_op_ok [of cap "{#}" "{#}" v "dns_step (ve_dns e) (now, dev)" e] dns_step_books [OF assms(3)] assms(1)
    by (simp add: PxDns) (metis)
qed

lemma proxy_run_ok:
  "proxy_ok cap {#} v \<Longrightarrow> list_all proxy_event_ok evs \<Longrightarrow> iter_ok (de_ids (ve_dns e)) \<Longrightarrow> \<exists>cap'. proxy_ok cap' {#} (proxy_run e evs v)"
  unfolding proxy_run_def
proof (induction evs arbitrary: cap v)
  case (Cons ev evs)
  then obtain cap' where "proxy_ok cap' {#} (proxy_step e ev v)" using proxy_step_ok [of cap v ev e] by auto
  with Cons show ?case by simp
qed auto

lemma started_proxy_ok:
  assumes "ProxyServer_Start e new_ProxyServer = (None, v)" and "iter_ok (de_ids (ve_dns e))"
  shows "proxy_ok (capacity e) {#} v"
proof -
  have "index_ok (snd (DnsResolver.Start (ve_dns e) new_resolver))"
    using dns_step_books [OF assms(2) new_resolver_ok(1), of "(0, EvStart)"] by (simp add: books_ok_def)
  moreover have "sv_dns v = Some (snd (DnsResolver.Start (ve_dns e) new_resolver))"
    using assms(1) by (auto simp: ProxyServer_Start_def Let_def split: if_splits prod.splits option.splits)
  ultimately show ?thesis using Start_ok [OF assms(1)] by (simp add: proxy_ok_def log_ok_def)
qed

text \<open>C13.  No session waits for a name in vain: in every state the proxy reaches, an open session in the resolving state either has
  its callback registered with a pending query of the resolver, which is running, or its answer is posted to the completion port; and when
  the posted answer is handled, the session goes on to connect, or to report the failure and close.  The resolver answers every
  registered callback, once.\<close>

theorem resolving_never_forgotten:
  assumes "ProxyServer_Start e new_ProxyServer = (None, v0)" and "iter_ok (de_ids (ve_dns e))"
    and "list_all proxy_event_ok evs" and "v = proxy_run e evs v0"
    and "i \<in> set (sv_sessions v)" and "ss_state (sv_heap v ! i) = Resolving"
  shows "((\<exists>r. sv_dns v = Some r \<and> 2 * i \<in># owed r) \<or> VSession i SPostUser \<in> set (sv_out v)) \<and>
    (let s = OnIoCompleted (ve_session e i) SvDnsPosted (sv_heap v ! i) in ss_closed s \<or> ss_state s \<in> {Connecting, Closing})"
proof
  obtain cap where ok: "proxy_ok cap {#} v"
    using proxy_run_ok [OF started_proxy_ok [OF assms(1,2)] assms(3,2)] assms(4) by blast
  then have i: "i < length (sv_heap v)" "\<not> ss_closed (sv_heap v ! i)"
    using assms(5) by (auto simp: proxy_ok_def server_ok_def heap_ok_def)
  then have w: "waiting (sv_heap v ! i)" using assms(6) by (simp add: waiting_def)
  obtain r where "sv_dns v = Some r" "log_ok {i. 2 * i \<in># owed r} (sv_out v) (Some r) v"
    using ok assms(5) by (auto simp: proxy_ok_def halted_def split: option.splits)
  with i w show "(\<exists>r. sv_dns v = Some r \<and> 2 * i \<in># owed r) \<or> VSession i SPostUser \<in> set (sv_out v)"
    by (auto simp: log_ok_def posted_def has_asked_def)
  show "let s = OnIoCompleted (ve_session e i) SvDnsPosted (sv_heap v ! i) in ss_closed s \<or> ss_state s \<in> {Connecting, Closing}"
    using posted_answer_ends_wait [OF i(2) assms(6)] by (simp add: Let_def)
qed

section \<open>A concrete proxy\<close>

text \<open>A client asks for the name \<open>a\<close> and the system calls of its session succeed: it waits, and it waits on while answers are handed out.\<close>

lemma name_step:
  assumes env: "\<not> HasCredentials (se_cfg e)" "\<not> EnableGssapi (se_cfg e)" "se_ok e = (\<lambda>n. True)" "ParseIP (se_ws e) ''a'' = None"
    and s: "ss_state s = Handshake" "ss_ingest s = []" "\<not> ss_closed s" "\<not> ss_gssProtectActive s"
  shows "waiting (OnIoCompleted e (SvClientRecv [5, 1, 0, 5, 1, 0, 3, 1, 97, 0, 80] False) s)"
proof -
  let ?d = "[5, 1, 0, 5, 1, 0, 3, 1, 97, 0, 80]" and ?q = "[5, 1, 0, 3, 1, 97, 0, 80] :: bytes"
  define s1 where "s1 = ArmIdleTimer e (mod_io Client (\<lambda>io. io\<lparr>si_reading := False\<rparr>) s)"
  define s2 where "s2 = (QueueClientSendRaw e [kVersion, AuthMethod_NoAuth] (s1\<lparr>ss_ingest := ?q\<rparr>))\<lparr>ss_state := Request\<rparr>"
  define s3 where "s3 = snd (StartConnect e ''a'' 80 (s2\<lparr>ss_ingest := []\<rparr>))"
  have s1: "ss_state s1 = Handshake" "ss_ingest s1 = []" "\<not> ss_closed s1" "\<not> ss_gssProtectActive s1"
    using s env(3) by (simp_all add: s1_def)
  have s2: "ss_state s2 = Request" "ss_ingest s2 = ?q" "\<not> ss_closed s2" "\<not> ss_gssProtectActive s2"
    using s1 env(3) by (simp_all add: s2_def)
  have s3: "StartConnect e ''a'' 80 (s2\<lparr>ss_ingest := []\<rparr>) = (True, s3)" "ss_state s3 = Resolving" "\<not> ss_closed s3"
    using env(4) s2 by (simp_all add: s3_def StartConnect_def session_emit_def)
  have hs: "process_buffer e (s1\<lparr>ss_ingest := ?d\<rparr>) = (True, s2)"
    using s1 env by (simp add: process_buffer_def ProcessHandshakeBuffer_def select_method_def s2_def Let_def)
  have letter: "chr_of_byte 97 = CHR ''a''" by code_simp
  have "parse_request (se_ws e) ?q = ReqOk 1 ''a'' 80 8"
    using letter by (simp add: parse_request_def string_of_bytes_def be16_def)
  then have "process_buffer e s2 = (True, s3)"
    using s2 s3 by (simp add: process_buffer_def ProcessRequestBuffer_def Let_def)
  then have "protocol_loop e s2 = (False, s3)"
    using s2 s3 by (subst protocol_loop.simps) (simp add: protocol_state_def)
  with hs have "protocol_loop e (s1\<lparr>ss_ingest := ?d\<rparr>) = (False, s3)"
    using s1 s2 by (subst protocol_loop.simps) (simp add: protocol_state_def)
  then show ?thesis
    using s s1 s3 by (simp add: OnClientRecv_def Let_def s1_def [symmetric] protocol_state_def waiting_def)
qed

definition protocol_view :: "session \<Rightarrow> SessionState \<times> bytes \<times> bool \<times> bool" where
  "protocol_view s = (ss_state s, ss_ingest s, ss_closed s, ss_gssProtectActive s)"

lemma answer_view: "se_ok e = (\<lambda>n. True) \<Longrightarrow> protocol_view (OnDnsAnswer e x s) = protocol_view s"
  by (simp add: OnDnsAnswer_def protocol_view_def session_call_def session_emit_def)

lemma put_view:
  "i < length (sv_heap v) \<Longrightarrow> protocol_view s = protocol_view (sv_heap v ! i) \<Longrightarrow>
   map protocol_view (sv_heap (put_session i s v)) = map protocol_view (sv_heap v)"
  by (simp add: map_update list_update_same_conv) (simp add: protocol_view_def)

lemma hand_out_view:
  assumes "\<And>i. se_ok (ve_session e i) = (\<lambda>n. True)"
  shows "map protocol_view (sv_heap (fold (hand_out e) as v)) = map protocol_view (sv_heap v)"
proof (induction as arbitrary: v)
  case (Cons a as)
  have "map protocol_view (sv_heap (hand_out e a v)) = map protocol_view (sv_heap v)"
    using put_view answer_view [OF assms] by (simp add: hand_out_def session_event_def del: put_heap)
  with Cons.IH show ?case by simp
qed simp

lemma submit_all_view:
  assumes "\<And>i. se_ok (ve_session e i) = (\<lambda>n. True)"
  shows "map protocol_view (sv_heap (fold (submit e now) qs v)) = map protocol_view (sv_heap v)"
proof (induction qs arbitrary: v)
  case (Cons q qs)
  have "map protocol_view (sv_heap (submit e now q v)) = map protocol_view (sv_heap v)"
    using hand_out_view [OF assms] by (simp add: submit_def dns_op_def Let_def split: option.split)
  with Cons.IH show ?case by simp
qed simp

lemma proxy_step_view:
  assumes "\<And>i. se_ok (ve_session e i) = (\<lambda>n. True)"
  shows "map protocol_view (sv_heap (proxy_step e (PxServer now ev) v)) = map protocol_view (sv_heap (server_step e ev v))"
  using submit_all_view [OF assms] by (simp add: Let_def)

definition sample_events :: "proxy_event list" where
  "sample_events = [PxServer 0 (VvAccept 0 0 sample_client),
     PxServer 0 (VvSession 0 (SvClientRecv [5, 1, 0, 5, 1, 0, 3, 1, 97, 0, 80] False))]"

lemma fresh_view:
  assumes "se_ok e = (\<lambda>n. True)"
  shows "protocol_view (OnIoCompleted e SvStart ((new_Socks5Session e c l h)\<lparr>ss_out := []\<rparr>)) = (Handshake, [], False, False)"
proof -
  define s where "s = ArmIdleTimer e ((new_Socks5Session e c l h)\<lparr>ss_out := [], ss_calls := Suc 0, ss_state := Handshake\<rparr>)"
  have io: "ss_clientIo s = new_StreamIo" "\<not> ss_closed s" "ss_ingest s = []" "ss_state s = Handshake" "\<not> ss_gssProtectActive s"
    using assms by (simp_all add: s_def ArmIdleTimer_def Let_def new_Socks5Session_def)
  then have "fst (BeginClientRead e s)" using assms by (simp add: BeginClientRead_def session_call_def new_StreamIo_def)
  then have "OnIoCompleted e SvStart ((new_Socks5Session e c l h)\<lparr>ss_out := []\<rparr>) = snd (BeginClientRead e s)"
    using assms by (cases "BeginClientRead e s") (simp add: s_def Session_Start_def session_call_def new_Socks5Session_def)
  then show ?thesis using assms io by (simp add: protocol_view_def)
qed

lemma sample_acceptor:
  "case sv_acceptor sample_server of None \<Rightarrow> False
   | Some a \<Rightarrow> \<not> ac_stopping a \<and> 0 < length (ac_accepts a) \<and> ai_acceptSocket (ac_accepts a ! 0)"
  by code_simp

lemma sample_admits:
  "map protocol_view (sv_heap (server_step sample_server_env (VvAccept 0 0 sample_client) sample_server)) = [(Handshake, [], False, False)]"
proof -
  let ?e = "sample_server_env"
  obtain a where a: "sv_acceptor sample_server = Some a" "\<not> ac_stopping a" "0 < length (ac_accepts a)" "ai_acceptSocket (ac_accepts a ! 0)"
    using sample_acceptor by (auto split: option.splits)
  have ok: "se_ok (ve_session ?e i) = (\<lambda>n. True)" for i by (simp add: sample_server_env_def sample_session_env_def)
  have "sv_slots sample_server = Some (Suc 0)" "sv_heap sample_server = []" "\<not> sv_stopping sample_server"
    using Start_ok [OF sample_server_started] by simp_all
  then have "map protocol_view (sv_heap (OnAccept ?e sample_client sample_server)) = [(Handshake, [], False, False)]"
    using fresh_view [OF ok]
    by (simp add: OnAccept_def try_acquire_def admit_eq Let_def session_event_def made_session_def server_emit_def protocol_view_def
        del: OnIoCompleted.simps)
  moreover have "sv_heap (server_step ?e (VvAccept 0 0 sample_client) sample_server) = sv_heap (OnAccept ?e sample_client sample_server)"
    using a by (simp add: TcpAcceptor_OnIoCompleted_def HandleAccept_def Let_def set_posted_def nth_list_update)
  ultimately show ?thesis by simp
qed

lemma sample_waits:
  "0 < length (sv_heap (proxy_run sample_server_env sample_events sample_server)) \<and>
   waiting (sv_heap (proxy_run sample_server_env sample_events sample_server) ! 0)"
proof -
  let ?e = "sample_server_env" and ?ev = "SvClientRecv [5, 1, 0, 5, 1, 0, 3, 1, 97, 0, 80] False"
  define v1 where "v1 = proxy_step ?e (PxServer 0 (VvAccept 0 0 sample_client)) sample_server"
  define v2 where "v2 = proxy_step ?e (PxServer 0 (VvSession 0 ?ev)) v1"
  have env: "ve_session ?e i = sample_session_env" for i by (simp add: sample_server_env_def)
  have ok: "se_ok (ve_session ?e i) = (\<lambda>n. True)" for i by (simp add: env sample_session_env_def)
  have "map protocol_view (sv_heap v1) = [(Handshake, [], False, False)]"
    unfolding v1_def proxy_step_view [OF ok] by (rule sample_admits)
  then obtain s where s: "sv_heap v1 = [s]" "ss_state s = Handshake" "ss_ingest s = []" "\<not> ss_closed s" "\<not> ss_gssProtectActive s"
    by (auto simp: protocol_view_def)
  have "ParseIP (se_ws sample_session_env) ''a'' = None" by code_simp
  then have "waiting (OnIoCompleted sample_session_env ?ev s)"
    using s by (intro name_step) (simp_all add: sample_session_env_def default_netcfg_def HasCredentials_def)
  then have "\<exists>t. sv_heap (server_step ?e (VvSession 0 ?ev) v1) = [t] \<and> waiting t"
    using s(1) by (simp add: session_event_def env waiting_def del: OnIoCompleted.simps)
  then obtain t where t: "sv_heap (server_step ?e (VvSession 0 ?ev) v1) = [t]" "waiting t" by blast
  have "map protocol_view (sv_heap v2) = [protocol_view t]" unfolding v2_def proxy_step_view [OF ok] t(1) by simp
  then have "0 < length (sv_heap v2) \<and> waiting (sv_heap v2 ! 0)" using t(2) by (auto simp: protocol_view_def waiting_def)
  moreover have "proxy_run ?e sample_events sample_server = v2"
    by (simp add: sample_events_def proxy_run_def v1_def v2_def del: proxy_step.simps)
  ultimately show ?thesis by simp
qed

theorem resolving_never_forgotten_witness:
  "(\<exists>r. sv_dns (proxy_run sample_server_env sample_events sample_server) = Some r \<and> 0 \<in># owed r) \<or>
   VSession 0 SPostUser \<in> set (sv_out (proxy_run sample_server_env sample_events sample_server))"
proof -
  let ?v = "proxy_run sample_server_env sample_events sample_server"
  have ord: "iter_ok (de_ids (ve_dns sample_server_env))" by (simp add: sample_server_env_def)
  have evs: "list_all proxy_event_ok sample_events" by (simp add: sample_events_def)
  obtain cap where "proxy_ok cap {#} ?v"
    using proxy_run_ok [OF started_proxy_ok [OF sample_server_started ord] evs ord] by blast
  then have "0 \<in> set (sv_sessions ?v)"
    using sample_waits by (simp add: proxy_ok_def server_ok_def heap_ok_def waiting_def)
  then show ?thesis
    using resolving_never_forgotten [OF sample_server_started ord evs refl, of 0] sample_waits by (simp add: waiting_def)
qed

end
